(* ===== verification/C_Prelude.thy ===== *)
theory C_Prelude
  imports Main "HOL-Library.Word" "HOL-Library.Multiset" "HOL-Library.Monad_Syntax"
begin

unbundle bit_operations_syntax

text \<open>
  Shared material: the C types the server uses, C integer wrap-around, the C string functions that
  the sources call, reading an array through an index, and generic lemmas on lists and on the option
  monad.

  Conventions of the whole development.
  \<^item> A C \<open>int\<close> that is user data (keys, stored integers, \<open>nextKey\<close>) is a \<^typ>\<open>32 word\<close> read with
    \<^const>\<open>sint\<close>; an \<open>unsigned int\<close> is a \<^typ>\<open>32 word\<close> read with \<^const>\<open>unat\<close>; a \<open>time_t\<close> is a
    \<^typ>\<open>64 word\<close>; a \<open>double\<close> is its 64-bit pattern (theory Float64). An \<open>int\<close> that is a status
    code, a size tag or a counter is an \<^typ>\<open>int\<close>; where such a counter is multiplied the wrap-around is
    written out with \<open>wrap32\<close>. Signed overflow, which ISO C leaves undefined, is modelled as the
    two's complement wrap-around of the target.
  \<^item> A NUL-terminated C string is a \<^typ>\<open>string\<close> without its terminator.
  \<^item> A result of type \<open>'a option\<close> that is called a \<open>run\<close> below is \<^const>\<open>None\<close> where the C code has
    undefined behaviour that the types of the program do not exclude: it reads a union member other
    than the one stored (a wild pointer when the member is a pointer), or indexes past an array.
  \<^item> Memory allocation succeeds: the branches that report an allocation failure are not modelled, nor is
    the release of memory, except that \<open>free\<close> of something that is not an allocated block is undefined.
\<close>

type_synonym cint = "32 word"
type_synonym ctime = "64 word"
type_synonym 'a run = "'a option"

named_theorems codec \<open>reading and writing of machine values\<close>
named_theorems typed \<open>operations on values that fit their declared field type\<close>

subsection \<open>Signed 32-bit arithmetic\<close>

definition wrap32 :: "int \<Rightarrow> int" where
  "wrap32 x = (x + 2 ^ 31) mod 2 ^ 32 - 2 ^ 31"

lemma wrap32_id [simp]: "- (2 ^ 31) \<le> x \<Longrightarrow> x < 2 ^ 31 \<Longrightarrow> wrap32 x = x"
  by (simp add: wrap32_def)

lemma wrap32_range: "- (2 ^ 31) \<le> wrap32 x \<and> wrap32 x < 2 ^ 31"
proof -
  have "0 \<le> (x + 2 ^ 31) mod 2 ^ 32" "(x + 2 ^ 31) mod 2 ^ 32 < 2 ^ 32" by simp_all
  then show ?thesis by (simp add: wrap32_def)
qed

lemma sint_cint_range: "- (2 ^ 31) \<le> sint (k :: cint) \<and> sint k < 2 ^ 31"
  using sint_range_size [of k] by (simp add: word_size)

lemma sint_cint_inc:
  fixes k :: cint
  assumes "sint k < 2 ^ 31 - 1"
  shows "sint (k + 1) = sint k + 1"
proof -
  have "- (2 ^ 31) \<le> sint k + 1" "sint k + 1 < 2 ^ 31"
    using sint_cint_range [of k] assms by simp_all
  then show ?thesis
    by (simp add: sint_word_ariths signed_take_bit_int_eq_self)
qed

subsection \<open>C strings\<close>

text \<open>
  \<open>strncpy(dst, src, N - 1); dst[N - 1] = 0\<close> keeps the first \<open>N - 1\<close> characters; the field of a
  struct holds the string up to its terminator.
\<close>

definition copy_name :: "nat \<Rightarrow> string \<Rightarrow> string" where
  "copy_name n s = take (n - 1) s"

lemma length_copy_name: "0 < n \<Longrightarrow> length (copy_name n s) < n"
  by (simp add: copy_name_def)

lemma copy_name_id [simp]: "length s < n \<Longrightarrow> copy_name n s = s"
  by (simp add: copy_name_def)

lemma copy_name_idem [simp]: "copy_name n (copy_name n s) = copy_name n s"
  by (simp add: copy_name_def)

text \<open>\<open>snprintf(buf, N, ...)\<close> keeps at most \<open>N - 1\<close> characters of what it formats.\<close>

definition snprintf_buf :: "nat \<Rightarrow> string \<Rightarrow> string" where
  "snprintf_buf n s = take (n - 1) s"

text \<open>An array element read through an index: undefined outside the array.\<close>

definition at :: "'a list \<Rightarrow> nat \<Rightarrow> 'a run" where
  "at xs i = (if i < length xs then Some (xs ! i) else None)"

lemma at_Some [simp]: "i < length xs \<Longrightarrow> at xs i = Some (xs ! i)"
  by (simp add: at_def)

lemma at_SomeD: "at xs i = Some x \<Longrightarrow> i < length xs \<and> x = xs ! i"
  by (simp add: at_def split: if_splits)

subsection \<open>Runs over lists\<close>

text \<open>A loop that applies a possibly undefined step to every element, left to right.\<close>

fun run_map :: "('a \<Rightarrow> 'b run) \<Rightarrow> 'a list \<Rightarrow> 'b list run" where
  "run_map f [] = Some []"
| "run_map f (x # xs) = do { y \<leftarrow> f x; ys \<leftarrow> run_map f xs; Some (y # ys) }"

fun run_fold :: "('a \<Rightarrow> 's \<Rightarrow> 's run) \<Rightarrow> 'a list \<Rightarrow> 's \<Rightarrow> 's run" where
  "run_fold f [] s = Some s"
| "run_fold f (x # xs) s = do { s' \<leftarrow> f x s; run_fold f xs s' }"

fun run_filter :: "('a \<Rightarrow> bool run) \<Rightarrow> 'a list \<Rightarrow> 'a list run" where
  "run_filter p [] = Some []"
| "run_filter p (x # xs) =
     do { b \<leftarrow> p x; ys \<leftarrow> run_filter p xs; Some (if b then x # ys else ys) }"

lemma run_map_cong [fundef_cong]:
  "xs = ys \<Longrightarrow> (\<And>x. x \<in> set ys \<Longrightarrow> f x = g x) \<Longrightarrow> run_map f xs = run_map g ys"
  by (induction xs arbitrary: ys) (auto cong: option.case_cong)

lemma run_map_Some: "(\<And>x. x \<in> set xs \<Longrightarrow> f x = Some (g x)) \<Longrightarrow> run_map f xs = Some (map g xs)"
  by (induction xs) auto

lemma run_fold_Some:
  "(\<And>x s. x \<in> set xs \<Longrightarrow> f x s = Some (g x s)) \<Longrightarrow> run_fold f xs s = Some (fold g xs s)"
  by (induction xs arbitrary: s) auto

lemma run_filter_Some:
  "(\<And>x. x \<in> set xs \<Longrightarrow> p x = Some (q x)) \<Longrightarrow> run_filter p xs = Some (filter q xs)"
  by (induction xs) auto

subsection \<open>Lists of buckets\<close>

lemma concat_split_nth:
  "i < length bs \<Longrightarrow> concat bs = concat (take i bs) @ bs ! i @ concat (drop (Suc i) bs)"
  by (metis concat.simps(2) concat_append id_take_nth_drop)

lemma concat_list_update:
  "i < length bs \<Longrightarrow> concat (bs[i := c]) = concat (take i bs) @ c @ concat (drop (Suc i) bs)"
  by (simp add: upd_conv_take_nth_drop)

lemma mset_concat_update:
  "i < length bs \<Longrightarrow> mset (concat (bs[i := x # bs ! i])) = add_mset x (mset (concat bs))"
  by (simp add: concat_list_update concat_split_nth [of i bs])

lemma distinct_fst_mset_cong: "mset xs = mset ys \<Longrightarrow> distinct (map fst xs) = distinct (map fst ys)"
  by (metis mset_eq_imp_distinct_iff mset_map)

lemma map_of_mset_cong:
  assumes "mset xs = mset ys" "distinct (map fst xs)"
  shows "map_of xs = map_of ys"
proof -
  have "distinct (map fst ys)" "set xs = set ys"
    using assms by (auto simp: distinct_fst_mset_cong [OF assms(1)] dest: mset_eq_setD)
  with assms(2) show ?thesis
    by (metis map_of_inject_set)
qed

end
