(* ===== verification/Hashmap.thy ===== *)
theory Hashmap
  imports C_Prelude
begin

text \<open>
  The row hash map of \<open>src/utils/hashmap.c\<close>: a separate-chaining table keyed by \<open>int\<close>, with the
  rehash on load factor 3/4 and the two-part iterator. A chain of \<open>RowNode\<close>s is the list of its
  nodes, head first; an iterator's \<open>node\<close> pointer is the part of the chain that starts at the node
  (\<open>[]\<close> for \<open>NULL\<close>). The map is polymorphic in the row type, which it only stores.

  The interface the storage engine uses is the locale \<open>row_store\<close>; the laws it promises are proved for
  the hash map at the end, as an interpretation.
\<close>

subsection \<open>The table\<close>

type_synonym 'r RowNode = "cint \<times> 'r"

record 'r RowHashMap =
  buckets :: "'r RowNode list list"
  bucketCount :: int

definition hash_key :: "cint \<Rightarrow> 32 word" where
  "hash_key key =
    (let x = key;
         x = x XOR drop_bit 16 x;
         x = x * 0x7feb352d;
         x = x XOR drop_bit 15 x;
         x = x * 0x846ca68b;
         x = x XOR drop_bit 16 x
     in x)"

definition bucket_of :: "int \<Rightarrow> cint \<Rightarrow> nat" where
  "bucket_of n key = unat (hash_key key mod word_of_int n)"

definition row_hashmap_create :: "int \<Rightarrow> 'r RowHashMap option" where
  "row_hashmap_create n =
    (if n \<le> 0 then None
     else Some \<lparr>buckets = replicate (nat n) [], bucketCount = n\<rparr>)"

fun find_node :: "'r RowNode list \<Rightarrow> cint \<Rightarrow> 'r option" where
  "find_node [] key = None"
| "find_node (node # rest) key = (if fst node = key then Some (snd node) else find_node rest key)"

definition row_hashmap_find :: "'r RowHashMap \<Rightarrow> cint \<Rightarrow> 'r option" where
  "row_hashmap_find m key =
    (if bucketCount m \<le> 0 then None
     else find_node (buckets m ! bucket_of (bucketCount m) key) key)"

text \<open>Releasing the map hands every row to the callback, chain by chain.\<close>

definition row_hashmap_destroy :: "('r \<Rightarrow> unit run) \<Rightarrow> 'r RowHashMap \<Rightarrow> unit run" where
  "row_hashmap_destroy free_row m =
    do { us \<leftarrow> run_map (\<lambda>node. free_row (snd node)) (concat (buckets m)); Some () }"

definition should_rehash :: "int \<Rightarrow> int \<Rightarrow> bool" where
  "should_rehash sz bc = (if bc \<le> 0 then False else wrap32 (sz * 4) \<ge> wrap32 (bc * 3))"

fun rehash_chain :: "int \<Rightarrow> 'r RowNode list \<Rightarrow> 'r RowNode list list \<Rightarrow> 'r RowNode list list" where
  "rehash_chain n [] nb = nb"
| "rehash_chain n (node # rest) nb =
     (let bi = bucket_of n (fst node) in rehash_chain n rest (nb[bi := node # nb ! bi]))"

fun rehash_buckets :: "int \<Rightarrow> 'r RowNode list list \<Rightarrow> 'r RowNode list list \<Rightarrow> 'r RowNode list list" where
  "rehash_buckets n [] nb = nb"
| "rehash_buckets n (chain # css) nb = rehash_buckets n css (rehash_chain n chain nb)"

definition rehash_rows :: "'r RowHashMap \<Rightarrow> int \<Rightarrow> int \<times> 'r RowHashMap" where
  "rehash_rows m n =
    (if n \<le> bucketCount m then (-1, m)
     else (0, \<lparr>buckets = rehash_buckets n (buckets m) (replicate (nat n) []), bucketCount = n\<rparr>))"

definition row_hashmap_insert :: "'r RowHashMap \<Rightarrow> cint \<Rightarrow> 'r \<Rightarrow> int \<Rightarrow> int \<times> 'r RowHashMap" where
  "row_hashmap_insert m key row sizeAfterInsert =
    (if bucketCount m \<le> 0 then (-1, m)
     else
       let b = bucket_of (bucketCount m) key;
           m1 = m\<lparr>buckets := (buckets m)[b := (key, row) # buckets m ! b]\<rparr>
       in (0, if should_rehash sizeAfterInsert (bucketCount m)
              then (let n = wrap32 (bucketCount m * 2)
                    in if n > bucketCount m then snd (rehash_rows m1 n) else m1)
              else m1))"

text \<open>Unlinking a node: the chain without its first node of that key, and the node's row.\<close>

fun unlink_node :: "'r RowNode list \<Rightarrow> cint \<Rightarrow> ('r \<times> 'r RowNode list) option" where
  "unlink_node [] key = None"
| "unlink_node (node # rest) key =
     (if fst node = key then Some (snd node, rest)
      else map_option (\<lambda>(r, c). (r, node # c)) (unlink_node rest key))"

definition row_hashmap_remove :: "'r RowHashMap \<Rightarrow> cint \<Rightarrow> ('r \<times> 'r RowHashMap) option" where
  "row_hashmap_remove m key =
    (if bucketCount m \<le> 0 then None
     else
       let b = bucket_of (bucketCount m) key
       in case unlink_node (buckets m ! b) key of
            None \<Rightarrow> None
          | Some (r, c) \<Rightarrow> Some (r, m\<lparr>buckets := (buckets m)[b := c]\<rparr>))"

text \<open>A store through the pointer \<open>row_hashmap_find\<close> returned: the row of that node is replaced.\<close>

fun write_node :: "'r RowNode list \<Rightarrow> cint \<Rightarrow> 'r \<Rightarrow> 'r RowNode list" where
  "write_node [] key row = []"
| "write_node (node # rest) key row =
     (if fst node = key then (fst node, row) # rest else node # write_node rest key row)"

definition row_hashmap_write :: "'r RowHashMap \<Rightarrow> cint \<Rightarrow> 'r \<Rightarrow> 'r RowHashMap" where
  "row_hashmap_write m key row =
    (if bucketCount m \<le> 0 then m
     else let b = bucket_of (bucketCount m) key
          in m\<lparr>buckets := (buckets m)[b := write_node (buckets m ! b) key row]\<rparr>)"

subsection \<open>The iterator\<close>

record 'r DBRowIterator =
  bucketIndex :: int
  node :: "'r RowNode list"

text \<open>The loop \<open>for(i = bucketIndex + 1; i < bucketCount; i++)\<close> over the remaining buckets.\<close>

fun next_bucket :: "int \<Rightarrow> 'r RowNode list list \<Rightarrow> (int \<times> 'r RowNode list) option" where
  "next_bucket i [] = None"
| "next_bucket i (c # cs) = (if c \<noteq> [] then Some (i, c) else next_bucket (i + 1) cs)"

definition row_hashmap_iter_next ::
  "'r RowHashMap \<Rightarrow> 'r DBRowIterator \<Rightarrow> 'r option \<times> 'r DBRowIterator" where
  "row_hashmap_iter_next m it =
    (if bucketCount m \<le> 0 then (None, it)
     else if node it \<noteq> [] \<and> tl (node it) \<noteq> []
     then (Some (snd (hd (tl (node it)))), it\<lparr>node := tl (node it)\<rparr>)
     else case next_bucket (bucketIndex it + 1) (drop (nat (bucketIndex it + 1)) (buckets m)) of
            Some (i, c) \<Rightarrow> (Some (snd (hd c)), \<lparr>bucketIndex = i, node = c\<rparr>)
          | None \<Rightarrow> (None, \<lparr>bucketIndex = bucketCount m, node = []\<rparr>))"

definition row_hashmap_iter_first :: "'r RowHashMap \<Rightarrow> 'r option \<times> 'r DBRowIterator" where
  "row_hashmap_iter_first m = row_hashmap_iter_next m \<lparr>bucketIndex = -1, node = []\<rparr>"

lemma next_bucket_Some:
  "next_bucket i cs = Some (j, c) \<Longrightarrow>
     i \<le> j \<and> c \<noteq> [] \<and> concat cs = c @ concat (drop (nat (j - i) + 1) cs)"
  by (induction i cs rule: next_bucket.induct) (auto split: if_splits simp: Suc_nat_eq_nat_zadd1)

lemma next_bucket_None: "next_bucket i cs = None \<longleftrightarrow> concat cs = []"
  by (induction i cs rule: next_bucket.induct) (auto split: if_splits)

text \<open>The rows an iterator has still to visit.\<close>

definition iter_rest :: "'r RowHashMap \<Rightarrow> 'r DBRowIterator \<Rightarrow> 'r RowNode list" where
  "iter_rest m it = tl (node it) @ concat (drop (nat (bucketIndex it + 1)) (buckets m))"

lemma iter_next_rest:
  assumes "-1 \<le> bucketIndex it" "row_hashmap_iter_next m it = (r, it')" "0 < bucketCount m"
  shows "(case r of None \<Rightarrow> iter_rest m it = []
          | Some x \<Rightarrow> \<exists>k. iter_rest m it = (k, x) # iter_rest m it' \<and> -1 \<le> bucketIndex it')"
proof (cases "node it \<noteq> [] \<and> tl (node it) \<noteq> []")
  case True
  then obtain p k x rest where "node it = p # (k, x) # rest"
    by (metis hd_Cons_tl surj_pair)
  with assms show ?thesis
    by (auto simp: row_hashmap_iter_next_def iter_rest_def)
next
  case False
  then have tl: "tl (node it) = []" by auto
  let ?cs = "drop (nat (bucketIndex it + 1)) (buckets m)"
  show ?thesis
  proof (cases "next_bucket (bucketIndex it + 1) ?cs")
    case None
    with assms False tl show ?thesis
      by (auto simp: row_hashmap_iter_next_def iter_rest_def next_bucket_None)
  next
    case (Some jc)
    then obtain j c where jc: "next_bucket (bucketIndex it + 1) ?cs = Some (j, c)" by (cases jc) auto
    note nb = next_bucket_Some [OF jc]
    then obtain k x cs where c: "c = (k, x) # cs" by (metis list.exhaust surj_pair)
    have "nat (j - (bucketIndex it + 1)) + 1 + nat (bucketIndex it + 1) = nat (j + 1)"
      using nb assms(1) by linarith
    then have "concat ?cs = c @ concat (drop (nat (j + 1)) (buckets m))"
      using nb by (simp add: add.commute)
    with assms False tl jc c nb show ?thesis
      by (auto simp: row_hashmap_iter_next_def iter_rest_def)
  qed
qed

text \<open>
  The loop \<open>row = iter_first(...); while(row != NULL) { ...; row = iter_next(...); }\<close>: the rows it
  visits, in order. Iterators start at bucket index -1 and never go below it.
\<close>

function iter_rows :: "'r RowHashMap \<Rightarrow> 'r DBRowIterator \<Rightarrow> 'r list" where
  "iter_rows m it =
    (if bucketIndex it < -1 then []
     else case row_hashmap_iter_next m it of
            (None, _) \<Rightarrow> []
          | (Some r, it') \<Rightarrow> r # iter_rows m it')"
  by pat_completeness auto
termination
proof (relation "measure (\<lambda>(m, it). length (iter_rest m it))")
  fix m :: "'r RowHashMap" and it a it' r
  assume a: "\<not> bucketIndex it < -1" "(a, it') = row_hashmap_iter_next m it" "a = Some r"
  then have "0 < bucketCount m"
    by (auto simp: row_hashmap_iter_next_def split: if_splits)
  with a iter_next_rest [of it m "Some r" it'] show "((m, it'), m, it) \<in> measure (\<lambda>(m, it). length (iter_rest m it))"
    by auto
qed simp

declare iter_rows.simps [simp del]

definition row_hashmap_rows :: "'r RowHashMap \<Rightarrow> 'r list" where
  "row_hashmap_rows m =
    (case row_hashmap_iter_first m of
       (None, _) \<Rightarrow> []
     | (Some r, it) \<Rightarrow> r # iter_rows m it)"

lemma iter_rows_rest:
  "-1 \<le> bucketIndex it \<Longrightarrow> 0 < bucketCount m \<Longrightarrow> iter_rows m it = map snd (iter_rest m it)"
proof (induction m it rule: iter_rows.induct)
  case (1 m it)
  obtain r it' where n: "row_hashmap_iter_next m it = (r, it')" by fastforce
  note rest = iter_next_rest [OF "1.prems"(1) n "1.prems"(2)]
  show ?case
  proof (cases r)
    case None
    with rest n "1.prems" show ?thesis by (simp add: iter_rows.simps [of m it])
  next
    case (Some x)
    with rest obtain k where k: "iter_rest m it = (k, x) # iter_rest m it'" "-1 \<le> bucketIndex it'"
      by auto
    have "iter_rows m it' = map snd (iter_rest m it')"
      using "1.IH" [OF _ n [symmetric] Some] "1.prems" k(2) by simp
    with k n Some "1.prems" show ?thesis by (simp add: iter_rows.simps [of m it])
  qed
qed

subsection \<open>Invariant and abstraction\<close>

text \<open>
  Every node hangs in the bucket of its key, no key occurs twice, and the bucket array has the
  recorded size. The nodes in bucket order are the abstraction: as a multiset they are the contents, as
  a list the order of iteration.
\<close>

definition placed :: "int \<Rightarrow> 'r RowNode list list \<Rightarrow> bool" where
  "placed n bs \<longleftrightarrow> (\<forall>i < length bs. \<forall>p \<in> set (bs ! i). bucket_of n (fst p) = i)"

definition hm_nodes :: "'r RowHashMap \<Rightarrow> 'r RowNode list" where
  "hm_nodes m = concat (buckets m)"

definition hm_wf :: "'r RowHashMap \<Rightarrow> bool" where
  "hm_wf m \<longleftrightarrow>
     0 < bucketCount m \<and> bucketCount m < 2 ^ 31 \<and> length (buckets m) = nat (bucketCount m) \<and>
     placed (bucketCount m) (buckets m) \<and> distinct (map fst (hm_nodes m))"

lemma bucket_of_less: "0 < n \<Longrightarrow> n < 2 ^ 31 \<Longrightarrow> bucket_of n k < nat n"
proof -
  assume n: "0 < n" "n < 2 ^ 31"
  then have "uint (word_of_int n :: 32 word) = n"
    by (simp add: uint_word_of_int)
  with n show ?thesis
    by (simp add: bucket_of_def unat_eq_nat_uint uint_mod_distrib nat_less_iff)
qed

lemma find_node_map_of: "find_node c k = map_of c k"
  by (induction c) auto

lemma placed_update: "placed n bs \<Longrightarrow> set c \<subseteq> set (bs ! i) \<Longrightarrow> placed n (bs[i := c])"
  by (cases "i < length bs") (auto simp: placed_def nth_list_update list_update_beyond split: if_splits)

lemma placed_push:
  "placed n bs \<Longrightarrow> bucket_of n (fst p) = i \<Longrightarrow> placed n (bs[i := p # bs ! i])"
  by (cases "i < length bs") (auto simp: placed_def nth_list_update list_update_beyond split: if_splits)

lemma hm_wfD:
  assumes "hm_wf m"
  shows "0 < bucketCount m" "placed (bucketCount m) (buckets m)" "distinct (map fst (hm_nodes m))"
  using assms by (simp_all add: hm_wf_def)

lemma hm_bucket:
  assumes "hm_wf m"
  shows "bucket_of (bucketCount m) k < length (buckets m)"
    and "distinct (map fst (buckets m ! bucket_of (bucketCount m) k))"
proof -
  show b: "bucket_of (bucketCount m) k < length (buckets m)"
    using assms bucket_of_less [of "bucketCount m" k] by (simp add: hm_wf_def)
  show "distinct (map fst (buckets m ! bucket_of (bucketCount m) k))"
    using assms by (simp add: hm_wf_def hm_nodes_def concat_split_nth [OF b])
qed

lemma placed_mem:
  assumes "hm_wf m"
  shows "(k, r) \<in> set (hm_nodes m) \<longleftrightarrow> (k, r) \<in> set (buckets m ! bucket_of (bucketCount m) k)"
proof -
  have "(k, r) \<in> set (hm_nodes m) \<longleftrightarrow> (\<exists>i < length (buckets m). (k, r) \<in> set (buckets m ! i))"
    by (force simp: hm_nodes_def in_set_conv_nth [of _ "buckets m"])
  also have "\<dots> \<longleftrightarrow> (k, r) \<in> set (buckets m ! bucket_of (bucketCount m) k)"
    using hm_wfD(2) [OF assms] hm_bucket(1) [OF assms, of k] by (fastforce simp: placed_def)
  finally show ?thesis .
qed

lemma row_hashmap_find_nodes: "hm_wf m \<Longrightarrow> row_hashmap_find m k = map_of (hm_nodes m) k"
proof -
  assume wf: "hm_wf m"
  have "map_of (buckets m ! bucket_of (bucketCount m) k) k = Some r \<longleftrightarrow> map_of (hm_nodes m) k = Some r" for r
    by (simp add: hm_wfD [OF wf] hm_bucket [OF wf] placed_mem [OF wf])
  then have "map_of (buckets m ! bucket_of (bucketCount m) k) k = map_of (hm_nodes m) k"
    by (metis option.exhaust)
  with wf show ?thesis
    by (simp add: row_hashmap_find_def find_node_map_of hm_wf_def)
qed

lemma row_hashmap_rows_nodes: "hm_wf m \<Longrightarrow> row_hashmap_rows m = map snd (hm_nodes m)"
proof -
  assume "hm_wf m"
  then have "iter_rows m \<lparr>bucketIndex = -1, node = []\<rparr> = map snd (hm_nodes m)"
    by (subst iter_rows_rest) (simp_all add: hm_wf_def iter_rest_def hm_nodes_def)
  then show ?thesis
    by (simp add: row_hashmap_rows_def row_hashmap_iter_first_def iter_rows.simps [of m "\<lparr>bucketIndex = -1, node = []\<rparr>"])
qed

subsection \<open>The operations keep the invariant\<close>

lemma rehash_chain_props:
  assumes "0 < n" "n < 2 ^ 31" "length nb = nat n" "placed n nb"
  shows "length (rehash_chain n c nb) = nat n \<and> placed n (rehash_chain n c nb) \<and>
         mset (concat (rehash_chain n c nb)) = mset c + mset (concat nb)"
  using assms(3,4)
proof (induction c arbitrary: nb)
  case (Cons p c)
  let ?i = "bucket_of n (fst p)"
  have "?i < length nb" using bucket_of_less [OF assms(1,2)] Cons.prems by simp
  moreover have "placed n (nb[?i := p # nb ! ?i])"
    using Cons.prems by (simp add: placed_push)
  ultimately show ?case
    using Cons.IH [of "nb[?i := p # nb ! ?i]"] Cons.prems
    by (simp add: Let_def mset_concat_update)
qed simp

lemma rehash_buckets_props:
  assumes "0 < n" "n < 2 ^ 31" "length nb = nat n" "placed n nb"
  shows "length (rehash_buckets n cs nb) = nat n \<and> placed n (rehash_buckets n cs nb) \<and>
         mset (concat (rehash_buckets n cs nb)) = mset (concat cs) + mset (concat nb)"
  using assms(3,4)
proof (induction cs arbitrary: nb)
  case (Cons c cs)
  note c = rehash_chain_props [OF assms(1,2) Cons.prems, of c]
  with Cons.IH [of "rehash_chain n c nb"] show ?case
    by (simp add: add_ac)
qed simp

lemma rehash_rows_props:
  assumes "0 < bucketCount m" "bucketCount m < n" "n < 2 ^ 31" "distinct (map fst (hm_nodes m))"
  shows "hm_wf (snd (rehash_rows m n)) \<and> mset (hm_nodes (snd (rehash_rows m n))) = mset (hm_nodes m)"
proof -
  let ?e = "replicate (nat n) [] :: 'a RowNode list list"
  have "placed n ?e" by (simp add: placed_def)
  from rehash_buckets_props [OF _ assms(3) _ this, of "buckets m"] assms
  have "length (rehash_buckets n (buckets m) ?e) = nat n \<and> placed n (rehash_buckets n (buckets m) ?e) \<and>
        mset (concat (rehash_buckets n (buckets m) ?e)) = mset (hm_nodes m)"
    by (simp add: hm_nodes_def)
  moreover from this assms(4) have "distinct (map fst (concat (rehash_buckets n (buckets m) ?e)))"
    by (metis distinct_fst_mset_cong)
  ultimately show ?thesis
    using assms by (simp add: rehash_rows_def hm_wf_def hm_nodes_def)
qed

lemma row_hashmap_insert_props:
  assumes wf: "hm_wf m" and new: "row_hashmap_find m k = None"
  shows "fst (row_hashmap_insert m k r sz) = 0 \<and> hm_wf (snd (row_hashmap_insert m k r sz)) \<and>
         mset (hm_nodes (snd (row_hashmap_insert m k r sz))) = add_mset (k, r) (mset (hm_nodes m))"
proof -
  note D = hm_wfD [OF wf] hm_bucket [OF wf, of k]
  let ?b = "bucket_of (bucketCount m) k"
  define m1 where "m1 = m\<lparr>buckets := (buckets m)[?b := (k, r) # buckets m ! ?b]\<rparr>"
  have ms: "mset (hm_nodes m1) = add_mset (k, r) (mset (hm_nodes m))"
    using D by (simp add: m1_def hm_nodes_def mset_concat_update)
  have "k \<notin> fst ` set (hm_nodes m)"
    using new wf by (simp add: row_hashmap_find_nodes map_of_eq_None_iff)
  with D have "distinct (map fst ((k, r) # hm_nodes m))" by simp
  then have d1: "distinct (map fst (hm_nodes m1))"
    by (subst distinct_fst_mset_cong [of _ "(k, r) # hm_nodes m"]) (simp_all add: ms)
  have wf1: "hm_wf m1"
    using wf d1 D by (simp add: hm_wf_def m1_def placed_push)
  let ?n = "wrap32 (bucketCount m * 2)"
  have "bucketCount m < ?n \<Longrightarrow> hm_wf (snd (rehash_rows m1 ?n)) \<and>
      mset (hm_nodes (snd (rehash_rows m1 ?n))) = mset (hm_nodes m1)"
    by (rule rehash_rows_props) (use D wrap32_range d1 in \<open>auto simp: m1_def\<close>)
  with wf1 ms D show ?thesis
    by (simp add: row_hashmap_insert_def m1_def [symmetric] Let_def)
qed

lemma unlink_node_None: "unlink_node c k = None \<longleftrightarrow> map_of c k = None"
  by (induction c) auto

lemma unlink_node_Some:
  "unlink_node c k = Some (r, c') \<Longrightarrow> mset c = add_mset (k, r) (mset c') \<and> map_of c k = Some r"
  by (induction c arbitrary: c') (auto split: if_splits)

lemma row_hashmap_remove_props:
  assumes wf: "hm_wf m"
  shows "case row_hashmap_remove m k of
           None \<Rightarrow> row_hashmap_find m k = None
         | Some (r, m') \<Rightarrow> row_hashmap_find m k = Some r \<and> hm_wf m' \<and>
             mset (hm_nodes m) = add_mset (k, r) (mset (hm_nodes m'))"
proof (cases "unlink_node (buckets m ! bucket_of (bucketCount m) k) k")
  case None
  then show ?thesis
    using hm_wfD [OF wf] unlink_node_None [of "buckets m ! bucket_of (bucketCount m) k" k]
    by (simp add: row_hashmap_remove_def row_hashmap_find_def find_node_map_of)
next
  case (Some rc)
  then obtain r c where rc: "unlink_node (buckets m ! bucket_of (bucketCount m) k) k = Some (r, c)"
    by (cases rc) auto
  note D = hm_wfD [OF wf] hm_bucket [OF wf, of k]
  let ?b = "bucket_of (bucketCount m) k"
  let ?m = "m\<lparr>buckets := (buckets m)[?b := c]\<rparr>"
  note u = unlink_node_Some [OF rc]
  then have ms: "mset (hm_nodes m) = add_mset (k, r) (mset (hm_nodes ?m))"
    using D by (simp add: hm_nodes_def concat_list_update concat_split_nth [of ?b "buckets m"])
  have "distinct (map fst ((k, r) # hm_nodes ?m))"
    using D by (subst distinct_fst_mset_cong [of _ "hm_nodes m"]) (simp_all add: ms)
  moreover have "set c \<subseteq> set (buckets m ! ?b)"
    using u by (metis set_mset_add_mset_insert set_mset_mset subset_insertI)
  ultimately have "hm_wf ?m"
    using wf D by (simp add: hm_wf_def placed_update)
  with rc u ms D show ?thesis
    by (simp add: row_hashmap_remove_def row_hashmap_find_def find_node_map_of)
qed

lemma write_node_map:
  "distinct (map fst c) \<Longrightarrow>
     write_node c k r = map (\<lambda>p. if fst p = k then (k, r) else p) c"
proof (induction c)
  case (Cons p c)
  have "fst p = k \<Longrightarrow> map (\<lambda>p. if fst p = k then (k, r) else p) c = c"
    using Cons.prems by (intro map_idI) (auto simp: image_iff)
  with Cons show ?case by auto
qed simp

lemma row_hashmap_write_props:
  assumes wf: "hm_wf m"
  shows "hm_wf (row_hashmap_write m k r) \<and>
         hm_nodes (row_hashmap_write m k r) = map (\<lambda>p. if fst p = k then (k, r) else p) (hm_nodes m)"
proof -
  note D = hm_wfD [OF wf] hm_bucket [OF wf, of k]
  let ?b = "bucket_of (bucketCount m) k"
  let ?w = "\<lambda>p. if fst p = k then (k, r) else p"
  have other: "map ?w (buckets m ! i) = buckets m ! i" if "i < length (buckets m)" "i \<noteq> ?b" for i
    using D(2) that by (intro map_idI) (auto simp: placed_def)
  have upd: "(buckets m)[?b := write_node (buckets m ! ?b) k r] = map (map ?w) (buckets m)"
    by (rule nth_equalityI) (use D other in \<open>auto simp: write_node_map nth_list_update\<close>)
  have nodes: "hm_nodes (row_hashmap_write m k r) = map ?w (hm_nodes m)"
    using D upd by (simp add: row_hashmap_write_def hm_nodes_def map_concat Let_def)
  have keys: "fst \<circ> ?w = fst" by auto
  have "placed (bucketCount m) (map (map ?w) (buckets m))"
    using D(2) by (fastforce simp: placed_def)
  with wf nodes keys upd D show ?thesis
    by (simp add: hm_wf_def row_hashmap_write_def Let_def)
qed

lemma row_hashmap_create_props:
  "0 < n \<Longrightarrow> n < 2 ^ 31 \<Longrightarrow> \<exists>m. row_hashmap_create n = Some m \<and> hm_wf m \<and> hm_nodes m = []"
  by (simp add: row_hashmap_create_def hm_wf_def hm_nodes_def placed_def)

subsection \<open>The interface of the row storage\<close>

text \<open>
  What \<open>data_model.c\<close> relies on: \<open>nodes\<close> is the table's contents in iteration order, looking a key up
  agrees with it, inserting an absent key adds one node, removing takes one away, storing through a
  found pointer replaces one row in place, and each keeps the invariant.
\<close>

locale row_store =
  fixes find :: "'m \<Rightarrow> 'k \<Rightarrow> 'r option"
    and ins :: "'m \<Rightarrow> 'k \<Rightarrow> 'r \<Rightarrow> int \<Rightarrow> 'm"
    and rem :: "'m \<Rightarrow> 'k \<Rightarrow> ('r \<times> 'm) option"
    and wr :: "'m \<Rightarrow> 'k \<Rightarrow> 'r \<Rightarrow> 'm"
    and rows :: "'m \<Rightarrow> 'r list"
    and nodes :: "'m \<Rightarrow> ('k \<times> 'r) list"
    and invar :: "'m \<Rightarrow> bool"
  assumes keys_distinct: "invar m \<Longrightarrow> distinct (map fst (nodes m))"
    and find_nodes: "invar m \<Longrightarrow> find m k = map_of (nodes m) k"
    and rows_nodes: "invar m \<Longrightarrow> rows m = map snd (nodes m)"
    and ins_invar: "invar m \<Longrightarrow> find m k = None \<Longrightarrow> invar (ins m k r n)"
    and ins_nodes: "invar m \<Longrightarrow> find m k = None \<Longrightarrow> mset (nodes (ins m k r n)) = add_mset (k, r) (mset (nodes m))"
    and rem_None: "invar m \<Longrightarrow> rem m k = None \<longleftrightarrow> find m k = None"
    and rem_Some: "invar m \<Longrightarrow> rem m k = Some (r, m') \<Longrightarrow>
        find m k = Some r \<and> invar m' \<and> mset (nodes m) = add_mset (k, r) (mset (nodes m'))"
    and wr_invar: "invar m \<Longrightarrow> invar (wr m k r)"
    and wr_nodes: "invar m \<Longrightarrow> nodes (wr m k r) = map (\<lambda>p. if fst p = k then (k, r) else p) (nodes m)"
begin

lemma find_in_nodes: "invar m \<Longrightarrow> find m k = Some r \<longleftrightarrow> (k, r) \<in> set (nodes m)"
  by (simp add: find_nodes keys_distinct)

lemma find_ins:
  assumes "invar m" "find m k = None"
  shows "find (ins m k r n) = (find m)(k \<mapsto> r)"
proof
  fix k'
  have "map_of (nodes (ins m k r n)) = map_of ((k, r) # nodes m)"
    by (rule map_of_mset_cong) (use assms ins_invar ins_nodes keys_distinct in auto)
  then show "find (ins m k r n) k' = ((find m)(k \<mapsto> r)) k'"
    using assms ins_invar by (simp add: find_nodes)
qed

lemma find_rem:
  assumes "invar m" "rem m k = Some (r, m')"
  shows "find m' = (find m)(k := None)"
proof
  fix k'
  note R = rem_Some [OF assms]
  have d: "distinct (map fst ((k, r) # nodes m'))"
    using R assms keys_distinct distinct_fst_mset_cong [of "nodes m" "(k, r) # nodes m'"] by simp
  have "map_of (nodes m) = map_of ((k, r) # nodes m')"
    by (rule map_of_mset_cong) (use assms R keys_distinct in auto)
  with R d show "find m' k' = ((find m)(k := None)) k'"
    by (auto simp: find_nodes assms(1) map_of_eq_None_iff)
qed

lemma find_wr:
  assumes "invar m" "find m k = Some r0"
  shows "find (wr m k r) = (find m)(k \<mapsto> r)"
proof
  fix k'
  have "map_of (map (\<lambda>p. if fst p = k then (k, r) else p) xs) k' =
        (if k' = k \<and> map_of xs k \<noteq> None then Some r else map_of xs k')" for xs
    by (induction xs) auto
  then show "find (wr m k r) k' = ((find m)(k \<mapsto> r)) k'"
    using assms by (simp add: find_nodes wr_invar wr_nodes)
qed

lemma nodes_ins_set: "invar m \<Longrightarrow> find m k = None \<Longrightarrow> set (nodes (ins m k r n)) = insert (k, r) (set (nodes m))"
  by (metis ins_nodes set_mset_add_mset_insert set_mset_mset)

lemma nodes_ins_length: "invar m \<Longrightarrow> find m k = None \<Longrightarrow> length (nodes (ins m k r n)) = Suc (length (nodes m))"
  by (metis ins_nodes size_add_mset size_mset)

lemma nodes_rem_set: "invar m \<Longrightarrow> rem m k = Some (r, m') \<Longrightarrow> set (nodes m') \<subseteq> set (nodes m)"
  by (metis rem_Some set_mset_add_mset_insert set_mset_mset subset_insertI)

lemma nodes_rem_length: "invar m \<Longrightarrow> rem m k = Some (r, m') \<Longrightarrow> length (nodes m) = Suc (length (nodes m'))"
  by (metis rem_Some size_add_mset size_mset)

lemma nodes_wr_set: "invar m \<Longrightarrow> set (nodes (wr m k r)) \<subseteq> insert (k, r) (set (nodes m))"
  by (auto simp: wr_nodes)

lemma nodes_wr_length: "invar m \<Longrightarrow> length (nodes (wr m k r)) = length (nodes m)"
  by (simp add: wr_nodes)

lemma rows_perm: "invar m \<Longrightarrow> mset (rows m) = image_mset snd (mset (nodes m))"
  by (simp add: rows_nodes)

end

interpretation hm: row_store row_hashmap_find "\<lambda>m k r n. snd (row_hashmap_insert m k r n)"
  row_hashmap_remove row_hashmap_write row_hashmap_rows hm_nodes hm_wf
proof unfold_locales
  fix m :: "'a RowHashMap" and k r m'
  assume wf: "hm_wf m"
  show "row_hashmap_remove m k = None \<longleftrightarrow> row_hashmap_find m k = None"
    using row_hashmap_remove_props [OF wf, of k] by (auto split: option.splits)
  show "row_hashmap_remove m k = Some (r, m') \<Longrightarrow> row_hashmap_find m k = Some r \<and> hm_wf m' \<and>
      mset (hm_nodes m) = add_mset (k, r) (mset (hm_nodes m'))"
    using row_hashmap_remove_props [OF wf, of k] by simp
qed (simp_all add: hm_wfD row_hashmap_find_nodes row_hashmap_rows_nodes row_hashmap_insert_props
    row_hashmap_write_props)

subsection \<open>Properties\<close>

text \<open>
  C21. Inserting a row under a key that is not in use, with or without the rehash that the insertion
  triggers, adds exactly that row: afterwards every lookup gives what it gave before, except that the
  new key gives the new row.
\<close>

theorem row_hashmap_insert_map:
  assumes "hm_wf m" "row_hashmap_find m k = None"
  shows "fst (row_hashmap_insert m k r n) = 0 \<and> hm_wf (snd (row_hashmap_insert m k r n)) \<and>
    row_hashmap_find (snd (row_hashmap_insert m k r n)) = (row_hashmap_find m)(k \<mapsto> r)"
  using assms row_hashmap_insert_props [OF assms] hm.find_ins [OF assms] by simp

definition demo_map :: "string RowHashMap" where
  "demo_map = the (row_hashmap_create 2)"

lemma demo_map_ok: "hm_wf demo_map" "row_hashmap_find demo_map k = None"
proof -
  obtain m :: "string RowHashMap" where "row_hashmap_create 2 = Some m" "hm_wf m" "hm_nodes m = []"
    using row_hashmap_create_props [of 2] by auto
  then show "hm_wf demo_map" "row_hashmap_find demo_map k = None"
    by (simp_all add: demo_map_def row_hashmap_find_nodes)
qed

theorem row_hashmap_insert_map_witness:
  "hm_wf demo_map \<and> row_hashmap_find demo_map 7 = None \<and>
   row_hashmap_find (snd (row_hashmap_insert demo_map 7 ''seven'' 2)) 7 = Some ''seven'' \<and>
   bucketCount (snd (row_hashmap_insert demo_map 7 ''seven'' 2)) = 4"
  using row_hashmap_insert_map [OF demo_map_ok, of 7 "''seven''" 2] demo_map_ok
  by (simp add: row_hashmap_insert_def demo_map_def row_hashmap_create_def should_rehash_def rehash_rows_def Let_def)

text \<open>
  C22. Removing a key that is present hands out its row and makes the key absent; all other lookups
  are unchanged. Removing an absent key fails.
\<close>

theorem row_hashmap_remove_map:
  assumes "hm_wf m"
  shows "case row_hashmap_remove m k of
      None \<Rightarrow> row_hashmap_find m k = None
    | Some (r, m') \<Rightarrow> row_hashmap_find m k = Some r \<and> hm_wf m' \<and> row_hashmap_find m' = (row_hashmap_find m)(k := None)"
  using row_hashmap_remove_props [OF assms, of k] hm.find_rem [OF assms, of k]
  by (auto split: option.splits)

definition demo_map1 :: "string RowHashMap" where
  "demo_map1 = snd (row_hashmap_insert demo_map 7 ''seven'' 1)"

lemma demo_map1_ok: "hm_wf demo_map1" "row_hashmap_find demo_map1 7 = Some ''seven''"
  using row_hashmap_insert_props [OF demo_map_ok] hm.find_ins [OF demo_map_ok] by (simp_all add: demo_map1_def)

theorem row_hashmap_remove_map_witness:
  "hm_wf demo_map1 \<and> (\<exists>m'. row_hashmap_remove demo_map1 7 = Some (''seven'', m') \<and> row_hashmap_find m' 7 = None)"
  using row_hashmap_remove_map [OF demo_map1_ok(1), of 7] demo_map1_ok
  by (auto split: option.splits)

text \<open>
  Stepping the iterator from the first row until it returns \<open>NULL\<close> visits every row of the map
  exactly once and nothing else: the rows visited are those of a list of distinct keys that agrees
  with the lookups.
\<close>

theorem row_hashmap_iteration:
  assumes "hm_wf m"
  shows "\<exists>kvs. row_hashmap_rows m = map snd kvs \<and> distinct (map fst kvs) \<and> map_of kvs = row_hashmap_find m"
  using assms row_hashmap_find_nodes [OF assms]
  by (intro exI [of _ "hm_nodes m"]) (auto simp: hm.rows_nodes hm.keys_distinct)

theorem row_hashmap_iteration_witness:
  "hm_wf demo_map1 \<and> (\<exists>kvs. row_hashmap_rows demo_map1 = map snd kvs \<and> distinct (map fst kvs) \<and>
     map_of kvs = row_hashmap_find demo_map1)"
  using row_hashmap_iteration [OF demo_map1_ok(1)] demo_map1_ok(1) by blast

end
