(* ===== verification/Float64.thy ===== *)
theory Float64
  imports C_Prelude
begin

text \<open>
  The C \<open>double\<close> of the target, as its IEEE 754 binary64 bit pattern, with the operations the server
  uses: \<open>==\<close>, and the \<open>printf\<close> conversions \<open>%d\<close>/\<open>%ld\<close> (decimal integers) and \<open>%.6g\<close>. The
  conversions are exact: the binary value is an integer quotient, rounded to nearest with ties to
  even.
\<close>

subsection \<open>Bit patterns\<close>

type_synonym cdouble = "64 word"

definition dbl_neg :: "cdouble \<Rightarrow> bool" where
  "dbl_neg w = bit w 63"

definition dbl_exp :: "cdouble \<Rightarrow> nat" where
  "dbl_exp w = unat (drop_bit 52 w) mod 2048"

definition dbl_frac :: "cdouble \<Rightarrow> nat" where
  "dbl_frac w = unat w mod 2 ^ 52"

definition dbl_nan :: "cdouble \<Rightarrow> bool" where
  "dbl_nan w \<longleftrightarrow> dbl_exp w = 2047 \<and> dbl_frac w \<noteq> 0"

definition dbl_zero :: "cdouble \<Rightarrow> bool" where
  "dbl_zero w \<longleftrightarrow> dbl_exp w = 0 \<and> dbl_frac w = 0"

definition pos_zero :: cdouble where "pos_zero = 0"
definition neg_zero :: cdouble where "neg_zero = 0x8000000000000000"

text \<open>The operator \<open>==\<close> on doubles: a NaN equals nothing, the two zeros are equal.\<close>

definition double_eq :: "cdouble \<Rightarrow> cdouble \<Rightarrow> bool" where
  "double_eq a b \<longleftrightarrow> \<not> dbl_nan a \<and> \<not> dbl_nan b \<and> (a = b \<or> dbl_zero a \<and> dbl_zero b)"

lemma double_eq_sym: "double_eq a b \<longleftrightarrow> double_eq b a"
  by (auto simp: double_eq_def)

lemma double_eq_trans: "double_eq a b \<Longrightarrow> double_eq b c \<Longrightarrow> double_eq a c"
  by (auto simp: double_eq_def)

subsection \<open>Decimal integers\<close>

definition digit_char :: "nat \<Rightarrow> char" where
  "digit_char d = char_of (48 + d)"

fun nat_str :: "nat \<Rightarrow> string" where
  "nat_str n = (if n < 10 then [digit_char n] else nat_str (n div 10) @ [digit_char (n mod 10)])"

declare nat_str.simps [simp del]

definition int_str :: "int \<Rightarrow> string" where
  "int_str i = (if i < 0 then CHR ''-'' # nat_str (nat (- i)) else nat_str (nat i))"

lemma nat_str_nonempty: "nat_str n \<noteq> []"
  by (subst nat_str.simps) simp

lemma nat_str_length: "n < 10 ^ k \<Longrightarrow> 0 < k \<Longrightarrow> length (nat_str n) \<le> k"
proof (induction n arbitrary: k rule: nat_str.induct)
  case (1 n)
  show ?case
  proof (cases "n < 10")
    case True
    with "1.prems" show ?thesis by (subst nat_str.simps) simp
  next
    case False
    with "1.prems" obtain j where k: "k = Suc j" "0 < j" by (cases k; cases "k - 1") auto
    with "1.prems" have "n div 10 < 10 ^ j" by (simp add: less_mult_imp_div_less mult.commute)
    with "1.IH" False k have "length (nat_str (n div 10)) \<le> j" by blast
    with False k show ?thesis by (subst nat_str.simps) simp
  qed
qed

subsection \<open>The conversion \<open>%.6g\<close>\<close>

text \<open>Rounding a quotient to the nearest integer, ties to even.\<close>

definition round_half_even :: "nat \<Rightarrow> nat \<Rightarrow> nat" where
  "round_half_even a b =
    (let q = a div b; r = a mod b
     in if 2 * r > b \<or> (2 * r = b \<and> odd q) then q + 1 else q)"

text \<open>A finite non-zero double is \<open>m * 2 ^ x\<close>, here as a quotient of naturals.\<close>

definition dbl_quotient :: "cdouble \<Rightarrow> nat \<times> nat" where
  "dbl_quotient w =
    (let e = dbl_exp w; f = dbl_frac w;
         m = (if e = 0 then f else f + 2 ^ 52);
         x = (if e = 0 then -1074 else int e - 1075)
     in if 0 \<le> x then (m * 2 ^ nat x, 1) else (m, 2 ^ nat (- x)))"

function frac_exp :: "nat \<Rightarrow> nat \<Rightarrow> nat" where
  "frac_exp a b = (if a = 0 \<or> b \<le> a then 0 else Suc (frac_exp (a * 10) b))"
  by pat_completeness auto
termination
  by (relation "measure (\<lambda>(a, b). b - a)") auto

declare frac_exp.simps [simp del]

text \<open>The exponent of the leading decimal digit of \<open>a / b\<close>.\<close>

definition dec_exp :: "nat \<Rightarrow> nat \<Rightarrow> int" where
  "dec_exp a b = (if b \<le> a then int (length (nat_str (a div b))) - 1 else - int (frac_exp a b))"

definition strip_zeros :: "string \<Rightarrow> string" where
  "strip_zeros s = rev (dropWhile (\<lambda>c. c = CHR ''0'') (rev s))"

definition with_point :: "string \<Rightarrow> string \<Rightarrow> string" where
  "with_point i f = (let f = strip_zeros f in if f = [] then i else i @ [CHR ''.''] @ f)"

definition exp_str :: "int \<Rightarrow> string" where
  "exp_str x =
    CHR ''e'' # (if x < 0 then CHR ''-'' else CHR ''+'') #
    (let s = nat_str (nat \<bar>x\<bar>) in if length s < 2 then CHR ''0'' # s else s)"

definition g6_digits :: "nat \<Rightarrow> nat \<Rightarrow> string \<times> int" where
  "g6_digits a b =
    (let x = dec_exp a b;
         d = (if x \<le> 5 then round_half_even (a * 10 ^ nat (5 - x)) b
              else round_half_even a (b * 10 ^ nat (x - 5)))
     in if d = 1000000 then (''100000'', x + 1) else (nat_str d, x))"

definition fmt_g6 :: "cdouble \<Rightarrow> string" where
  "fmt_g6 w =
    (if dbl_neg w then [CHR ''-''] else []) @
    (if dbl_exp w = 2047 then (if dbl_frac w = 0 then ''inf'' else ''nan'')
     else if dbl_zero w then ''0''
     else case g6_digits (fst (dbl_quotient w)) (snd (dbl_quotient w)) of
       (s, x) \<Rightarrow>
         if x < -4 \<or> 6 \<le> x then with_point (take 1 s) (drop 1 s) @ exp_str x
         else if 0 \<le> x then with_point (take (nat (x + 1)) s) (drop (nat (x + 1)) s)
         else with_point ''0'' (replicate (nat (- x - 1)) (CHR ''0'') @ s))"

subsection \<open>From decimal to double\<close>

text \<open>
  The double nearest to \<open>a / b\<close>, ties to even: \<open>k\<close> is the exponent of the leading bit, \<open>x\<close> the exponent
  of the last bit of the significand (never below that of the denormals), and the bit pattern is
  \<open>(x + 1074) * 2 ^ 52\<close> plus the rounded significand, which also carries into the exponent; what
  reaches the pattern of infinity is infinity.
\<close>

fun bit_length :: "nat \<Rightarrow> nat" where
  "bit_length n = (if n < 2 then 0 else Suc (bit_length (n div 2)))"

declare bit_length.simps [simp del]

function bin_frac_exp :: "nat \<Rightarrow> nat \<Rightarrow> nat" where
  "bin_frac_exp a b = (if a = 0 \<or> b \<le> a then 0 else Suc (bin_frac_exp (a * 2) b))"
  by pat_completeness auto
termination
  by (relation "measure (\<lambda>(a, b). b - a)") auto

declare bin_frac_exp.simps [simp del]

definition dbl_of_ratio :: "nat \<Rightarrow> nat \<Rightarrow> cdouble" where
  "dbl_of_ratio a b =
    (if a = 0 then 0
     else let k = (if b \<le> a then int (bit_length (a div b)) else - int (bin_frac_exp a b));
              x = max (k - 52) (-1074);
              m = (if 0 \<le> x then round_half_even a (b * 2 ^ nat x) else round_half_even (a * 2 ^ nat (- x)) b);
              pattern = nat (x + 1074) * 2 ^ 52 + m
          in of_nat (min pattern (2047 * 2 ^ 52)))"

definition dbl_of_decimal :: "nat \<Rightarrow> int \<Rightarrow> cdouble" where
  "dbl_of_decimal d x = (if 0 \<le> x then dbl_of_ratio (d * 10 ^ nat x) 1 else dbl_of_ratio d (10 ^ nat (- x)))"

definition dbl_signed :: "bool \<Rightarrow> cdouble \<Rightarrow> cdouble" where
  "dbl_signed neg w = (if neg then w OR push_bit 63 1 else w)"

end
