(* ===== verification/Values.thy ===== *)
theory Values
  imports Float64
begin

text \<open>
  The values of \<open>src/db/data_model.c\<close> and \<open>include/db/data_model.h\<close>: field types, tagged unions
  (\<open>Data\<close>), homogeneous arrays, rows, and the value operations hash, equality, copy and release, each
  undefined where it would read a union member that is not stored. A value that \<^emph>\<open>fits\<close> a field
  type (\<open>data_ok\<close>) can always be hashed, compared, copied and released; \<open>abs_val\<close> is the abstract
  value it stands for.
\<close>

subsection \<open>Constants and types\<close>

definition MAX_DB_NAME_LENGTH :: nat where "MAX_DB_NAME_LENGTH = 64"
definition MAX_FIELD_NAME_LENGTH :: nat where "MAX_FIELD_NAME_LENGTH = 64"
definition INITIAL_ROW_CAPACITY :: int where "INITIAL_ROW_CAPACITY = 16"
definition MAX_ROW_CAPACITY :: int where "MAX_ROW_CAPACITY = 1048576"
definition MAX_FIELDS_PER_DB :: nat where "MAX_FIELDS_PER_DB = 64"
definition MAX_DB_COUNT :: nat where "MAX_DB_COUNT = 64"
definition MAX_STRING_VALUE_LENGTH :: int where "MAX_STRING_VALUE_LENGTH = 4096"
definition MAX_ARRAY_LENGTH :: nat where "MAX_ARRAY_LENGTH = 1024"

lemmas limits = MAX_DB_NAME_LENGTH_def MAX_FIELD_NAME_LENGTH_def INITIAL_ROW_CAPACITY_def
  MAX_ROW_CAPACITY_def MAX_FIELDS_PER_DB_def MAX_DB_COUNT_def MAX_STRING_VALUE_LENGTH_def
  MAX_ARRAY_LENGTH_def

datatype FieldType =
    TYPE_INT | TYPE_DOUBLE | TYPE_BOOL | TYPE_STRING
  | TYPE_INT_ARRAY | TYPE_DOUBLE_ARRAY | TYPE_BOOL_ARRAY | TYPE_STRING_ARRAY

record Field =
  fieldName :: string
  fieldType :: FieldType

text \<open>
  The union inside \<open>Data\<close>, by the member last written; \<open>U_zero\<close> is a union all of whose bytes were
  set to zero. A pointer member is \<open>None\<close> for \<open>NULL\<close>. An \<open>ArrayData\<close> is either a sequence of
  elements (\<open>is_append = 0\<close>, \<open>count\<close> the length) or one element to append (\<open>is_append = 1\<close>,
  \<open>count = 0\<close>, no elements).
\<close>

datatype UnionVal =
    U_i cint
  | U_d cdouble
  | U_b bool
  | U_s "string option"
  | U_a "ArrayData option"
  | U_zero
and ArrayData = Elements "Data list" | AppendValue Data
and Data = Data (dsize: int) (dvalue: UnionVal)

record Row =
  rvalues :: "Data list"
  created_at :: ctime
  updated_at :: ctime

text \<open>Reading a member of the union: defined for the member stored and for an all-zero union.\<close>

fun read_i :: "UnionVal \<Rightarrow> cint run" where
  "read_i (U_i i) = Some i" | "read_i U_zero = Some 0" | "read_i _ = None"

fun read_d :: "UnionVal \<Rightarrow> cdouble run" where
  "read_d (U_d d) = Some d" | "read_d U_zero = Some 0" | "read_d _ = None"

fun read_b :: "UnionVal \<Rightarrow> bool run" where
  "read_b (U_b b) = Some b" | "read_b U_zero = Some False" | "read_b _ = None"

fun read_s :: "UnionVal \<Rightarrow> string option run" where
  "read_s (U_s s) = Some s" | "read_s U_zero = Some None" | "read_s _ = None"

fun read_a :: "UnionVal \<Rightarrow> ArrayData option run" where
  "read_a (U_a a) = Some a" | "read_a U_zero = Some None" | "read_a _ = None"

fun arr_count :: "ArrayData \<Rightarrow> nat" where
  "arr_count (Elements es) = length es" | "arr_count (AppendValue v) = 0"

fun arr_elements :: "ArrayData \<Rightarrow> Data list" where
  "arr_elements (Elements es) = es" | "arr_elements (AppendValue v) = []"

definition is_array_type :: "FieldType \<Rightarrow> bool" where
  "is_array_type t \<longleftrightarrow>
     t = TYPE_INT_ARRAY \<or> t = TYPE_DOUBLE_ARRAY \<or> t = TYPE_BOOL_ARRAY \<or> t = TYPE_STRING_ARRAY"

fun array_elem_type :: "FieldType \<Rightarrow> FieldType" where
  "array_elem_type TYPE_INT_ARRAY = TYPE_INT"
| "array_elem_type TYPE_DOUBLE_ARRAY = TYPE_DOUBLE"
| "array_elem_type TYPE_BOOL_ARRAY = TYPE_BOOL"
| "array_elem_type TYPE_STRING_ARRAY = TYPE_STRING"
| "array_elem_type _ = TYPE_INT"

subsection \<open>Values: hash, equality, copy, release\<close>

fun hash_string :: "32 word \<Rightarrow> string \<Rightarrow> 32 word" where
  "hash_string h [] = h"
| "hash_string h (c # s) = hash_string (push_bit 5 h + h + of_char c) s"

fun hash_data_value :: "Data \<Rightarrow> FieldType \<Rightarrow> (32 word) run" where
  "hash_data_value (Data _ u) TYPE_INT = do { i \<leftarrow> read_i u; Some (i * 2654435761) }"
| "hash_data_value (Data _ u) TYPE_DOUBLE =
     do { d \<leftarrow> read_d u; Some (ucast (d XOR drop_bit 32 d)) }"
| "hash_data_value (Data _ u) TYPE_BOOL = do { b \<leftarrow> read_b u; Some (if b then 1 else 0) }"
| "hash_data_value (Data _ u) TYPE_STRING =
     do { s \<leftarrow> read_s u; Some (case s of None \<Rightarrow> 0 | Some s \<Rightarrow> hash_string 5381 s) }"
| "hash_data_value (Data _ u) _ = Some 0"

fun data_value_equals :: "Data \<Rightarrow> Data \<Rightarrow> FieldType \<Rightarrow> bool run" where
  "data_value_equals (Data _ a) (Data _ b) TYPE_INT =
     do { x \<leftarrow> read_i a; y \<leftarrow> read_i b; Some (x = y) }"
| "data_value_equals (Data _ a) (Data _ b) TYPE_DOUBLE =
     do { x \<leftarrow> read_d a; y \<leftarrow> read_d b; Some (double_eq x y) }"
| "data_value_equals (Data _ a) (Data _ b) TYPE_BOOL =
     do { x \<leftarrow> read_b a; y \<leftarrow> read_b b; Some (x = y) }"
| "data_value_equals (Data _ a) (Data _ b) TYPE_STRING =
     do { x \<leftarrow> read_s a; y \<leftarrow> read_s b;
          Some (case (x, y) of
                  (None, None) \<Rightarrow> True
                | (Some s, Some t) \<Rightarrow> s = t
                | _ \<Rightarrow> False) }"
| "data_value_equals _ _ _ = Some False"

definition copy_array :: "(Data \<Rightarrow> Data run) \<Rightarrow> ArrayData option \<Rightarrow> ArrayData option run" where
  "copy_array cp a =
    (case a of
       None \<Rightarrow> Some None
     | Some (AppendValue v) \<Rightarrow> do { v' \<leftarrow> cp v; Some (Some (AppendValue v')) }
     | Some (Elements es) \<Rightarrow> do { es' \<leftarrow> run_map cp es; Some (Some (Elements es')) })"

text \<open>A scalar of a numeric type is copied by assigning the whole union, whatever it holds.\<close>

fun clone_scalar :: "FieldType \<Rightarrow> Data \<Rightarrow> Data run" where
  "clone_scalar TYPE_STRING (Data n u) = do { s \<leftarrow> read_s u; Some (Data n (U_s s)) }"
| "clone_scalar _ src = Some src"

definition clone_data_value :: "Data \<Rightarrow> FieldType \<Rightarrow> Data run" where
  "clone_data_value src type =
    (if is_array_type type
     then do { a \<leftarrow> read_a (dvalue src);
               a' \<leftarrow> copy_array (clone_scalar (array_elem_type type)) a;
               Some (Data (dsize src) (U_a a')) }
     else clone_scalar type src)"

text \<open>
  Releasing a value follows the pointers its declared type says it holds; it is undefined when there
  is no such pointer.
\<close>

fun free_scalar :: "FieldType \<Rightarrow> Data \<Rightarrow> unit run" where
  "free_scalar TYPE_STRING (Data _ u) = do { s \<leftarrow> read_s u; Some () }"
| "free_scalar _ v = Some ()"

definition free_data_value :: "Data \<Rightarrow> FieldType \<Rightarrow> unit run" where
  "free_data_value v type =
    (if is_array_type type
     then do { a \<leftarrow> read_a (dvalue v);
               case a of
                 None \<Rightarrow> Some ()
               | Some (AppendValue e) \<Rightarrow> free_scalar (array_elem_type type) e
               | Some (Elements es) \<Rightarrow>
                   do { us \<leftarrow> run_map (free_scalar (array_elem_type type)) es; Some () } }
     else free_scalar type v)"

definition free_values :: "Field list \<Rightarrow> Data list \<Rightarrow> unit run" where
  "free_values fs vs =
    (if length vs \<le> length fs
     then do { us \<leftarrow> run_map (\<lambda>(f, v). free_data_value v (fieldType f)) (zip fs vs); Some () }
     else None)"

subsection \<open>Values that fit a field type\<close>

definition scalar_ok :: "FieldType \<Rightarrow> Data \<Rightarrow> bool" where
  "scalar_ok t v =
    (case t of
       TYPE_INT \<Rightarrow> read_i (dvalue v) \<noteq> None
     | TYPE_DOUBLE \<Rightarrow> read_d (dvalue v) \<noteq> None
     | TYPE_BOOL \<Rightarrow> read_b (dvalue v) \<noteq> None
     | TYPE_STRING \<Rightarrow> read_s (dvalue v) \<noteq> None
     | _ \<Rightarrow> False)"

definition array_ok :: "FieldType \<Rightarrow> Data \<Rightarrow> bool" where
  "array_ok et v =
    (case read_a (dvalue v) of
       None \<Rightarrow> False
     | Some None \<Rightarrow> True
     | Some (Some (Elements es)) \<Rightarrow> length es \<le> MAX_ARRAY_LENGTH \<and> list_all (scalar_ok et) es
     | Some (Some (AppendValue e)) \<Rightarrow> scalar_ok et e)"

definition data_ok :: "FieldType \<Rightarrow> Data \<Rightarrow> bool" where
  "data_ok t v = (if is_array_type t then array_ok (array_elem_type t) v else scalar_ok t v)"

definition row_ok :: "Field list \<Rightarrow> Data list \<Rightarrow> bool" where
  "row_ok fs vs \<longleftrightarrow> list_all2 (\<lambda>f v. data_ok (fieldType f) v) fs vs"

text \<open>What a value stands for; an array with no elements block or with a pending append is empty.\<close>

datatype AbsVal = A_int cint | A_double cdouble | A_bool bool | A_string "string option" | A_array "AbsVal list"

definition abs_scalar :: "FieldType \<Rightarrow> Data \<Rightarrow> AbsVal" where
  "abs_scalar t v =
    (case t of
       TYPE_DOUBLE \<Rightarrow> A_double (the (read_d (dvalue v)))
     | TYPE_BOOL \<Rightarrow> A_bool (the (read_b (dvalue v)))
     | TYPE_STRING \<Rightarrow> A_string (the (read_s (dvalue v)))
     | _ \<Rightarrow> A_int (the (read_i (dvalue v))))"

definition arr_list :: "ArrayData option \<Rightarrow> Data list" where
  "arr_list a = (case a of None \<Rightarrow> [] | Some a \<Rightarrow> arr_elements a)"

definition abs_val :: "FieldType \<Rightarrow> Data \<Rightarrow> AbsVal" where
  "abs_val t v =
    (if is_array_type t
     then A_array (map (abs_scalar (array_elem_type t)) (arr_list (the (read_a (dvalue v)))))
     else abs_scalar t v)"

definition abs_vals :: "Field list \<Rightarrow> Data list \<Rightarrow> AbsVal list" where
  "abs_vals fs vs = map2 (\<lambda>f v. abs_val (fieldType f) v) fs vs"

fun val_eq :: "AbsVal \<Rightarrow> AbsVal \<Rightarrow> bool" where
  "val_eq (A_double a) (A_double b) = double_eq a b"
| "val_eq (A_array as) b = False"
| "val_eq a (A_array bs) = False"
| "val_eq a b = (a = b)"

fun val_hash :: "AbsVal \<Rightarrow> 32 word" where
  "val_hash (A_int i) = i * 2654435761"
| "val_hash (A_double d) = ucast (d XOR drop_bit 32 d)"
| "val_hash (A_bool b) = (if b then 1 else 0)"
| "val_hash (A_string s) = (case s of None \<Rightarrow> 0 | Some s \<Rightarrow> hash_string 5381 s)"
| "val_hash (A_array as) = 0"

lemma val_eq_sym: "val_eq a b = val_eq b a"
  by (cases a; cases b) (auto simp: double_eq_sym)

lemma val_eq_trans: "val_eq a b \<Longrightarrow> val_eq b c \<Longrightarrow> val_eq a c"
  by (cases a; cases b; cases c) (auto dest: double_eq_trans)

text \<open>
  Equal values hash alike, except that the two double zeros are equal and have different bit
  patterns; their hashes differ in the top bit only, so that the buckets still agree.
\<close>

lemma dbl_zero_bit: "dbl_zero d \<Longrightarrow> n < 63 \<Longrightarrow> \<not> bit d n"
proof -
  assume "dbl_zero d"
  then have "take_bit 52 (unat d) = 0" "take_bit 11 (unat (drop_bit 52 d)) = 0"
    by (simp_all add: dbl_zero_def dbl_exp_def dbl_frac_def take_bit_eq_mod)
  then have "\<not> bit (take_bit 52 (unat d)) n" "\<not> bit (take_bit 11 (unat (drop_bit 52 d))) (n - 52)" by simp_all
  moreover assume "n < 63"
  ultimately show ?thesis by (auto simp: bit_take_bit_iff bit_drop_bit_eq bit_unsigned_iff)
qed

lemma dbl_zero_hash: "dbl_zero d \<Longrightarrow> take_bit 5 (val_hash (A_double d)) = 0"
  by (rule bit_eqI) (simp add: bit_simps dbl_zero_bit)

lemma val_eq_hash: "val_eq a b \<Longrightarrow> take_bit 5 (val_hash a) = take_bit 5 (val_hash b)"
proof (cases "\<exists>d e. a = A_double d \<and> b = A_double e \<and> dbl_zero d \<and> dbl_zero e")
  case True
  then show ?thesis using dbl_zero_hash by metis
next
  case False
  assume "val_eq a b"
  with False show ?thesis by (cases a; cases b) (auto simp: double_eq_def)
qed

lemma val_eq_bucket: "val_eq a b \<Longrightarrow> unat (val_hash a) mod 32 = unat (val_hash b) mod 32"
proof -
  assume "val_eq a b"
  then have "unat (take_bit 5 (val_hash a)) = unat (take_bit 5 (val_hash b))" by (simp only: val_eq_hash)
  then have "take_bit 5 (unat (val_hash a)) = take_bit 5 (unat (val_hash b))" by (simp only: unsigned_take_bit_eq)
  then show ?thesis by (simp add: take_bit_eq_mod)
qed

lemma is_array_type_simps [simp]:
  "is_array_type TYPE_INT_ARRAY" "is_array_type TYPE_DOUBLE_ARRAY" "is_array_type TYPE_BOOL_ARRAY"
  "is_array_type TYPE_STRING_ARRAY" "\<not> is_array_type TYPE_INT" "\<not> is_array_type TYPE_DOUBLE"
  "\<not> is_array_type TYPE_BOOL" "\<not> is_array_type TYPE_STRING"
  by (simp_all add: is_array_type_def)

lemma array_elem_type_scalar [simp]: "\<not> is_array_type (array_elem_type t)"
  by (cases t) simp_all

lemma scalar_ok_not_array: "scalar_ok t v \<Longrightarrow> \<not> is_array_type t"
  by (cases t) (simp_all add: scalar_ok_def)

lemma clone_scalar_ok [typed]:
  assumes "scalar_ok t v"
  shows "\<exists>v'. clone_scalar t v = Some v' \<and> scalar_ok t v' \<and> abs_scalar t v' = abs_scalar t v \<and> dsize v' = dsize v"
  using assms by (cases v; cases t) (auto simp: scalar_ok_def abs_scalar_def)

lemma run_map_clone_scalar [typed]:
  assumes "list_all (scalar_ok t) vs"
  shows "\<exists>vs'. run_map (clone_scalar t) vs = Some vs' \<and> list_all (scalar_ok t) vs' \<and>
           map (abs_scalar t) vs' = map (abs_scalar t) vs \<and> length vs' = length vs"
  using assms
proof (induction vs)
  case (Cons v vs)
  then obtain v' vs' where "clone_scalar t v = Some v'" "scalar_ok t v'" "abs_scalar t v' = abs_scalar t v"
    "run_map (clone_scalar t) vs = Some vs'" "list_all (scalar_ok t) vs'"
    "map (abs_scalar t) vs' = map (abs_scalar t) vs" "length vs' = length vs"
    using clone_scalar_ok [of t v] by fastforce
  then show ?case by simp
qed simp

lemma clone_data_value_ok [typed]:
  assumes "data_ok t v"
  shows "\<exists>v'. clone_data_value v t = Some v' \<and> data_ok t v' \<and> abs_val t v' = abs_val t v \<and> dsize v' = dsize v"
proof (cases "is_array_type t")
  case False
  with assms clone_scalar_ok [of t v] show ?thesis
    by (simp add: data_ok_def clone_data_value_def abs_val_def)
next
  case True
  with assms obtain a where a: "read_a (dvalue v) = Some a" and ok: "array_ok (array_elem_type t) v"
    by (auto simp: data_ok_def array_ok_def split: option.splits)
  let ?et = "array_elem_type t"
  consider "a = None" | e where "a = Some (AppendValue e)" "scalar_ok ?et e"
    | es where "a = Some (Elements es)" "list_all (scalar_ok ?et) es" "length es \<le> MAX_ARRAY_LENGTH"
    using a ok by (auto simp: array_ok_def split: option.splits ArrayData.splits)
  then show ?thesis
  proof cases
    case 1
    with a True show ?thesis
      by (simp add: clone_data_value_def copy_array_def data_ok_def array_ok_def abs_val_def)
  next
    case 2
    with a True clone_scalar_ok [of ?et e] show ?thesis
      by (auto simp: clone_data_value_def copy_array_def data_ok_def array_ok_def abs_val_def arr_list_def)
  next
    case 3
    with a True run_map_clone_scalar [of ?et es] show ?thesis
      by (auto simp: clone_data_value_def copy_array_def data_ok_def array_ok_def abs_val_def arr_list_def)
  qed
qed

lemma free_scalar_ok [typed]: "scalar_ok t v \<Longrightarrow> free_scalar t v = Some ()"
  by (cases v; cases t) (auto simp: scalar_ok_def)

lemma free_data_value_ok [typed]: "data_ok t v \<Longrightarrow> free_data_value v t = Some ()"
proof (cases "is_array_type t")
  case True
  assume "data_ok t v"
  with True show ?thesis
    by (auto simp: data_ok_def array_ok_def free_data_value_def free_scalar_ok list_all_iff
        run_map_Some [where g = "\<lambda>_. ()"] split: option.splits ArrayData.splits)
qed (simp add: data_ok_def free_data_value_def free_scalar_ok)

lemma free_values_ok [typed]: "row_ok fs vs \<Longrightarrow> free_values fs vs = Some ()"
proof -
  assume ok: "row_ok fs vs"
  then have "run_map (\<lambda>(f, v). free_data_value v (fieldType f)) (zip fs vs) = Some (map (\<lambda>_. ()) (zip fs vs))"
    by (intro run_map_Some) (auto simp: row_ok_def list_all2_iff free_data_value_ok)
  with ok show ?thesis by (simp add: free_values_def row_ok_def list_all2_lengthD)
qed

lemma clone_values_ok [typed]:
  assumes "row_ok fs vs"
  shows "\<exists>vs'. run_map (\<lambda>(f, v). clone_data_value v (fieldType f)) (zip fs vs) = Some vs' \<and>
           row_ok fs vs' \<and> abs_vals fs vs' = abs_vals fs vs \<and> map dsize vs' = map dsize vs"
  using assms unfolding row_ok_def
proof (induction fs vs rule: list_all2_induct)
  case (Cons f fs v vs)
  then show ?case
    using clone_data_value_ok [of "fieldType f" v] by (auto simp: abs_vals_def)
qed (simp add: abs_vals_def)

lemma data_value_equals_ok [typed]:
  assumes "data_ok t a" "data_ok t b"
  shows "data_value_equals a b t = Some (val_eq (abs_val t a) (abs_val t b))"
  using assms
  by (cases a; cases b; cases t)
    (auto simp: data_ok_def scalar_ok_def abs_val_def abs_scalar_def split: option.splits)

lemma hash_data_value_ok [typed]:
  assumes "data_ok t a"
  shows "hash_data_value a t = Some (val_hash (abs_val t a))"
  using assms
  by (cases a; cases t)
    (auto simp: data_ok_def scalar_ok_def abs_val_def abs_scalar_def split: option.splits)

end
