(* ===== verification/Field_Index.thy ===== *)
theory Field_Index
  imports Values
begin

text \<open>
  The per-field hash index of \<open>src/db/data_model.c\<close>: 32 buckets of entries, an entry holding a value and
  the keys of the rows that have it.
\<close>

subsection \<open>Index structures\<close>

record DBIndexEntry =
  evalue :: Data
  ekeys :: "cint list"

record DBFieldIndex =
  enabled :: bool
  ibucketCount :: nat
  itype :: FieldType
  ibuckets :: "DBIndexEntry list list"

definition clear_index :: "DBFieldIndex \<Rightarrow> DBFieldIndex run" where
  "clear_index ix =
    do { us \<leftarrow> run_map (\<lambda>e. free_data_value (evalue e) (itype ix)) (concat (ibuckets ix));
         Some (ix\<lparr>enabled := False, ibucketCount := 0, ibuckets := []\<rparr>) }"

definition ensure_index_initialized :: "DBFieldIndex \<Rightarrow> FieldType \<Rightarrow> DBFieldIndex" where
  "ensure_index_initialized ix type =
    ix\<lparr>ibuckets := replicate 32 [], ibucketCount := 32, itype := type, enabled := False\<rparr>"

text \<open>An entry pointer is the position of the entry in the chain of its bucket.\<close>

fun find_entry_pos :: "FieldType \<Rightarrow> Data \<Rightarrow> DBIndexEntry list \<Rightarrow> nat option run" where
  "find_entry_pos t v [] = Some None"
| "find_entry_pos t v (e # es) =
     do { b \<leftarrow> data_value_equals (evalue e) v t;
          if b then Some (Some 0)
          else do { r \<leftarrow> find_entry_pos t v es; Some (map_option Suc r) } }"

definition find_index_entry :: "DBFieldIndex \<Rightarrow> Data \<Rightarrow> nat \<Rightarrow> nat option run" where
  "find_index_entry ix v bucket =
    (if bucket \<ge> ibucketCount ix then Some None
     else do { chain \<leftarrow> at (ibuckets ix) bucket; find_entry_pos (itype ix) v chain })"

definition add_key_to_entry :: "DBIndexEntry \<Rightarrow> cint \<Rightarrow> DBIndexEntry" where
  "add_key_to_entry e key = (if key \<in> set (ekeys e) then e else e\<lparr>ekeys := ekeys e @ [key]\<rparr>)"

definition index_bucket :: "DBFieldIndex \<Rightarrow> Data \<Rightarrow> nat run" where
  "index_bucket ix v =
    do { h \<leftarrow> hash_data_value v (itype ix); Some (unat h mod ibucketCount ix) }"

text \<open>The body of the loop of \<open>rebuild_single_index\<close>, for one row.\<close>

definition index_add_row :: "nat \<Rightarrow> Row \<Rightarrow> DBFieldIndex \<Rightarrow> DBFieldIndex run" where
  "index_add_row fieldIdx row ix =
    do { v \<leftarrow> at (rvalues row) fieldIdx;
         kd \<leftarrow> at (rvalues row) 0;
         key \<leftarrow> read_i (dvalue kd);
         bucket \<leftarrow> index_bucket ix v;
         pos \<leftarrow> find_index_entry ix v bucket;
         chain \<leftarrow> at (ibuckets ix) bucket;
         (case pos of
            None \<Rightarrow>
              do { v' \<leftarrow> clone_data_value v (itype ix);
                   Some (ix\<lparr>ibuckets := (ibuckets ix)
                     [bucket := add_key_to_entry \<lparr>evalue = v', ekeys = []\<rparr> key # chain]\<rparr>) }
          | Some p \<Rightarrow>
              Some (ix\<lparr>ibuckets := (ibuckets ix)
                [bucket := chain[p := add_key_to_entry (chain ! p) key]]\<rparr>)) }"

subsection \<open>The index on abstract values\<close>

text \<open>
  The same algorithm without the C values: a chain is a list of (value, keys) pairs. What makes it an
  index is that the equality it tests is symmetric and transitive, and that equal values of the
  same class fall into the same bucket; reflexivity is not needed (a NaN equals nothing).
\<close>

fun entry_pos :: "('v \<Rightarrow> 'v \<Rightarrow> bool) \<Rightarrow> 'v \<Rightarrow> ('v \<times> 'k list) list \<Rightarrow> nat option" where
  "entry_pos eq v [] = None"
| "entry_pos eq v (e # es) = (if eq (fst e) v then Some 0 else map_option Suc (entry_pos eq v es))"

fun chain_keys :: "('v \<Rightarrow> 'v \<Rightarrow> bool) \<Rightarrow> 'v \<Rightarrow> ('v \<times> 'k list) list \<Rightarrow> 'k list" where
  "chain_keys eq v [] = []"
| "chain_keys eq v (e # es) = (if eq (fst e) v then snd e else chain_keys eq v es)"

definition push_key :: "'k \<Rightarrow> 'v \<times> 'k list \<Rightarrow> 'v \<times> 'k list" where
  "push_key k e = (if k \<in> set (snd e) then e else (fst e, snd e @ [k]))"

definition chain_add :: "('v \<Rightarrow> 'v \<Rightarrow> bool) \<Rightarrow> 'k \<Rightarrow> 'v \<Rightarrow> ('v \<times> 'k list) list \<Rightarrow> ('v \<times> 'k list) list" where
  "chain_add eq k v c =
    (case entry_pos eq v c of
       None \<Rightarrow> push_key k (v, []) # c
     | Some p \<Rightarrow> c[p := push_key k (c ! p)])"

definition buckets_add ::
  "('v \<Rightarrow> 'v \<Rightarrow> bool) \<Rightarrow> ('v \<Rightarrow> nat) \<Rightarrow> 'k \<times> 'v \<Rightarrow> ('v \<times> 'k list) list list \<Rightarrow> ('v \<times> 'k list) list list" where
  "buckets_add eq h kv bs =
    (let b = h (snd kv) mod length bs in bs[b := chain_add eq (fst kv) (snd kv) (bs ! b)])"

definition buckets_keys :: "('v \<Rightarrow> 'v \<Rightarrow> bool) \<Rightarrow> ('v \<Rightarrow> nat) \<Rightarrow> 'v \<Rightarrow> ('v \<times> 'k list) list list \<Rightarrow> 'k list" where
  "buckets_keys eq h v bs = chain_keys eq v (bs ! (h v mod length bs))"

lemma entry_pos_None: "entry_pos eq v c = None \<longleftrightarrow> (\<forall>e \<in> set c. \<not> eq (fst e) v)"
  by (induction c) auto

lemma entry_pos_less: "entry_pos eq v c = Some p \<Longrightarrow> p < length c"
  by (induction c arbitrary: p) (auto split: if_splits)

lemma entry_pos_keys:
  "entry_pos eq v c = Some p \<Longrightarrow> chain_keys eq v c = snd (c ! p)"
  by (induction c arbitrary: p) (auto split: if_splits)

lemma chain_keys_None: "entry_pos eq v c = None \<Longrightarrow> chain_keys eq v c = []"
  by (induction c) (auto split: if_splits)

locale value_index =
  fixes eq :: "'v \<Rightarrow> 'v \<Rightarrow> bool" and h :: "'v \<Rightarrow> nat" and n :: nat
  assumes eq_sym: "eq a b \<Longrightarrow> eq b a"
    and eq_trans: "eq a b \<Longrightarrow> eq b c \<Longrightarrow> eq a c"
    and eq_hash: "eq a b \<Longrightarrow> h a mod n = h b mod n"
    and buckets: "0 < n"
begin

lemma eq_class: "eq x v \<Longrightarrow> eq e x = eq e v"
  using eq_sym eq_trans by blast

lemma chain_add_same:
  assumes "eq x v" "k \<notin> set (chain_keys eq v c)"
  shows "chain_keys eq v (chain_add eq k x c) = chain_keys eq v c @ [k]"
proof -
  have pos: "entry_pos eq x c = entry_pos eq v c"
    by (induction c) (simp_all add: eq_class [OF assms(1)])
  have upd: "entry_pos eq v c = Some p \<Longrightarrow> k \<notin> set (chain_keys eq v c) \<Longrightarrow>
      chain_keys eq v (c[p := push_key k (c ! p)]) = chain_keys eq v c @ [k]" for p
    by (induction c arbitrary: p) (auto simp: push_key_def split: if_splits)
  show ?thesis
    using assms pos upd chain_keys_None [of eq v c]
    by (auto simp: chain_add_def push_key_def split: option.splits)
qed

lemma chain_add_other:
  assumes "\<not> eq x v"
  shows "chain_keys eq v (chain_add eq k x c) = chain_keys eq v c"
proof -
  have ne: "eq e x \<Longrightarrow> \<not> eq e v" for e
    using assms eq_sym eq_trans by blast
  have "entry_pos eq x c = Some p \<Longrightarrow> chain_keys eq v (c[p := push_key k (c ! p)]) = chain_keys eq v c" for p
    by (induction c arbitrary: p) (auto simp: push_key_def ne split: if_splits)
  with assms show ?thesis
    by (auto simp: chain_add_def push_key_def split: option.splits)
qed

lemma buckets_add_keys:
  assumes "length bs = n" "k \<notin> set (buckets_keys eq h v bs)"
  shows "buckets_keys eq h v (buckets_add eq h (k, x) bs) =
         buckets_keys eq h v bs @ (if eq x v then [k] else [])"
proof (cases "h x mod length bs = h v mod length bs")
  case True
  then show ?thesis
    using assms
      buckets
    by (auto simp: buckets_keys_def buckets_add_def Let_def chain_add_same chain_add_other)
next
  case False
  then have "\<not> eq x v" using assms(1) eq_hash by blast
  with False show ?thesis
    by (simp add: buckets_keys_def buckets_add_def Let_def)
qed

lemma buckets_fold_keys:
  assumes "distinct (map fst kvs)" "length bs = n"
    and "set (buckets_keys eq h v bs) \<inter> fst ` set kvs = {}"
  shows "buckets_keys eq h v (fold (buckets_add eq h) kvs bs) =
         buckets_keys eq h v bs @ map fst (filter (\<lambda>kv. eq (snd kv) v) kvs)"
  using assms
proof (induction kvs arbitrary: bs)
  case (Cons kv kvs)
  obtain k x where kv: "kv = (k, x)" by (cases kv)
  have step: "buckets_keys eq h v (buckets_add eq h (k, x) bs) =
      buckets_keys eq h v bs @ (if eq x v then [k] else [])"
    by (rule buckets_add_keys) (use Cons.prems kv in auto)
  moreover have "length (buckets_add eq h (k, x) bs) = n"
    using Cons.prems by (simp add: buckets_add_def Let_def)
  ultimately show ?case
    using Cons.IH [of "buckets_add eq h (k, x) bs"] Cons.prems kv by auto
qed simp

text \<open>Looking a value up in the index built from a list of rows finds the keys a scan finds, in order.\<close>

lemma index_is_scan:
  assumes "distinct (map fst kvs)"
  shows "buckets_keys eq h v (fold (buckets_add eq h) kvs (replicate n [])) =
         map fst (filter (\<lambda>kv. eq (snd kv) v) kvs)"
proof -
  have "buckets_keys eq h v (replicate n []) = []"
    using buckets by (simp add: buckets_keys_def)
  then show ?thesis
    by (subst buckets_fold_keys) (use assms in auto)
qed

end

interpretation vi: value_index val_eq "\<lambda>a. unat (val_hash a)" 32
  by unfold_locales (auto simp: val_eq_sym val_eq_bucket dest: val_eq_trans)

subsection \<open>The C index implements the abstract one\<close>

definition abs_entry :: "FieldType \<Rightarrow> DBIndexEntry \<Rightarrow> AbsVal \<times> cint list" where
  "abs_entry t e = (abs_val t (evalue e), ekeys e)"

definition abs_buckets :: "DBFieldIndex \<Rightarrow> (AbsVal \<times> cint list) list list" where
  "abs_buckets ix = map (map (abs_entry (itype ix))) (ibuckets ix)"

definition index_typed :: "DBFieldIndex \<Rightarrow> bool" where
  "index_typed ix \<longleftrightarrow> ibucketCount ix = length (ibuckets ix) \<and>
     (\<forall>c \<in> set (ibuckets ix). \<forall>e \<in> set c. data_ok (itype ix) (evalue e))"

definition row_key :: "Row \<Rightarrow> cint" where
  "row_key r = the (read_i (dvalue (hd (rvalues r))))"

definition indexable :: "FieldType \<Rightarrow> nat \<Rightarrow> Row \<Rightarrow> bool" where
  "indexable t f r \<longleftrightarrow> rvalues r \<noteq> [] \<and> read_i (dvalue (hd (rvalues r))) \<noteq> None \<and>
     f < length (rvalues r) \<and> data_ok t (rvalues r ! f)"

definition index_item :: "FieldType \<Rightarrow> nat \<Rightarrow> Row \<Rightarrow> cint \<times> AbsVal" where
  "index_item t f r = (row_key r, abs_val t (rvalues r ! f))"

abbreviation val_buckets_add :: "cint \<times> AbsVal \<Rightarrow> (AbsVal \<times> cint list) list list \<Rightarrow> (AbsVal \<times> cint list) list list" where
  "val_buckets_add \<equiv> buckets_add val_eq (\<lambda>a. unat (val_hash a))"

lemma clear_index_ok: "index_typed ix \<Longrightarrow>
    clear_index ix = Some (ix\<lparr>enabled := False, ibucketCount := 0, ibuckets := []\<rparr>)"
proof -
  assume "index_typed ix"
  then have "run_map (\<lambda>e. free_data_value (evalue e) (itype ix)) (concat (ibuckets ix)) =
      Some (map (\<lambda>_. ()) (concat (ibuckets ix)))"
    by (intro run_map_Some) (auto simp: index_typed_def free_data_value_ok)
  then show ?thesis by (simp add: clear_index_def)
qed

lemma find_entry_pos_ok:
  "\<forall>e \<in> set c. data_ok t (evalue e) \<Longrightarrow> data_ok t v \<Longrightarrow>
     find_entry_pos t v c = Some (entry_pos val_eq (abs_val t v) (map (abs_entry t) c))"
  by (induction c) (auto simp: data_value_equals_ok abs_entry_def)

lemma abs_add_key: "abs_entry t (add_key_to_entry e k) = push_key k (abs_entry t e)"
  by (simp add: abs_entry_def add_key_to_entry_def push_key_def)

lemma index_bucket_ok:
  assumes "index_typed ix" "data_ok (itype ix) v"
  shows "index_bucket ix v = Some (unat (val_hash (abs_val (itype ix) v)) mod length (ibuckets ix))"
  using assms by (simp add: index_bucket_def hash_data_value_ok index_typed_def)

lemma find_index_entry_ok:
  assumes "index_typed ix" "data_ok (itype ix) v" "b < length (ibuckets ix)"
  shows "find_index_entry ix v b = Some (entry_pos val_eq (abs_val (itype ix) v) (abs_buckets ix ! b))"
proof -
  have "find_entry_pos (itype ix) v (ibuckets ix ! b) =
      Some (entry_pos val_eq (abs_val (itype ix) v) (map (abs_entry (itype ix)) (ibuckets ix ! b)))"
    using assms by (intro find_entry_pos_ok) (auto simp: index_typed_def)
  with assms show ?thesis by (simp add: find_index_entry_def index_typed_def abs_buckets_def)
qed

lemma index_typed_update:
  assumes "index_typed ix" "\<And>e. e \<in> set c \<Longrightarrow> data_ok (itype ix) (evalue e)"
  shows "index_typed (ix\<lparr>ibuckets := (ibuckets ix)[b := c]\<rparr>)"
  using assms by (auto simp: index_typed_def dest!: set_update_subset_insert [THEN subsetD])

lemma index_add_row_ok:
  assumes typed: "index_typed ix" and row: "indexable (itype ix) f r" and ne: "ibuckets ix \<noteq> []"
  shows "\<exists>ix'. index_add_row f r ix = Some ix' \<and> index_typed ix' \<and> itype ix' = itype ix \<and>
           ibuckets ix' \<noteq> [] \<and> abs_buckets ix' = val_buckets_add (index_item (itype ix) f r) (abs_buckets ix)"
proof -
  define v where "v = rvalues r ! f"
  define t where "t = itype ix"
  define b where "b = unat (val_hash (abs_val t v)) mod length (ibuckets ix)"
  define chain where "chain = ibuckets ix ! b"
  have b: "b < length (ibuckets ix)" using ne by (simp add: b_def)
  have v: "data_ok t v" "at (rvalues r) f = Some v" using row by (auto simp: indexable_def v_def t_def)
  have k: "at (rvalues r) 0 = Some (hd (rvalues r))" "read_i (dvalue (hd (rvalues r))) = Some (row_key r)"
    using row by (auto simp: indexable_def row_key_def hd_conv_nth)
  have chain: "\<And>e. e \<in> set chain \<Longrightarrow> data_ok t (evalue e)" "abs_buckets ix ! b = map (abs_entry t) chain"
    using typed b by (auto simp: index_typed_def chain_def abs_buckets_def t_def)
  obtain v' where v': "clone_data_value v t = Some v'" "data_ok t v'" "abs_val t v' = abs_val t v"
    using clone_data_value_ok [OF v(1)] by blast
  let ?pos = "entry_pos val_eq (abs_val t v) (map (abs_entry t) chain)"
  define c' where "c' = (case ?pos of
       None \<Rightarrow> add_key_to_entry \<lparr>evalue = v', ekeys = []\<rparr> (row_key r) # chain
     | Some p \<Rightarrow> chain[p := add_key_to_entry (chain ! p) (row_key r)])"
  have run: "index_add_row f r ix = Some (ix\<lparr>ibuckets := (ibuckets ix)[b := c']\<rparr>)"
    using v k v' b typed
    by (simp add: index_add_row_def index_bucket_ok find_index_entry_ok t_def [symmetric] b_def [symmetric]
        chain(2) chain_def [symmetric] c'_def split: option.split)
  have c'_ok: "e \<in> set c' \<Longrightarrow> data_ok t (evalue e)" for e
  proof -
    have key: "evalue (add_key_to_entry x y) = evalue x" for x y by (simp add: add_key_to_entry_def)
    show "e \<in> set c' \<Longrightarrow> data_ok t (evalue e)"
      using chain(1) v'(2) entry_pos_less [of val_eq "abs_val t v" "map (abs_entry t) chain"]
      by (auto simp: c'_def key split: option.splits dest!: set_update_subset_insert [THEN subsetD])
  qed
  have "map (abs_entry t) c' = chain_add val_eq (row_key r) (abs_val t v) (map (abs_entry t) chain)"
    using entry_pos_less [of val_eq "abs_val t v" "map (abs_entry t) chain"] v'(3)
    by (auto simp: c'_def chain_add_def map_update abs_add_key split: option.splits)
      (simp add: abs_entry_def)
  then have "abs_buckets (ix\<lparr>ibuckets := (ibuckets ix)[b := c']\<rparr>) =
      val_buckets_add (index_item t f r) (abs_buckets ix)"
    using b chain(2)
    by (simp add: buckets_add_def index_item_def v_def [symmetric] Let_def abs_buckets_def map_update
        b_def [symmetric] t_def [symmetric])
  with run index_typed_update [OF typed, of c' b] c'_ok ne t_def show ?thesis by simp
qed

lemma index_fold_ok:
  assumes "index_typed ix" "\<And>r. r \<in> set rs \<Longrightarrow> indexable (itype ix) f r" "ibuckets ix \<noteq> []"
  shows "\<exists>ix'. run_fold (index_add_row f) rs ix = Some ix' \<and> index_typed ix' \<and> itype ix' = itype ix \<and>
           ibuckets ix' \<noteq> [] \<and>
           abs_buckets ix' = fold val_buckets_add (map (index_item (itype ix) f) rs) (abs_buckets ix)"
  using assms
proof (induction rs arbitrary: ix)
  case (Cons r rs)
  obtain ix1 where ix1: "index_add_row f r ix = Some ix1" "index_typed ix1" "itype ix1 = itype ix"
    "ibuckets ix1 \<noteq> []" "abs_buckets ix1 = val_buckets_add (index_item (itype ix) f r) (abs_buckets ix)"
    using index_add_row_ok [of ix f r] Cons.prems by auto
  with Cons.IH [of ix1] Cons.prems show ?case by simp
qed simp

text \<open>The index that \<open>rebuild_single_index\<close> leaves behind, as a property of its contents.\<close>

definition index_fresh :: "FieldType \<Rightarrow> nat \<Rightarrow> Row list \<Rightarrow> DBFieldIndex \<Rightarrow> bool" where
  "index_fresh t f rs ix \<longleftrightarrow> index_typed ix \<and> itype ix = t \<and> length (ibuckets ix) = 32 \<and>
     abs_buckets ix = fold val_buckets_add (map (index_item t f) rs) (replicate 32 [])"

lemma index_build_ok:
  assumes "index_typed ix0" "\<And>r. r \<in> set rs \<Longrightarrow> indexable t f r"
  shows "\<exists>ix1 ix. clear_index ix0 = Some ix1 \<and>
           run_fold (index_add_row f) rs (ensure_index_initialized ix1 t) = Some ix \<and> index_fresh t f rs ix"
proof -
  let ?ix = "ensure_index_initialized (ix0\<lparr>enabled := False, ibucketCount := 0, ibuckets := []\<rparr>) t"
  have "index_typed ?ix" "itype ?ix = t" "ibuckets ?ix \<noteq> []" "abs_buckets ?ix = replicate 32 []"
    by (simp_all add: index_typed_def ensure_index_initialized_def abs_buckets_def)
  with index_fold_ok [of ?ix rs f] assms(2) obtain ix where
    ix: "run_fold (index_add_row f) rs ?ix = Some ix" "index_typed ix" "itype ix = t"
      "abs_buckets ix = fold val_buckets_add (map (index_item t f) rs) (replicate 32 [])"
    by auto
  have len: "length (fold val_buckets_add kvs bs) = length bs" for kvs bs
    by (induction kvs arbitrary: bs) (auto simp: buckets_add_def Let_def)
  have "length (ibuckets ix) = length (abs_buckets ix)" by (simp add: abs_buckets_def)
  with ix len have "length (ibuckets ix) = 32" by simp
  with ix clear_index_ok [OF assms(1)] show ?thesis by (simp add: index_fresh_def)
qed

lemma index_fresh_lookup:
  assumes fresh: "index_fresh t f rs ix" and v: "data_ok t v" and rs: "distinct (map row_key rs)"
  shows "\<exists>b pos. index_bucket ix v = Some b \<and> find_index_entry ix v b = Some pos \<and>
           (case pos of None \<Rightarrow> [] | Some p \<Rightarrow> ekeys (ibuckets ix ! b ! p)) =
           map row_key (filter (\<lambda>r. val_eq (abs_val t (rvalues r ! f)) (abs_val t v)) rs)"
proof -
  let ?a = "abs_val t v" and ?bs = "abs_buckets ix"
  define b where "b = unat (val_hash ?a) mod 32"
  have ix: "index_typed ix" "itype ix = t" "length (ibuckets ix) = 32" "length ?bs = 32"
    using fresh by (auto simp: index_fresh_def abs_buckets_def)
  have "buckets_keys val_eq (\<lambda>a. unat (val_hash a)) ?a ?bs =
      map fst (filter (\<lambda>kv. val_eq (snd kv) ?a) (map (index_item t f) rs))"
    using fresh v rs unfolding index_fresh_def
    by (auto simp: index_item_def comp_def intro!: vi.index_is_scan)
  also have "\<dots> = map row_key (filter (\<lambda>r. val_eq (abs_val t (rvalues r ! f)) ?a) rs)"
    by (simp add: filter_map comp_def index_item_def)
  finally have scan: "chain_keys val_eq ?a (?bs ! b) =
      map row_key (filter (\<lambda>r. val_eq (abs_val t (rvalues r ! f)) ?a) rs)"
    using ix by (simp add: buckets_keys_def b_def)
  have "b < 32" by (simp add: b_def)
  have keys: "(case entry_pos val_eq ?a (?bs ! b) of None \<Rightarrow> [] | Some p \<Rightarrow> ekeys (ibuckets ix ! b ! p)) =
      chain_keys val_eq ?a (?bs ! b)"
    using entry_pos_keys [of val_eq ?a "?bs ! b"] chain_keys_None [of val_eq ?a "?bs ! b"]
      entry_pos_less [of val_eq ?a "?bs ! b"] \<open>b < 32\<close> ix
    by (auto simp: abs_buckets_def abs_entry_def split: option.splits)
  have "index_bucket ix v = Some b" "find_index_entry ix v b = Some (entry_pos val_eq ?a (?bs ! b))"
    using ix v \<open>b < 32\<close> by (simp_all add: index_bucket_ok find_index_entry_ok b_def)
  with keys scan show ?thesis by auto
qed

subsection \<open>Properties\<close>

text \<open>
  C23. Values that compare equal land in the same bucket of an index, also the two zeros of a \<open>double\<close>,
  whose bit patterns and hashes differ: with 32 buckets only the low bits of the hash count.
\<close>

theorem equal_values_share_a_bucket:
  assumes "index_typed ix" "ibucketCount ix = 32" "data_ok (itype ix) a" "data_ok (itype ix) b"
    "data_value_equals a b (itype ix) = Some True"
  shows "index_bucket ix a = index_bucket ix b \<and> index_bucket ix a \<noteq> None"
proof -
  have "val_eq (abs_val (itype ix) a) (abs_val (itype ix) b)"
    using assms(3-5) by (simp add: data_value_equals_ok)
  with assms show ?thesis by (simp add: index_bucket_ok index_typed_def val_eq_bucket)
qed

definition zero_index :: DBFieldIndex where
  "zero_index = \<lparr>enabled = True, ibucketCount = 32, itype = TYPE_DOUBLE, ibuckets = replicate 32 []\<rparr>"

theorem equal_values_share_a_bucket_witness:
  "index_bucket zero_index (Data (-1) (U_d 0)) = index_bucket zero_index (Data (-1) (U_d neg_zero)) \<and>
   hash_data_value (Data (-1) (U_d 0)) TYPE_DOUBLE \<noteq> hash_data_value (Data (-1) (U_d neg_zero)) TYPE_DOUBLE"
proof
  have "index_typed zero_index" by (simp add: zero_index_def index_typed_def)
  moreover have "data_ok TYPE_DOUBLE (Data (-1) (U_d 0))" "data_ok TYPE_DOUBLE (Data (-1) (U_d neg_zero))"
    by (simp_all add: data_ok_def scalar_ok_def)
  moreover have "data_value_equals (Data (-1) (U_d 0)) (Data (-1) (U_d neg_zero)) TYPE_DOUBLE = Some True"
    by (simp add: double_eq_def dbl_nan_def dbl_zero_def dbl_exp_def dbl_frac_def neg_zero_def drop_bit_eq_div)
  ultimately show "index_bucket zero_index (Data (-1) (U_d 0)) = index_bucket zero_index (Data (-1) (U_d neg_zero))"
    using equal_values_share_a_bucket [of zero_index "Data (-1) (U_d 0)" "Data (-1) (U_d neg_zero)"]
    by (simp add: zero_index_def)
  show "hash_data_value (Data (-1) (U_d 0)) TYPE_DOUBLE \<noteq> hash_data_value (Data (-1) (U_d neg_zero)) TYPE_DOUBLE"
    by (simp add: neg_zero_def)
qed

end
