(* ===== verification/Data_Model.thy ===== *)
theory Data_Model
  imports Hashmap Field_Index
begin

text \<open>
  The tables of \<open>src/db/data_model.c\<close>: a \<open>DB\<close> with its rows and field indexes, the row operations, and
  the list of tables. Operations that mutate a \<open>DB\<close> return the new one with the C status code;
  \<open>time(NULL)\<close> is the argument \<open>now\<close>. A \<open>DB*\<close>, \<open>Data*\<close> or \<open>Row*\<close> argument is not \<open>NULL\<close>
  here: the guards for \<open>NULL\<close> have no counterpart.
\<close>

subsection \<open>Tables and their rows\<close>

record DB =
  dbName :: string
  dbFields :: "Field list"
  rowMap :: "Row RowHashMap"
  indexes :: "DBFieldIndex list"
  rowsCount :: int
  nextKey :: cint

definition free_row_values :: "DB \<Rightarrow> Row \<Rightarrow> unit run" where
  "free_row_values db row = free_values (dbFields db) (rvalues row)"

text \<open>The same for a row that was copied for a client.\<close>

definition db_free_row :: "DB \<Rightarrow> Row \<Rightarrow> unit run" where
  "db_free_row db row = free_values (dbFields db) (rvalues row)"

definition find_row :: "DB \<Rightarrow> cint \<Rightarrow> Row option" where
  "find_row db key = row_hashmap_find (rowMap db) key"

text \<open>The rows that \<open>db_iter_first\<close>/\<open>db_iter_next\<close> visit until they return \<open>NULL\<close>.\<close>

definition db_rows :: "DB \<Rightarrow> Row list" where
  "db_rows db = row_hashmap_rows (rowMap db)"

text \<open>A store through the row pointer that \<open>find_row\<close> returned.\<close>

definition set_row :: "DB \<Rightarrow> cint \<Rightarrow> Row \<Rightarrow> DB" where
  "set_row db key row = db\<lparr>rowMap := row_hashmap_write (rowMap db) key row\<rparr>"

subsection \<open>Rebuilding and using indexes\<close>

definition rebuild_single_index :: "DB \<Rightarrow> nat \<Rightarrow> (int \<times> DB) run" where
  "rebuild_single_index db fieldIdx =
    (if fieldIdx \<ge> length (dbFields db) then Some (-1, db)
     else do { ix0 \<leftarrow> at (indexes db) fieldIdx;
               ix1 \<leftarrow> clear_index ix0;
               let ix2 = ensure_index_initialized ix1 (fieldType (dbFields db ! fieldIdx));
               ix3 \<leftarrow> run_fold (index_add_row fieldIdx) (db_rows db) ix2;
               Some (0, db\<lparr>indexes := (indexes db)[fieldIdx := ix3\<lparr>enabled := True\<rparr>]\<rparr>) })"

text \<open>The body of the loop of \<open>rebuild_enabled_indexes\<close>.\<close>

definition rebuild_step :: "nat \<Rightarrow> DB \<Rightarrow> DB run" where
  "rebuild_step i db =
    do { ix \<leftarrow> at (indexes db) i;
         if \<not> enabled ix then Some db
         else do { (rc, db') \<leftarrow> rebuild_single_index db i; Some db' } }"

definition rebuild_enabled_indexes :: "DB \<Rightarrow> DB run" where
  "rebuild_enabled_indexes db = run_fold rebuild_step [0..<length (dbFields db)] db"

definition db_has_index :: "DB \<Rightarrow> int \<Rightarrow> int run" where
  "db_has_index db fieldIdx =
    (if fieldIdx < 0 \<or> fieldIdx \<ge> int (length (dbFields db)) then Some (-1)
     else do { ix \<leftarrow> at (indexes db) (nat fieldIdx); Some (if enabled ix then 1 else 0) })"

definition db_create_index :: "DB \<Rightarrow> int \<Rightarrow> (int \<times> DB) run" where
  "db_create_index db fieldIdx =
    (if fieldIdx < 0 \<or> fieldIdx \<ge> int (length (dbFields db)) then Some (-1, db)
     else do { ix \<leftarrow> at (indexes db) (nat fieldIdx);
               if enabled ix then Some (-2, db)
               else do { (rc, d) \<leftarrow> rebuild_single_index db (nat fieldIdx);
                         Some (if rc \<noteq> 0 then -3 else 0, d) } })"

definition db_index_collect_rows :: "DB \<Rightarrow> int \<Rightarrow> Data \<Rightarrow> (int \<times> Row list) run" where
  "db_index_collect_rows db fieldIdx v =
    (if fieldIdx < 0 \<or> fieldIdx \<ge> int (length (dbFields db)) then Some (-1, [])
     else do { ix \<leftarrow> at (indexes db) (nat fieldIdx);
               if \<not> enabled ix \<or> ibucketCount ix = 0 then Some (-2, [])
               else do { bucket \<leftarrow> index_bucket ix v;
                         pos \<leftarrow> find_index_entry ix v bucket;
                         (case pos of
                            None \<Rightarrow> Some (0, [])
                          | Some p \<Rightarrow>
                              Some (0, List.map_filter (find_row db) (ekeys (ibuckets ix ! bucket ! p)))) } })"

subsection \<open>Tables\<close>

definition empty_index :: DBFieldIndex where
  "empty_index = \<lparr>enabled = False, ibucketCount = 0, itype = TYPE_INT, ibuckets = []\<rparr>"

definition key_field :: Field where
  "key_field = \<lparr>fieldName = ''key'', fieldType = TYPE_INT\<rparr>"

definition db_create :: "string \<Rightarrow> Field list \<Rightarrow> DB option" where
  "db_create name fs =
    (if fs = [] then None
     else case row_hashmap_create INITIAL_ROW_CAPACITY of
            None \<Rightarrow> None
          | Some m \<Rightarrow>
              Some \<lparr>dbName = copy_name MAX_DB_NAME_LENGTH name,
                    dbFields = key_field # fs,
                    rowMap = m,
                    indexes = replicate (length fs + 1) empty_index,
                    rowsCount = 0,
                    nextKey = 1\<rparr>)"

definition db_free :: "DB \<Rightarrow> unit run" where
  "db_free db =
    do { u \<leftarrow> row_hashmap_destroy (free_row_values db) (rowMap db);
         is \<leftarrow> run_map clear_index (indexes db);
         Some () }"

text \<open>The key a new row gets, and the key counter after it.\<close>

definition choose_key :: "cint \<Rightarrow> cint \<Rightarrow> cint \<times> cint" where
  "choose_key next key =
    (if sint key < 0 then (next, next + 1)
     else (key, if sint key \<ge> sint next then key + 1 else next))"

definition new_row :: "ctime \<Rightarrow> cint \<Rightarrow> Data list \<Rightarrow> Row" where
  "new_row now key vs = \<lparr>rvalues = Data 4 (U_i key) # vs, created_at = now, updated_at = now\<rparr>"

definition db_add_row :: "ctime \<Rightarrow> DB \<Rightarrow> cint \<Rightarrow> Data list \<Rightarrow> (int \<times> DB) run" where
  "db_add_row now db key vs =
    (if int (length vs) \<noteq> int (length (dbFields db)) - 1 then Some (-2, db)
     else if rowsCount db \<ge> MAX_ROW_CAPACITY then Some (-3, db)
     else
       let actualKey = fst (choose_key (nextKey db) key);
           db1 = db\<lparr>nextKey := snd (choose_key (nextKey db) key)\<rparr>
       in if find_row db1 actualKey \<noteq> None then Some (-5, db1)
          else case row_hashmap_insert (rowMap db1) actualKey (new_row now actualKey vs) (rowsCount db1 + 1) of
                 (rc, m) \<Rightarrow>
                   if rc \<noteq> 0 then Some (-4, db1)
                   else do { db2 \<leftarrow> rebuild_enabled_indexes
                               (db1\<lparr>rowMap := m, rowsCount := rowsCount db1 + 1\<rparr>);
                             Some (0, db2) })"

definition db_get_row :: "DB \<Rightarrow> cint \<Rightarrow> Row option run" where
  "db_get_row db key =
    (case find_row db key of
       None \<Rightarrow> Some None
     | Some r \<Rightarrow>
         if length (rvalues r) > length (dbFields db) then None
         else do { vs \<leftarrow> run_map (\<lambda>(f, v). clone_data_value v (fieldType f)) (zip (dbFields db) (rvalues r));
                   Some (Some (r\<lparr>rvalues := vs\<rparr>)) })"

text \<open>One field of an update: append one element to the stored array, or replace the value.\<close>

definition append_request :: "FieldType \<Rightarrow> Data \<Rightarrow> Data option run" where
  "append_request t new =
    (if is_array_type t
     then do { a \<leftarrow> read_a (dvalue new);
               Some (case a of Some (AppendValue v) \<Rightarrow> Some v | _ \<Rightarrow> None) }
     else Some None)"

definition update_field :: "FieldType \<Rightarrow> Data \<Rightarrow> Data \<Rightarrow> (int \<times> Data) run" where
  "update_field t old new =
    do { req \<leftarrow> append_request t new;
         (case req of
            Some v \<Rightarrow>
              do { existing \<leftarrow> read_a (dvalue old);
                   let es = (case existing of None \<Rightarrow> [] | Some a \<Rightarrow> arr_elements a);
                   if length es \<ge> MAX_ARRAY_LENGTH then Some (-5, old)
                   else do { es' \<leftarrow> run_map (clone_scalar (array_elem_type t)) es;
                             v' \<leftarrow> clone_scalar (array_elem_type t) v;
                             u \<leftarrow> free_data_value old t;
                             Some (0, Data (dsize new) (U_a (Some (Elements (es' @ [v']))))) } }
          | None \<Rightarrow>
              do { u \<leftarrow> free_data_value old t;
                   v' \<leftarrow> clone_data_value new t;
                   Some (0, v') }) }"

text \<open>The loop over the fields; it stops at the first failing field and keeps what it has written.\<close>

fun update_fields :: "Field list \<Rightarrow> Data list \<Rightarrow> bool list \<Rightarrow> Data list \<Rightarrow> (int \<times> Data list) run" where
  "update_fields fs rs flags [] = Some (0, rs)"
| "update_fields (f # fs) (r # rs) (ig # flags) (v # vs) =
     (if ig then do { (rc, rs') \<leftarrow> update_fields fs rs flags vs; Some (rc, r # rs') }
      else do { (rc, r') \<leftarrow> update_field (fieldType f) r v;
                if rc \<noteq> 0 then Some (rc, r # rs)
                else do { (rc', rs') \<leftarrow> update_fields fs rs flags vs; Some (rc', r' # rs') } })"
| "update_fields _ _ _ _ = None"

definition db_update_row :: "ctime \<Rightarrow> DB \<Rightarrow> cint \<Rightarrow> Data list \<Rightarrow> bool list option \<Rightarrow> (int \<times> DB) run" where
  "db_update_row now db key vs ignoreFlags =
    (if int (length vs) \<noteq> int (length (dbFields db)) - 1 then Some (-2, db)
     else case find_row db key of
            None \<Rightarrow> Some (-3, db)
          | Some row \<Rightarrow>
              (case rvalues row of
                 [] \<Rightarrow> None
               | k # rs \<Rightarrow>
                   do { (rc, rs') \<leftarrow> update_fields (tl (dbFields db)) rs
                          (case ignoreFlags of None \<Rightarrow> replicate (length vs) False | Some fl \<Rightarrow> fl) vs;
                        let row' = row\<lparr>rvalues := k # rs'\<rparr>;
                        let db1 = set_row db key row';
                        if rc \<noteq> 0 then Some (rc, db1)
                        else do { db2 \<leftarrow> rebuild_enabled_indexes db1;
                                  Some (0, set_row db2 key (row'\<lparr>updated_at := now\<rparr>)) } }))"

definition db_delete_row :: "DB \<Rightarrow> cint \<Rightarrow> (int \<times> DB) run" where
  "db_delete_row db key =
    (case row_hashmap_remove (rowMap db) key of
       None \<Rightarrow> Some (-2, db)
     | Some (r, m) \<Rightarrow>
         do { u \<leftarrow> free_row_values db r;
              db' \<leftarrow> rebuild_enabled_indexes (db\<lparr>rowMap := m, rowsCount := rowsCount db - 1\<rparr>);
              Some (0, db') })"

definition db_set_row_timestamps :: "DB \<Rightarrow> cint \<Rightarrow> ctime \<Rightarrow> ctime \<Rightarrow> int \<times> DB" where
  "db_set_row_timestamps db key created updated =
    (case find_row db key of
       None \<Rightarrow> (-2, db)
     | Some row \<Rightarrow> (0, set_row db key (row\<lparr>created_at := created, updated_at := updated\<rparr>)))"

subsection \<open>The list of tables\<close>

fun find_db :: "DB list \<Rightarrow> string \<Rightarrow> DB option" where
  "find_db [] name = None"
| "find_db (db # dbs) name = (if dbName db = name then Some db else find_db dbs name)"

definition add_db :: "DB list \<Rightarrow> DB \<Rightarrow> int \<times> DB list" where
  "add_db dbs db =
    (if find_db dbs (dbName db) \<noteq> None then (-2, dbs)
     else if length dbs \<ge> MAX_DB_COUNT then (-4, dbs)
     else (0, db # dbs))"

fun remove_db :: "DB list \<Rightarrow> string \<Rightarrow> (int \<times> DB list) run" where
  "remove_db [] name = Some (-1, [])"
| "remove_db (db # dbs) name =
     (if dbName db = name then do { u \<leftarrow> db_free db; Some (0, dbs) }
      else do { (rc, dbs') \<leftarrow> remove_db dbs name; Some (rc, db # dbs') })"

fun db_for_each :: "(DB \<Rightarrow> 'c \<Rightarrow> (int \<times> 'c) run) \<Rightarrow> DB list \<Rightarrow> 'c \<Rightarrow> (int \<times> 'c) run" where
  "db_for_each visitor [] ctx = Some (0, ctx)"
| "db_for_each visitor (db # dbs) ctx =
     do { (rc, ctx') \<leftarrow> visitor db ctx;
          if rc \<noteq> 0 then Some (rc, ctx') else db_for_each visitor dbs ctx' }"

fun free_db_storage :: "DB list \<Rightarrow> DB list run" where
  "free_db_storage [] = Some []"
| "free_db_storage (db # dbs) = do { u \<leftarrow> db_free db; free_db_storage dbs }"

text \<open>A mutation through the pointer \<open>find_db\<close> returned: the table of that name is replaced.\<close>

fun put_db :: "DB list \<Rightarrow> string \<Rightarrow> DB \<Rightarrow> DB list" where
  "put_db [] name db = []"
| "put_db (d # dbs) name db = (if dbName d = name then db # dbs else d # put_db dbs name db)"

end
