(* ===== verification/Table_Facts.thy ===== *)
theory Table_Facts
  imports Data_Model
begin

text \<open>
  What the table operations of \<open>data_model.c\<close> promise. \<open>db_safe\<close> is the well-formedness every operation
  keeps and under which none is undefined; \<open>indexes_fresh\<close> says that every enabled index is the one
  built from the current rows; \<open>db_wf\<close> is both. \<open>abs_db\<close> forgets the hash map, the union tags and the
  indexes, and the row operations are refinements of operations on that abstract table.
\<close>

subsection \<open>Invariants\<close>

definition keyed :: "cint \<Rightarrow> Row \<Rightarrow> bool" where
  "keyed k r \<longleftrightarrow> rvalues r \<noteq> [] \<and> read_i (dvalue (hd (rvalues r))) = Some k"

definition db_safe :: "DB \<Rightarrow> bool" where
  "db_safe db \<longleftrightarrow>
     (\<exists>fs. fs \<noteq> [] \<and> dbFields db = key_field # fs) \<and>
     hm_wf (rowMap db) \<and>
     (\<forall>(k, r) \<in> set (hm_nodes (rowMap db)). row_ok (dbFields db) (rvalues r) \<and> keyed k r) \<and>
     rowsCount db = int (length (hm_nodes (rowMap db))) \<and> rowsCount db \<le> MAX_ROW_CAPACITY \<and>
     length (indexes db) = length (dbFields db) \<and> (\<forall>ix \<in> set (indexes db). index_typed ix)"

definition indexes_fresh :: "DB \<Rightarrow> bool" where
  "indexes_fresh db \<longleftrightarrow>
     (\<forall>i < length (indexes db). enabled (indexes db ! i) \<longrightarrow>
        index_fresh (fieldType (dbFields db ! i)) i (db_rows db) (indexes db ! i))"

definition db_wf :: "DB \<Rightarrow> bool" where
  "db_wf db \<longleftrightarrow> db_safe db \<and> indexes_fresh db"

text \<open>The key counter is above every key, and no key is negative: what makes automatic keys fresh.\<close>

definition keys_below :: "DB \<Rightarrow> bool" where
  "keys_below db \<longleftrightarrow> 0 < sint (nextKey db) \<and>
     (\<forall>k. find_row db k \<noteq> None \<longrightarrow> 0 \<le> sint k \<and> sint k < sint (nextKey db))"

lemma db_safeD:
  assumes "db_safe db"
  shows "hm_wf (rowMap db)" "length (indexes db) = length (dbFields db)" "dbFields db \<noteq> []"
    "\<And>ix. ix \<in> set (indexes db) \<Longrightarrow> index_typed ix"
    "db_rows db = map snd (hm_nodes (rowMap db))"
    "rowsCount db = int (length (hm_nodes (rowMap db)))"
  using assms by (auto simp: db_safe_def db_rows_def hm.rows_nodes)

lemma db_safe_node:
  assumes "db_safe db" "(k, r) \<in> set (hm_nodes (rowMap db))"
  shows "row_ok (dbFields db) (rvalues r)" "keyed k r"
  using assms by (auto simp: db_safe_def)

lemma find_row_node: "db_safe db \<Longrightarrow> find_row db k = Some r \<longleftrightarrow> (k, r) \<in> set (hm_nodes (rowMap db))"
  by (simp add: find_row_def db_safeD hm.find_in_nodes)

lemma keyed_row_key: "keyed k r \<Longrightarrow> row_key r = k"
  by (simp add: keyed_def row_key_def)

lemma row_keys: "db_safe db \<Longrightarrow> map row_key (db_rows db) = map fst (hm_nodes (rowMap db))"
proof -
  assume safe: "db_safe db"
  have "row_key (snd p) = fst p" if "p \<in> set (hm_nodes (rowMap db))" for p
    using db_safe_node(2) [OF safe, of "fst p" "snd p"] that by (simp add: keyed_row_key)
  then show ?thesis by (simp add: db_safeD(5) [OF safe])
qed

lemma db_rows_indexable:
  assumes "db_safe db" "r \<in> set (db_rows db)" "i < length (dbFields db)"
  shows "indexable (fieldType (dbFields db ! i)) i r"
proof -
  obtain k where "(k, r) \<in> set (hm_nodes (rowMap db))" using assms by (auto simp: db_safeD)
  from db_safe_node [OF assms(1) this] assms(3) show ?thesis
    by (auto simp: indexable_def keyed_def row_ok_def list_all2_conv_all_nth)
qed

subsection \<open>Rebuilding indexes\<close>

lemma db_safe_indexes:
  "db_safe db \<Longrightarrow> length ixs = length (dbFields db) \<Longrightarrow> (\<And>ix. ix \<in> set ixs \<Longrightarrow> index_typed ix) \<Longrightarrow>
   db_safe (db\<lparr>indexes := ixs\<rparr>)"
  by (simp add: db_safe_def)

lemma db_rows_indexes [simp]: "db_rows (db\<lparr>indexes := ixs\<rparr>) = db_rows db"
  by (simp add: db_rows_def)

lemma find_row_indexes [simp]: "find_row (db\<lparr>indexes := ixs\<rparr>) k = find_row db k"
  by (simp add: find_row_def)

lemma rebuild_single_index_ok:
  assumes safe: "db_safe db" and i: "i < length (dbFields db)"
  shows "\<exists>ix. rebuild_single_index db i = Some (0, db\<lparr>indexes := (indexes db)[i := ix]\<rparr>) \<and> enabled ix \<and>
           index_fresh (fieldType (dbFields db ! i)) i (db_rows db) ix"
proof -
  let ?t = "fieldType (dbFields db ! i)"
  have "index_typed (indexes db ! i)" using safe i by (simp add: db_safeD)
  from index_build_ok [OF this, of "db_rows db" ?t i] db_rows_indexable [OF safe _ i]
  obtain ix1 ix where "clear_index (indexes db ! i) = Some ix1"
    "run_fold (index_add_row i) (db_rows db) (ensure_index_initialized ix1 ?t) = Some ix"
    and fresh: "index_fresh ?t i (db_rows db) ix" by blast
  with safe i have "rebuild_single_index db i =
      Some (0, db\<lparr>indexes := (indexes db)[i := ix\<lparr>enabled := True\<rparr>]\<rparr>)"
    by (simp add: rebuild_single_index_def db_safeD Let_def)
  moreover have "index_fresh ?t i (db_rows db) (ix\<lparr>enabled := True\<rparr>)"
    using fresh by (auto simp: index_fresh_def index_typed_def abs_buckets_def)
  ultimately show ?thesis by auto
qed

lemma rebuild_single_index_safe:
  assumes "db_safe db" "index_fresh t i rs ix"
  shows "db_safe (db\<lparr>indexes := (indexes db)[i := ix]\<rparr>)"
  using assms db_safeD(2,4) [OF assms(1)]
  by (intro db_safe_indexes) (auto simp: index_fresh_def dest!: set_update_subset_insert [THEN subsetD])

text \<open>The loop of \<open>rebuild_enabled_indexes\<close>, from index \<open>j\<close> on.\<close>

lemma rebuild_loop:
  assumes "db_safe d" "j \<le> length (dbFields d)"
    "\<forall>i < j. enabled (indexes d ! i) \<longrightarrow> index_fresh (fieldType (dbFields d ! i)) i (db_rows d) (indexes d ! i)"
  shows "\<exists>ixs. run_fold rebuild_step [j..<length (dbFields d)] d = Some (d\<lparr>indexes := ixs\<rparr>) \<and>
           db_wf (d\<lparr>indexes := ixs\<rparr>) \<and> map enabled ixs = map enabled (indexes d)"
  using assms
proof (induction "length (dbFields d) - j" arbitrary: d j)
  case 0
  then have "run_fold rebuild_step [j..<length (dbFields d)] d = Some (d\<lparr>indexes := indexes d\<rparr>)" by simp
  moreover have "db_wf (d\<lparr>indexes := indexes d\<rparr>)"
    using 0 by (simp add: db_wf_def indexes_fresh_def db_safeD)
  ultimately show ?case by blast
next
  case (Suc m)
  then have j: "j < length (dbFields d)" and len: "length (indexes d) = length (dbFields d)"
    by (simp_all add: db_safeD)
  show ?case
  proof (cases "enabled (indexes d ! j)")
    case False
    have "m = length (dbFields d) - Suc j" using Suc.hyps(2) by simp
    with Suc.hyps(1) [of d "Suc j"] Suc.prems j False
    show ?thesis using j len by (auto simp: upt_conv_Cons less_Suc_eq rebuild_step_def)
  next
    case True
    obtain ix where r: "rebuild_single_index d j = Some (0, d\<lparr>indexes := (indexes d)[j := ix]\<rparr>)"
      "enabled ix" "index_fresh (fieldType (dbFields d ! j)) j (db_rows d) ix"
      using rebuild_single_index_ok [OF Suc.prems(1) j] by blast
    let ?d = "d\<lparr>indexes := (indexes d)[j := ix]\<rparr>"
    have "\<exists>ixs. run_fold rebuild_step [Suc j..<length (dbFields ?d)] ?d = Some (?d\<lparr>indexes := ixs\<rparr>) \<and>
        db_wf (?d\<lparr>indexes := ixs\<rparr>) \<and> map enabled ixs = map enabled (indexes ?d)"
    proof (rule Suc.hyps(1))
      show "m = length (dbFields ?d) - Suc j" using Suc.hyps(2) by simp
      show "db_safe ?d" by (rule rebuild_single_index_safe [OF Suc.prems(1) r(3)])
      show "Suc j \<le> length (dbFields ?d)" using j by simp
      show "\<forall>i < Suc j. enabled (indexes ?d ! i) \<longrightarrow>
          index_fresh (fieldType (dbFields ?d ! i)) i (db_rows ?d) (indexes ?d ! i)"
        using Suc.prems(3) r(3) j len by (auto simp: less_Suc_eq)
    qed
    moreover have "map enabled ((indexes d)[j := ix]) = map enabled (indexes d)"
      using True r(2) j len by (intro nth_equalityI) (auto simp: nth_list_update)
    ultimately show ?thesis using True r j len by (simp add: upt_conv_Cons rebuild_step_def)
  qed
qed

lemma rebuild_enabled_indexes_ok:
  assumes "db_safe db"
  shows "\<exists>ixs. rebuild_enabled_indexes db = Some (db\<lparr>indexes := ixs\<rparr>) \<and> db_wf (db\<lparr>indexes := ixs\<rparr>) \<and>
           map enabled ixs = map enabled (indexes db)"
  using rebuild_loop [OF assms, of 0] by (simp add: rebuild_enabled_indexes_def)

subsection \<open>The abstract table\<close>

record ARow =
  a_vals :: "AbsVal list"
  a_created :: ctime
  a_updated :: ctime

record Table =
  t_name :: string
  t_fields :: "Field list"
  t_rows :: "cint \<Rightarrow> ARow option"
  t_count :: int
  t_next :: cint

definition abs_row :: "Field list \<Rightarrow> Row \<Rightarrow> ARow" where
  "abs_row fs r = \<lparr>a_vals = abs_vals (tl fs) (tl (rvalues r)), a_created = created_at r, a_updated = updated_at r\<rparr>"

definition abs_db :: "DB \<Rightarrow> Table" where
  "abs_db db = \<lparr>t_name = dbName db, t_fields = tl (dbFields db),
     t_rows = (\<lambda>k. map_option (abs_row (dbFields db)) (find_row db k)),
     t_count = rowsCount db, t_next = nextKey db\<rparr>"

definition spec_add :: "ctime \<Rightarrow> Table \<Rightarrow> cint \<Rightarrow> AbsVal list \<Rightarrow> int \<times> Table" where
  "spec_add now t key vs =
    (if t_count t \<ge> MAX_ROW_CAPACITY then (-3, t)
     else let k = (if 0 \<le> sint key then key else t_next t);
              n = word_of_int (max (sint (t_next t)) (sint k + 1))
          in if t_rows t k \<noteq> None then (-5, t\<lparr>t_next := n\<rparr>)
             else (0, t\<lparr>t_next := n, t_count := t_count t + 1,
                       t_rows := (t_rows t)(k \<mapsto> \<lparr>a_vals = vs, a_created = now, a_updated = now\<rparr>)\<rparr>))"

text \<open>The code's choice of a key is the one the specification asks for.\<close>

lemma choose_key_spec:
  "choose_key n key =
    (let k = (if 0 \<le> sint key then key else n) in (k, word_of_int (max (sint n) (sint k + 1))))"
proof -
  have "word_of_int (sint key + 1) = n" if "sint n = sint key + 1" unfolding that [symmetric] by (simp add: scast_id)
  then show ?thesis by (auto simp: choose_key_def Let_def max_def wi_hom_succ [symmetric])
qed

lemma spec_add_eq:
  "spec_add now t key vs =
    (if t_count t \<ge> MAX_ROW_CAPACITY then (-3, t)
     else let (k, n) = choose_key (t_next t) key
          in if t_rows t k \<noteq> None then (-5, t\<lparr>t_next := n\<rparr>)
             else (0, t\<lparr>t_next := n, t_count := t_count t + 1,
                       t_rows := (t_rows t)(k \<mapsto> \<lparr>a_vals = vs, a_created = now, a_updated = now\<rparr>)\<rparr>))"
  by (simp add: spec_add_def choose_key_spec Let_def)

definition spec_delete :: "Table \<Rightarrow> cint \<Rightarrow> int \<times> Table" where
  "spec_delete t key =
    (if t_rows t key = None then (-2, t)
     else (0, t\<lparr>t_count := t_count t - 1, t_rows := (t_rows t)(key := None)\<rparr>))"

text \<open>What an update asks of one field, and of a row: the fields before a failing one are written.\<close>

datatype Upd = Keep | Replace AbsVal | Append AbsVal

definition spec_field :: "AbsVal \<Rightarrow> Upd \<Rightarrow> int \<times> AbsVal" where
  "spec_field a u =
    (case u of
       Keep \<Rightarrow> (0, a)
     | Replace b \<Rightarrow> (0, b)
     | Append e \<Rightarrow>
         (case a of
            A_array es \<Rightarrow> if length es \<ge> MAX_ARRAY_LENGTH then (-5, a) else (0, A_array (es @ [e]))
          | _ \<Rightarrow> (0, a)))"

fun spec_fields :: "AbsVal list \<Rightarrow> Upd list \<Rightarrow> int \<times> AbsVal list" where
  "spec_fields (a # as) (u # us) =
     (case spec_field a u of (rc, a') \<Rightarrow>
        if rc \<noteq> 0 then (rc, a # as)
        else case spec_fields as us of (rc', as') \<Rightarrow> (rc', a' # as'))"
| "spec_fields as us = (0, as)"

definition spec_update :: "ctime \<Rightarrow> Table \<Rightarrow> cint \<Rightarrow> Upd list \<Rightarrow> int \<times> Table" where
  "spec_update now t key us =
    (case t_rows t key of
       None \<Rightarrow> (-3, t)
     | Some r \<Rightarrow>
         (case spec_fields (a_vals r) us of (rc, vs) \<Rightarrow>
            if rc \<noteq> 0 then (rc, t\<lparr>t_rows := (t_rows t)(key \<mapsto> r\<lparr>a_vals := vs\<rparr>)\<rparr>)
            else (0, t\<lparr>t_rows := (t_rows t)(key \<mapsto> r\<lparr>a_vals := vs, a_updated := now\<rparr>)\<rparr>)))"

definition abs_upd :: "FieldType \<Rightarrow> bool \<Rightarrow> Data \<Rightarrow> Upd" where
  "abs_upd t ig v =
    (if ig then Keep
     else case append_request t v of
            Some (Some e) \<Rightarrow> Append (abs_scalar (array_elem_type t) e)
          | _ \<Rightarrow> Replace (abs_val t v))"

fun abs_upds :: "Field list \<Rightarrow> bool list \<Rightarrow> Data list \<Rightarrow> Upd list" where
  "abs_upds (f # fs) (g # gs) (v # vs) = abs_upd (fieldType f) g v # abs_upds fs gs vs"
| "abs_upds _ _ _ = []"

text \<open>Every field is either left alone or given a value that fits it.\<close>

fun upd_ok :: "Field list \<Rightarrow> bool list \<Rightarrow> Data list \<Rightarrow> bool" where
  "upd_ok [] [] [] = True"
| "upd_ok (f # fs) (g # gs) (v # vs) = ((g \<or> data_ok (fieldType f) v) \<and> upd_ok fs gs vs)"
| "upd_ok _ _ _ = False"

subsection \<open>Adding and deleting rows\<close>

lemma row_ok_new_row:
  "row_ok fs vs \<Longrightarrow> row_ok (key_field # fs) (rvalues (new_row now k vs)) \<and> keyed k (new_row now k vs)"
  by (simp add: row_ok_def new_row_def keyed_def key_field_def data_ok_def scalar_ok_def)

lemma abs_new_row: "abs_row (key_field # fs) (new_row now k vs) = \<lparr>a_vals = abs_vals fs vs, a_created = now, a_updated = now\<rparr>"
  by (simp add: abs_row_def new_row_def)

lemma db_safe_insert:
  assumes "db_safe db" "find_row db k = None" "row_ok (dbFields db) (rvalues r)" "keyed k r"
    "rowsCount db < MAX_ROW_CAPACITY"
  shows "db_safe (db\<lparr>rowMap := snd (row_hashmap_insert (rowMap db) k r c), rowsCount := rowsCount db + 1, nextKey := n\<rparr>)"
  using assms
  by (auto simp: db_safe_def find_row_def hm.ins_invar hm.nodes_ins_set hm.nodes_ins_length)

lemma db_add_row_refines:
  assumes safe: "db_safe db" and vs: "row_ok (tl (dbFields db)) vs"
  shows "\<exists>rc db'. db_add_row now db key vs = Some (rc, db') \<and>
           (rc, abs_db db') = spec_add now (abs_db db) key (abs_vals (tl (dbFields db)) vs) \<and>
           db_safe db' \<and> (db_wf db \<longrightarrow> db_wf db')"
proof -
  obtain fs where fs: "dbFields db = key_field # fs" using safe by (auto simp: db_safe_def)
  obtain k n where kn: "choose_key (nextKey db) key = (k, n)" by fastforce
  have len: "int (length vs) = int (length (dbFields db)) - 1"
    using vs fs by (simp add: row_ok_def list_all2_lengthD)
  consider "rowsCount db \<ge> MAX_ROW_CAPACITY" | "rowsCount db < MAX_ROW_CAPACITY" "find_row db k \<noteq> None"
    | "rowsCount db < MAX_ROW_CAPACITY" "find_row db k = None" by fastforce
  then show ?thesis
  proof cases
    case 1
    with safe len show ?thesis by (auto simp: db_add_row_def spec_add_eq abs_db_def)
  next
    case 2
    have "db_safe (db\<lparr>nextKey := n\<rparr>)" "db_wf db \<longrightarrow> db_wf (db\<lparr>nextKey := n\<rparr>)"
      using safe by (auto simp: db_safe_def db_wf_def indexes_fresh_def db_rows_def)
    with 2 len kn show ?thesis
      by (auto simp: db_add_row_def spec_add_eq abs_db_def find_row_def Let_def fun_eq_iff)
  next
    case 3
    let ?r = "new_row now k vs"
    have m: "hm_wf (rowMap db)" "row_hashmap_find (rowMap db) k = None"
      using safe 3 by (simp_all add: db_safeD find_row_def)
    obtain m where ins: "row_hashmap_insert (rowMap db) k ?r (rowsCount db + 1) = (0, m)"
      using row_hashmap_insert_props [OF m] by (metis prod.collapse)
    then have m': "m = snd (row_hashmap_insert (rowMap db) k ?r (rowsCount db + 1))" by simp
    let ?d = "db\<lparr>rowMap := m, rowsCount := rowsCount db + 1, nextKey := n\<rparr>"
    have d: "db_safe ?d"
      using 3 safe vs fs row_ok_new_row [of fs vs now k] unfolding m' by (intro db_safe_insert) auto
    then obtain ixs where ixs: "rebuild_enabled_indexes ?d = Some (?d\<lparr>indexes := ixs\<rparr>)" "db_wf (?d\<lparr>indexes := ixs\<rparr>)"
      using rebuild_enabled_indexes_ok by blast
    have eq: "db\<lparr>nextKey := n, rowMap := m, rowsCount := rowsCount db + 1\<rparr> = ?d" by simp
    have run: "db_add_row now db key vs = Some (0, ?d\<lparr>indexes := ixs\<rparr>)"
      using 3 len kn ins ixs(1) by (simp add: db_add_row_def find_row_def eq)
    have "t_rows (abs_db (?d\<lparr>indexes := ixs\<rparr>)) = (t_rows (abs_db db))(k \<mapsto> abs_row (dbFields db) ?r)"
      using m unfolding m' by (simp add: abs_db_def find_row_def hm.find_ins fun_eq_iff)
    with 3 kn fs have "(0, abs_db (?d\<lparr>indexes := ixs\<rparr>)) =
        spec_add now (abs_db db) key (abs_vals (tl (dbFields db)) vs)"
      by (simp add: spec_add_eq abs_db_def abs_new_row)
    with run ixs(2) show ?thesis by (auto simp: db_wf_def)
  qed
qed

lemma db_delete_row_refines:
  assumes safe: "db_safe db"
  shows "\<exists>rc db'. db_delete_row db key = Some (rc, db') \<and> (rc, abs_db db') = spec_delete (abs_db db) key \<and>
           db_safe db' \<and> (db_wf db \<longrightarrow> db_wf db')"
proof (cases "row_hashmap_remove (rowMap db) key")
  case None
  then have "find_row db key = None"
    using safe by (simp add: find_row_def db_safeD hm.rem_None)
  with None safe show ?thesis by (simp add: db_delete_row_def spec_delete_def abs_db_def)
next
  case (Some rm)
  then obtain r m where rm: "row_hashmap_remove (rowMap db) key = Some (r, m)" by (cases rm) auto
  have wf: "hm_wf (rowMap db)" using safe by (rule db_safeD)
  note R = hm.rem_Some [OF wf rm] hm.nodes_rem_set [OF wf rm] hm.nodes_rem_length [OF wf rm]
  let ?d = "db\<lparr>rowMap := m, rowsCount := rowsCount db - 1\<rparr>"
  have d: "db_safe ?d"
    using safe R by (auto simp: db_safe_def)
  then obtain ixs where ixs: "rebuild_enabled_indexes ?d = Some (?d\<lparr>indexes := ixs\<rparr>)" "db_wf (?d\<lparr>indexes := ixs\<rparr>)"
    using rebuild_enabled_indexes_ok by blast
  have "(key, r) \<in> set (hm_nodes (rowMap db))" using R(1) wf by (simp add: hm.find_in_nodes)
  then have "free_row_values db r = Some ()"
    using db_safe_node(1) [OF safe] by (simp add: free_row_values_def free_values_ok)
  with rm ixs(1) have "db_delete_row db key = Some (0, ?d\<lparr>indexes := ixs\<rparr>)"
    by (simp add: db_delete_row_def)
  moreover have "(0, abs_db (?d\<lparr>indexes := ixs\<rparr>)) = spec_delete (abs_db db) key"
    using R(1) hm.find_rem [OF wf rm] by (simp add: spec_delete_def abs_db_def find_row_def fun_eq_iff)
  ultimately show ?thesis using ixs(2) by (auto simp: db_wf_def)
qed

subsection \<open>Updating a row\<close>

lemma abs_vals_Cons [simp]: "abs_vals (f # fs) (v # vs) = abs_val (fieldType f) v # abs_vals fs vs"
  by (simp add: abs_vals_def)

lemma append_request_ok:
  assumes "data_ok t v"
  shows "\<exists>req. append_request t v = Some req \<and>
           (case req of None \<Rightarrow> True | Some e \<Rightarrow> is_array_type t \<and> scalar_ok (array_elem_type t) e)"
  using assms
  by (cases "is_array_type t")
    (auto simp: append_request_def data_ok_def array_ok_def split: option.splits ArrayData.splits)

lemma array_ok_list:
  assumes "data_ok t v" "is_array_type t"
  obtains a where "read_a (dvalue v) = Some a" "list_all (scalar_ok (array_elem_type t)) (arr_list a)"
    "abs_val t v = A_array (map (abs_scalar (array_elem_type t)) (arr_list a))"
  using assms
  by (auto simp: data_ok_def array_ok_def arr_list_def abs_val_def split: option.splits ArrayData.splits)

lemma update_field_append:
  assumes old: "data_ok t old" and req: "append_request t new = Some (Some e)"
    and e: "is_array_type t" "scalar_ok (array_elem_type t) e"
  shows "\<exists>rc v. update_field t old new = Some (rc, v) \<and> data_ok t v \<and>
           (rc, abs_val t v) = spec_field (abs_val t old) (Append (abs_scalar (array_elem_type t) e))"
proof -
  let ?et = "array_elem_type t"
  obtain a where a: "read_a (dvalue old) = Some a" "list_all (scalar_ok ?et) (arr_list a)"
    "abs_val t old = A_array (map (abs_scalar ?et) (arr_list a))"
    using array_ok_list [OF old e(1)] .
  obtain es' where es': "run_map (clone_scalar ?et) (arr_list a) = Some es'" "list_all (scalar_ok ?et) es'"
    "map (abs_scalar ?et) es' = map (abs_scalar ?et) (arr_list a)" "length es' = length (arr_list a)"
    using run_map_clone_scalar [OF a(2)] by blast
  obtain e' where e': "clone_scalar ?et e = Some e'" "scalar_ok ?et e'" "abs_scalar ?et e' = abs_scalar ?et e"
    using clone_scalar_ok [OF e(2)] by blast
  have run: "update_field t old new =
      (if length (arr_list a) \<ge> MAX_ARRAY_LENGTH then Some (-5, old)
       else Some (0, Data (dsize new) (U_a (Some (Elements (es' @ [e']))))))"
    using a req es' e' free_data_value_ok [OF old]
    by (simp add: update_field_def arr_list_def [symmetric] Let_def)
  show ?thesis
    using run a old es' e' e
    by (auto simp: spec_field_def data_ok_def array_ok_def abs_val_def arr_list_def split: if_splits)
qed

lemma update_field_refines:
  assumes old: "data_ok t old" and new: "data_ok t new"
  shows "\<exists>rc v. update_field t old new = Some (rc, v) \<and> data_ok t v \<and>
           (rc, abs_val t v) = spec_field (abs_val t old) (abs_upd t False new)"
proof -
  obtain req where req: "append_request t new = Some req"
    "case req of None \<Rightarrow> True | Some e \<Rightarrow> is_array_type t \<and> scalar_ok (array_elem_type t) e"
    using append_request_ok [OF new] by blast
  show ?thesis
  proof (cases req)
    case None
    with req clone_data_value_ok [OF new] free_data_value_ok [OF old] show ?thesis
      by (auto simp: update_field_def abs_upd_def spec_field_def)
  next
    case (Some e)
    with req update_field_append [OF old, of new e] show ?thesis by (simp add: abs_upd_def)
  qed
qed

lemma update_fields_refines:
  assumes "row_ok fs rs" "upd_ok fs gs vs"
  shows "\<exists>rc rs'. update_fields fs rs gs vs = Some (rc, rs') \<and> row_ok fs rs' \<and>
           (rc, abs_vals fs rs') = spec_fields (abs_vals fs rs) (abs_upds fs gs vs)"
  using assms
proof (induction fs rs gs vs rule: update_fields.induct)
  case (2 f fs r rs g gs v vs)
  let ?t = "fieldType f"
  have ok: "data_ok ?t r" "row_ok fs rs" "upd_ok fs gs vs" "\<not> g \<Longrightarrow> data_ok ?t v"
    using "2.prems" by (auto simp: row_ok_def)
  have rok: "row_ok (f # fs) (x # xs) \<longleftrightarrow> data_ok ?t x \<and> row_ok fs xs" for x xs
    by (simp add: row_ok_def)
  show ?case
  proof (cases g)
    case True
    with "2.IH"(1) ok obtain rc rs' where "update_fields fs rs gs vs = Some (rc, rs')" "row_ok fs rs'"
      "(rc, abs_vals fs rs') = spec_fields (abs_vals fs rs) (abs_upds fs gs vs)" by blast
    with True ok show ?thesis by (auto simp: abs_upd_def spec_field_def rok split: prod.splits)
  next
    case False
    obtain rc x where x: "update_field ?t r v = Some (rc, x)" "data_ok ?t x"
      "spec_field (abs_val ?t r) (abs_upd ?t False v) = (rc, abs_val ?t x)"
      using update_field_refines [OF ok(1)] ok(4) False by metis
    show ?thesis
    proof (cases "rc = 0")
      case True
      with "2.IH"(2) [OF False x(1) refl] ok obtain rc' rs' where
        "update_fields fs rs gs vs = Some (rc', rs')" "row_ok fs rs'"
        "(rc', abs_vals fs rs') = spec_fields (abs_vals fs rs) (abs_upds fs gs vs)" by blast
      with x True False show ?thesis by (auto simp: rok split: prod.splits)
    qed (use x False ok in \<open>auto simp: rok\<close>)
  qed
qed (auto simp: row_ok_def abs_vals_def)

lemma spec_fields_code: "fst (spec_fields as us) = 0 \<or> fst (spec_fields as us) = -5"
  by (induction as us rule: spec_fields.induct)
    (auto simp: spec_field_def split: Upd.splits AbsVal.splits prod.splits)

lemma index_fresh_cong:
  assumes "map rvalues rs = map rvalues rs'"
  shows "index_fresh t f rs ix = index_fresh t f rs' ix"
proof -
  have "map (index_item t f) rs = map (index_item t f) rs'"
    using assms by (induction rs rs' rule: list_induct2')
      (auto simp: index_item_def row_key_def)
  then show ?thesis by (simp add: index_fresh_def)
qed

lemma set_row_rows:
  assumes "db_safe db" "find_row db k = Some r" "rvalues r' = rvalues r"
  shows "map rvalues (db_rows (set_row db k r')) = map rvalues (db_rows db)"
proof -
  have wf: "hm_wf (rowMap db)" using assms(1) by (rule db_safeD)
  have "rvalues (snd (if fst p = k then (k, r') else p)) = rvalues (snd p)" if "p \<in> set (hm_nodes (rowMap db))" for p
    using assms that hm.keys_distinct [OF wf]
    by (cases p) (auto simp: find_row_node dest: eq_key_imp_eq_value)
  then show ?thesis
    using wf by (simp add: db_rows_def set_row_def hm.rows_nodes hm.wr_invar hm.wr_nodes)
qed

lemma set_row_safe:
  assumes "db_safe db" "find_row db k = Some r" "row_ok (dbFields db) (rvalues r')" "keyed k r'"
  shows "db_safe (set_row db k r')"
  using assms db_safeD(1) [OF assms(1)]
  by (auto simp: db_safe_def set_row_def hm.wr_invar hm.wr_nodes split: if_splits)

lemma set_row_wf:
  assumes "db_wf db" "find_row db k = Some r" "rvalues r' = rvalues r"
  shows "db_wf (set_row db k r')"
proof -
  have safe: "db_safe db" using assms(1) by (simp add: db_wf_def)
  have node: "(k, r) \<in> set (hm_nodes (rowMap db))" using assms(2) safe by (simp add: find_row_node)
  then have "db_safe (set_row db k r')"
    using safe assms db_safe_node [OF safe node] by (intro set_row_safe) (auto simp: keyed_def)
  moreover have "indexes_fresh (set_row db k r')"
    using assms(1) index_fresh_cong [OF set_row_rows [OF safe assms(2,3)]]
    by (simp add: db_wf_def indexes_fresh_def set_row_def)
  ultimately show ?thesis by (simp add: db_wf_def)
qed

lemma find_set_row:
  "db_safe db \<Longrightarrow> find_row db k = Some r \<Longrightarrow> find_row (set_row db k r') = (find_row db)(k \<mapsto> r')"
  by (auto simp: find_row_def set_row_def db_safeD hm.find_wr fun_eq_iff)

lemma set_row_fields [simp]:
  "dbName (set_row db k r) = dbName db" "dbFields (set_row db k r) = dbFields db"
  "rowsCount (set_row db k r) = rowsCount db" "nextKey (set_row db k r) = nextKey db"
  "indexes (set_row db k r) = indexes db"
  by (simp_all add: set_row_def)

lemma abs_set_row:
  "db_safe db \<Longrightarrow> find_row db k = Some r \<Longrightarrow>
   abs_db (set_row db k r') = (abs_db db)\<lparr>t_rows := (t_rows (abs_db db))(k \<mapsto> abs_row (dbFields db) r')\<rparr>"
  by (simp add: abs_db_def find_set_row fun_eq_iff)

lemma abs_db_indexes [simp]: "abs_db (db\<lparr>indexes := ixs\<rparr>) = abs_db db"
  by (simp add: abs_db_def)

definition flags_of :: "bool list option \<Rightarrow> Data list \<Rightarrow> bool list" where
  "flags_of fl vs = (case fl of None \<Rightarrow> replicate (length vs) False | Some fl \<Rightarrow> fl)"

lemma upd_ok_length: "upd_ok fs gs vs \<Longrightarrow> length vs = length fs"
  by (induction fs gs vs rule: upd_ok.induct) auto

text \<open>The two ways an update of an existing row ends.\<close>

lemma update_row_stop:
  assumes safe: "db_safe db" and row: "find_row db key = Some row" "rvalues row = k # rs"
    and spec: "spec_fields (abs_vals (tl (dbFields db)) rs) us = (rc, abs_vals (tl (dbFields db)) rs')" "rc \<noteq> 0"
  shows "(rc, abs_db (set_row db key (row\<lparr>rvalues := k # rs'\<rparr>))) = spec_update now (abs_db db) key us"
proof -
  have "t_rows (abs_db db) key = Some (abs_row (dbFields db) row)" using row by (simp add: abs_db_def)
  with row(2) spec show ?thesis
    by (simp add: spec_update_def abs_set_row [OF safe row(1)]) (simp add: abs_row_def)
qed

lemma update_row_finish:
  assumes safe: "db_safe db" and row: "find_row db key = Some row" "rvalues row = k # rs"
    and spec: "spec_fields (abs_vals (tl (dbFields db)) rs) us = (0, abs_vals (tl (dbFields db)) rs')"
    and d: "db_safe (set_row db key (row\<lparr>rvalues := k # rs'\<rparr>))"
  shows "\<exists>db2. rebuild_enabled_indexes (set_row db key (row\<lparr>rvalues := k # rs'\<rparr>)) = Some db2 \<and>
           db_wf (set_row db2 key (row\<lparr>rvalues := k # rs', updated_at := now\<rparr>)) \<and>
           (0, abs_db (set_row db2 key (row\<lparr>rvalues := k # rs', updated_at := now\<rparr>))) =
             spec_update now (abs_db db) key us"
proof -
  let ?row = "row\<lparr>rvalues := k # rs'\<rparr>"
  let ?d = "set_row db key ?row"
  obtain ixs where ixs: "rebuild_enabled_indexes ?d = Some (?d\<lparr>indexes := ixs\<rparr>)" "db_wf (?d\<lparr>indexes := ixs\<rparr>)"
    using rebuild_enabled_indexes_ok [OF d] by blast
  have f: "find_row (?d\<lparr>indexes := ixs\<rparr>) key = Some ?row" by (simp add: find_set_row [OF safe row(1)])
  have wf: "db_wf (set_row (?d\<lparr>indexes := ixs\<rparr>) key (?row\<lparr>updated_at := now\<rparr>))"
    by (rule set_row_wf [OF ixs(2) f]) simp
  have "db_safe (?d\<lparr>indexes := ixs\<rparr>)" using ixs(2) by (simp add: db_wf_def)
  note abs2 = abs_set_row [OF this f] abs_set_row [OF safe row(1)]
  have "t_rows (abs_db db) key = Some (abs_row (dbFields db) row)" using row by (simp add: abs_db_def)
  with row(2) spec have "(0, abs_db (set_row (?d\<lparr>indexes := ixs\<rparr>) key (?row\<lparr>updated_at := now\<rparr>))) =
      spec_update now (abs_db db) key us"
    by (simp add: spec_update_def abs2) (simp add: abs_row_def)
  with ixs(1) wf show ?thesis by auto
qed

text \<open>An update of a row that is there: what is written before it ends or is stopped.\<close>

lemma db_update_row_found:
  assumes safe: "db_safe db" and ok: "upd_ok (tl (dbFields db)) (flags_of fl vs) vs" and found: "find_row db key = Some row"
  obtains k rs rc rs' where "rvalues row = k # rs" "db_safe (set_row db key (row\<lparr>rvalues := k # rs'\<rparr>))"
    "read_i (dvalue k) = Some key"
    "spec_fields (abs_vals (tl (dbFields db)) rs) (abs_upds (tl (dbFields db)) (flags_of fl vs) vs) = (rc, abs_vals (tl (dbFields db)) rs')"
    "db_update_row now db key vs fl =
       (if rc \<noteq> 0 then Some (rc, set_row db key (row\<lparr>rvalues := k # rs'\<rparr>))
        else do { db2 \<leftarrow> rebuild_enabled_indexes (set_row db key (row\<lparr>rvalues := k # rs'\<rparr>));
                  Some (0, set_row db2 key (row\<lparr>rvalues := k # rs', updated_at := now\<rparr>)) })"
proof -
  obtain fs where fs: "dbFields db = key_field # fs" using safe by (auto simp: db_safe_def)
  have len: "int (length vs) = int (length (dbFields db)) - 1"
    using upd_ok_length [OF ok] fs by simp
  have "(key, row) \<in> set (hm_nodes (rowMap db))" using safe found by (simp add: find_row_node)
  from db_safe_node [OF safe this] fs obtain k rs where
    row: "rvalues row = k # rs" "row_ok fs rs" "data_ok TYPE_INT k" "read_i (dvalue k) = Some key"
    by (auto simp: row_ok_def keyed_def key_field_def list_all2_Cons1)
  have "upd_ok fs (flags_of fl vs) vs" using ok fs by simp
  from update_fields_refines [OF row(2) this] obtain rc rs' where
    u: "update_fields fs rs (flags_of fl vs) vs = Some (rc, rs')" "row_ok fs rs'"
    and spec: "spec_fields (abs_vals (tl (dbFields db)) rs) (abs_upds fs (flags_of fl vs) vs) = (rc, abs_vals (tl (dbFields db)) rs')"
    using fs by auto
  have "db_safe (set_row db key (row\<lparr>rvalues := k # rs'\<rparr>))"
    using row u(2) fs by (intro set_row_safe [OF safe found]) (auto simp: row_ok_def keyed_def key_field_def)
  with len found row(1,4) u(1) fs spec show ?thesis
    by (intro that [of k rs rs' rc]) (simp_all add: db_update_row_def flags_of_def Let_def)
qed

lemma db_update_row_refines:
  assumes safe: "db_safe db" and ok: "upd_ok (tl (dbFields db)) (flags_of fl vs) vs"
  shows "\<exists>rc db'. db_update_row now db key vs fl = Some (rc, db') \<and>
           (rc, abs_db db') =
             spec_update now (abs_db db) key (abs_upds (tl (dbFields db)) (flags_of fl vs) vs) \<and>
           db_safe db' \<and> (db_wf db \<and> rc \<noteq> -5 \<longrightarrow> db_wf db')"
proof (cases "find_row db key")
  case None
  have "int (length vs) = int (length (dbFields db)) - 1"
    using upd_ok_length [OF ok] safe by (auto simp: db_safe_def)
  with None safe show ?thesis
    by (auto simp: db_update_row_def spec_update_def abs_db_def)
next
  case (Some row)
  from safe ok Some obtain k rs rc rs' where
    r: "rvalues row = k # rs" "db_safe (set_row db key (row\<lparr>rvalues := k # rs'\<rparr>))"
    and spec: "spec_fields (abs_vals (tl (dbFields db)) rs) (abs_upds (tl (dbFields db)) (flags_of fl vs) vs) = (rc, abs_vals (tl (dbFields db)) rs')"
    and run: "db_update_row now db key vs fl =
       (if rc \<noteq> 0 then Some (rc, set_row db key (row\<lparr>rvalues := k # rs'\<rparr>))
        else do { db2 \<leftarrow> rebuild_enabled_indexes (set_row db key (row\<lparr>rvalues := k # rs'\<rparr>));
                  Some (0, set_row db2 key (row\<lparr>rvalues := k # rs', updated_at := now\<rparr>)) })"
    by (rule db_update_row_found)
  have "rc \<noteq> 0 \<Longrightarrow> rc = -5" using spec_fields_code spec by (metis fst_conv)
  with run r(2) update_row_stop [OF safe Some r(1) spec, of now] spec
    update_row_finish [OF safe Some r(1) _ r(2), of "abs_upds (tl (dbFields db)) (flags_of fl vs) vs" now]
  show ?thesis by (cases "rc = 0") (auto simp: db_wf_def)
qed

text \<open>A stopped update has written the fields before the full one, and done nothing else.\<close>

lemma db_update_row_stops:
  assumes safe: "db_safe db" and ok: "upd_ok (tl (dbFields db)) (flags_of fl vs) vs" and found: "find_row db key = Some row"
    and stop: "spec_fields (a_vals (abs_row (dbFields db) row)) (abs_upds (tl (dbFields db)) (flags_of fl vs) vs) = (-5, ws)"
  shows "\<exists>row'. db_update_row now db key vs fl = Some (-5, set_row db key row') \<and> db_safe (set_row db key row') \<and>
    abs_row (dbFields db) row' = (abs_row (dbFields db) row)\<lparr>a_vals := ws\<rparr> \<and> row_key row' = key"
proof -
  from safe ok found obtain k rs rc rs' where
    r: "rvalues row = k # rs" "db_safe (set_row db key (row\<lparr>rvalues := k # rs'\<rparr>))" "read_i (dvalue k) = Some key"
    and spec: "spec_fields (abs_vals (tl (dbFields db)) rs) (abs_upds (tl (dbFields db)) (flags_of fl vs) vs) = (rc, abs_vals (tl (dbFields db)) rs')"
    and run: "db_update_row now db key vs fl =
       (if rc \<noteq> 0 then Some (rc, set_row db key (row\<lparr>rvalues := k # rs'\<rparr>))
        else do { db2 \<leftarrow> rebuild_enabled_indexes (set_row db key (row\<lparr>rvalues := k # rs'\<rparr>));
                  Some (0, set_row db2 key (row\<lparr>rvalues := k # rs', updated_at := now\<rparr>)) })"
    by (rule db_update_row_found)
  from stop spec r(1) have "rc = -5" "abs_vals (tl (dbFields db)) rs' = ws" by (simp_all add: abs_row_def)
  with run r show ?thesis by (intro exI [of _ "row\<lparr>rvalues := k # rs'\<rparr>"]) (simp add: abs_row_def row_key_def)
qed

subsection \<open>Creating, reading, indexing, releasing a table\<close>

lemma db_create_ok:
  assumes "fs \<noteq> []"
  shows "\<exists>db. db_create name fs = Some db \<and> db_wf db \<and> keys_below db \<and> dbName db = copy_name MAX_DB_NAME_LENGTH name \<and>
           abs_db db = \<lparr>t_name = copy_name MAX_DB_NAME_LENGTH name, t_fields = fs, t_rows = (\<lambda>_. None), t_count = 0, t_next = 1\<rparr>"
proof -
  obtain m :: "Row RowHashMap" where m: "row_hashmap_create INITIAL_ROW_CAPACITY = Some m" "hm_wf m" "hm_nodes m = []"
    using row_hashmap_create_props [of INITIAL_ROW_CAPACITY] by (auto simp: INITIAL_ROW_CAPACITY_def)
  then have "row_hashmap_find m k = None" for k by (simp add: hm.find_nodes)
  with assms m show ?thesis
    by (auto simp: db_create_def db_wf_def db_safe_def indexes_fresh_def keys_below_def abs_db_def find_row_def
        empty_index_def index_typed_def MAX_ROW_CAPACITY_def nth_append simp del: replicate_Suc)
qed

lemma db_get_row_ok:
  assumes safe: "db_safe db"
  shows "\<exists>r. db_get_row db k = Some r \<and> map_option (abs_row (dbFields db)) r = t_rows (abs_db db) k \<and>
           (\<forall>x. r = Some x \<longrightarrow> row_ok (dbFields db) (rvalues x))"
proof (cases "find_row db k")
  case None
  then show ?thesis by (simp add: db_get_row_def abs_db_def)
next
  case (Some r)
  then have "(k, r) \<in> set (hm_nodes (rowMap db))" using safe by (simp add: find_row_node)
  then have ok: "row_ok (dbFields db) (rvalues r)" using db_safe_node [OF safe] by blast
  from clone_values_ok [OF this] obtain vs where
    vs: "run_map (\<lambda>(f, v). clone_data_value v (fieldType f)) (zip (dbFields db) (rvalues r)) = Some vs"
      "row_ok (dbFields db) vs" "abs_vals (dbFields db) vs = abs_vals (dbFields db) (rvalues r)" by blast
  have "length vs = length (dbFields db)" "length (rvalues r) = length (dbFields db)"
    using vs(2) ok by (auto simp: row_ok_def dest: list_all2_lengthD)
  then have "abs_vals (tl (dbFields db)) (tl vs) = abs_vals (tl (dbFields db)) (tl (rvalues r))"
    using vs(3) by (cases "dbFields db"; cases vs; cases "rvalues r") auto
  with Some vs ok show ?thesis
    by (auto simp: db_get_row_def abs_db_def abs_row_def row_ok_def dest: list_all2_lengthD)
qed

lemma db_set_row_timestamps_ok:
  assumes "db_wf db" "find_row db k = Some r"
  shows "\<exists>db'. db_set_row_timestamps db k c u = (0, db') \<and> db_wf db' \<and>
           abs_db db' = (abs_db db)\<lparr>t_rows := (t_rows (abs_db db))
             (k \<mapsto> (abs_row (dbFields db) r)\<lparr>a_created := c, a_updated := u\<rparr>)\<rparr>"
proof -
  have "db_wf (set_row db k (r\<lparr>created_at := c, updated_at := u\<rparr>))"
    by (rule set_row_wf [OF assms]) simp
  with assms show ?thesis
    by (simp add: db_set_row_timestamps_def abs_set_row db_wf_def abs_row_def)
qed

lemma db_create_index_ok:
  assumes safe: "db_safe db" and i: "i < length (dbFields db)"
  shows "\<exists>db'. db_create_index db (int i) = Some (if enabled (indexes db ! i) then -2 else 0, db') \<and>
           abs_db db' = abs_db db \<and> db_safe db' \<and> (db_wf db \<longrightarrow> db_wf db') \<and>
           db_rows db' = db_rows db \<and> dbFields db' = dbFields db \<and> enabled (indexes db' ! i)"
proof (cases "enabled (indexes db ! i)")
  case True
  with safe i show ?thesis by (simp add: db_create_index_def db_safeD)
next
  case False
  obtain ix where ix: "rebuild_single_index db i = Some (0, db\<lparr>indexes := (indexes db)[i := ix]\<rparr>)" "enabled ix"
    "index_fresh (fieldType (dbFields db ! i)) i (db_rows db) ix"
    using rebuild_single_index_ok [OF safe i] by blast
  let ?d = "db\<lparr>indexes := (indexes db)[i := ix]\<rparr>"
  have "db_safe ?d" by (rule rebuild_single_index_safe [OF safe ix(3)])
  moreover have "db_wf db \<longrightarrow> indexes_fresh ?d"
    using ix(3) i db_safeD(2) [OF safe] by (auto simp: db_wf_def indexes_fresh_def nth_list_update)
  ultimately show ?thesis
    using False ix safe i by (simp add: db_create_index_def db_safeD db_wf_def)
qed

lemma find_row_key: "db_safe db \<Longrightarrow> find_row db k = Some r \<Longrightarrow> row_key r = k"
  using db_safe_node(2) by (fastforce simp: find_row_node keyed_row_key)

lemma rows_find: "db_safe db \<Longrightarrow> r \<in> set (db_rows db) \<longleftrightarrow> find_row db (row_key r) = Some r"
proof
  assume safe: "db_safe db" and "r \<in> set (db_rows db)"
  then obtain k where k: "(k, r) \<in> set (hm_nodes (rowMap db))" by (auto simp: db_safeD)
  with db_safe_node(2) [OF safe k] safe show "find_row db (row_key r) = Some r" by (simp add: find_row_node keyed_row_key)
next
  assume "db_safe db" "find_row db (row_key r) = Some r"
  then show "r \<in> set (db_rows db)" by (force simp: find_row_node db_safeD)
qed

text \<open>
  A fresh index gives the keys of the matching rows, and keeps giving them when the rows change and it is not
  built anew.
\<close>

lemma db_index_collect_keys:
  assumes wf: "db_wf db" and i: "i < length (dbFields db)" and on: "enabled (indexes db ! i)"
    and v: "data_ok (fieldType (dbFields db ! i)) v"
    and same: "indexes db' = indexes db" "dbFields db' = dbFields db"
  shows "db_index_collect_rows db' (int i) v =
    Some (0, List.map_filter (find_row db') (map row_key
      (filter (\<lambda>r. val_eq (abs_val (fieldType (dbFields db ! i)) (rvalues r ! i))
                            (abs_val (fieldType (dbFields db ! i)) v)) (db_rows db))))"
proof -
  have safe: "db_safe db" using wf by (simp add: db_wf_def)
  let ?ix = "indexes db ! i"
  let ?P = "\<lambda>r. val_eq (abs_val (fieldType (dbFields db ! i)) (rvalues r ! i)) (abs_val (fieldType (dbFields db ! i)) v)"
  have fresh: "index_fresh (fieldType (dbFields db ! i)) i (db_rows db) ?ix"
    using wf on i db_safeD(2) [OF safe] by (simp add: db_wf_def indexes_fresh_def)
  have "distinct (map row_key (db_rows db))"
    unfolding row_keys [OF safe] using safe by (intro hm.keys_distinct db_safeD(1))
  from index_fresh_lookup [OF fresh v this] obtain b pos where
    bp: "index_bucket ?ix v = Some b" "find_index_entry ?ix v b = Some pos"
      "(case pos of None \<Rightarrow> [] | Some p \<Rightarrow> ekeys (ibuckets ?ix ! b ! p)) = map row_key (filter ?P (db_rows db))"
    by blast
  moreover have "ibucketCount ?ix \<noteq> 0" using fresh by (auto simp: index_fresh_def index_typed_def)
  ultimately show ?thesis
    unfolding bp(3) [symmetric]
    using same i on safe by (auto simp: db_index_collect_rows_def db_safeD map_filter_simps split: option.splits)
qed

lemma db_index_collect_rows_ok:
  assumes wf: "db_wf db" and i: "i < length (dbFields db)" and on: "enabled (indexes db ! i)"
    and v: "data_ok (fieldType (dbFields db ! i)) v"
  shows "db_index_collect_rows db (int i) v =
    Some (0, filter (\<lambda>r. val_eq (abs_val (fieldType (dbFields db ! i)) (rvalues r ! i))
                               (abs_val (fieldType (dbFields db ! i)) v)) (db_rows db))"
    (is "_ = Some (0, filter ?P _)")
proof -
  have safe: "db_safe db" using wf by (simp add: db_wf_def)
  have "List.map_filter (find_row db) (map row_key rs) = rs" if "set rs \<subseteq> set (db_rows db)" for rs
    using that rows_find [OF safe] by (induction rs) (auto simp: map_filter_simps)
  from this [of "filter ?P (db_rows db)"] show ?thesis
    by (simp add: db_index_collect_keys [OF wf i on v refl refl])
qed

lemma db_free_ok: "db_safe db \<Longrightarrow> db_free db = Some ()"
proof -
  assume safe: "db_safe db"
  have "run_map (\<lambda>node. free_row_values db (snd node)) (hm_nodes (rowMap db)) = Some (map (\<lambda>_. ()) (hm_nodes (rowMap db)))"
    using db_safe_node(1) [OF safe]
    by (intro run_map_Some) (fastforce simp: free_row_values_def free_values_ok)
  then have "row_hashmap_destroy (free_row_values db) (rowMap db) = Some ()"
    by (simp add: row_hashmap_destroy_def hm_nodes_def)
  moreover have "run_map clear_index (indexes db) =
      Some (map (\<lambda>ix. ix\<lparr>enabled := False, ibucketCount := 0, ibuckets := []\<rparr>) (indexes db))"
    using safe by (intro run_map_Some) (simp add: clear_index_ok db_safeD)
  ultimately show ?thesis by (simp add: db_free_def)
qed

subsection \<open>Automatic keys\<close>

lemma auto_key_free:
  assumes "keys_below db" "sint key < 0"
  shows "fst (choose_key (nextKey db) key) = nextKey db \<and> find_row db (nextKey db) = None"
  using assms by (cases "find_row db (nextKey db)") (force simp: keys_below_def choose_key_def)+

lemma choose_key_below:
  assumes "0 < sint n" "sint n < 2 ^ 31 - 1" "sint key < 2 ^ 31 - 1"
  shows "0 \<le> sint (fst (choose_key n key)) \<and> sint (fst (choose_key n key)) < sint (snd (choose_key n key)) \<and>
         sint n \<le> sint (snd (choose_key n key))"
  using assms by (auto simp: choose_key_def sint_cint_inc)

lemma keys_below_spec:
  assumes kb: "keys_below db" and n: "sint (nextKey db) < 2 ^ 31 - 1" "sint key < 2 ^ 31 - 1"
    and spec: "(rc, abs_db db') = spec_add now (abs_db db) key vs"
  shows "keys_below db'"
proof -
  note ck = choose_key_below [OF _ n]
  have rows: "find_row d k \<noteq> None \<longleftrightarrow> t_rows (abs_db d) k \<noteq> None" "nextKey d = t_next (abs_db d)" for d k
    by (simp_all add: abs_db_def)
  show ?thesis
    using kb ck spec unfolding keys_below_def rows
    by (fastforce simp: spec_add_eq split: if_splits prod.splits)
qed

subsection \<open>Properties\<close>

text \<open>A small table: a string and an array of integers.\<close>

definition demo_fields :: "Field list" where
  "demo_fields = [\<lparr>fieldName = ''name'', fieldType = TYPE_STRING\<rparr>, \<lparr>fieldName = ''tags'', fieldType = TYPE_INT_ARRAY\<rparr>]"

definition demo_db :: DB where
  "demo_db = the (db_create ''t'' demo_fields)"

definition demo_values :: "Data list" where
  "demo_values = [Data 2 (U_s (Some ''ab'')), Data (-4) (U_a (Some (Elements [Data (-2) (U_i 7)])))]"

lemma demo_db_ok:
  "db_wf demo_db" "db_safe demo_db" "keys_below demo_db" "tl (dbFields demo_db) = demo_fields" "nextKey demo_db = 1"
  "t_rows (abs_db demo_db) = (\<lambda>_. None)" "t_count (abs_db demo_db) = 0" "t_fields (abs_db demo_db) = demo_fields"
proof -
  obtain db where db: "db_create ''t'' demo_fields = Some db" "db_wf db" "keys_below db"
    "abs_db db = \<lparr>t_name = copy_name MAX_DB_NAME_LENGTH ''t'', t_fields = demo_fields, t_rows = (\<lambda>_. None), t_count = 0, t_next = 1\<rparr>"
    using db_create_ok [of demo_fields "''t''"] by (auto simp: demo_fields_def)
  then have d: "demo_db = db" by (simp add: demo_db_def)
  show "db_wf demo_db" "db_safe demo_db" "keys_below demo_db" using db by (simp_all add: d db_wf_def)
  show "tl (dbFields demo_db) = demo_fields" "nextKey demo_db = 1" "t_rows (abs_db demo_db) = (\<lambda>_. None)"
    "t_count (abs_db demo_db) = 0" "t_fields (abs_db demo_db) = demo_fields"
    using db(4) by (auto simp: d abs_db_def)
qed

lemma demo_values_ok: "row_ok (tl (dbFields demo_db)) demo_values"
  by (simp add: demo_db_ok demo_fields_def demo_values_def row_ok_def data_ok_def scalar_ok_def array_ok_def limits)

text \<open>The same table with one row, under key 7.\<close>

definition demo_db1 :: DB where
  "demo_db1 = snd (the (db_add_row 100 demo_db 7 demo_values))"

lemma demo_db1_ok:
  "db_wf demo_db1" "db_safe demo_db1" "tl (dbFields demo_db1) = demo_fields"
  "t_rows (abs_db demo_db1) = [7 \<mapsto> \<lparr>a_vals = [A_string (Some ''ab''), A_array [A_int 7]], a_created = 100, a_updated = 100\<rparr>]"
  "t_count (abs_db demo_db1) = 1" "t_next (abs_db demo_db1) = 8"
proof -
  obtain rc db where db: "db_add_row 100 demo_db 7 demo_values = Some (rc, db)"
    "(rc, abs_db db) = spec_add 100 (abs_db demo_db) 7 (abs_vals (tl (dbFields demo_db)) demo_values)" "db_wf db"
    using db_add_row_refines [OF demo_db_ok(2) demo_values_ok, of 100 7] demo_db_ok(1) by blast
  then have d: "demo_db1 = db" by (simp add: demo_db1_def)
  have vals: "abs_vals demo_fields demo_values = [A_string (Some ''ab''), A_array [A_int 7]]"
    by (simp add: demo_db_ok demo_fields_def demo_values_def abs_vals_def abs_val_def abs_scalar_def arr_list_def)
  have n: "t_next (abs_db demo_db) = 1" by (simp add: abs_db_def demo_db_ok)
  have a: "abs_db db = (abs_db demo_db)\<lparr>t_next := 8, t_count := 1,
      t_rows := [7 \<mapsto> \<lparr>a_vals = [A_string (Some ''ab''), A_array [A_int 7]], a_created = 100, a_updated = 100\<rparr>]\<rparr>"
    using db(2) by (simp add: spec_add_eq choose_key_def demo_db_ok n vals MAX_ROW_CAPACITY_def)
  show "t_rows (abs_db demo_db1) = [7 \<mapsto> \<lparr>a_vals = [A_string (Some ''ab''), A_array [A_int 7]], a_created = 100, a_updated = 100\<rparr>]"
    "t_count (abs_db demo_db1) = 1" "t_next (abs_db demo_db1) = 8" by (simp_all add: d a)
  show "db_wf demo_db1" "db_safe demo_db1" using db(3) by (simp_all add: d db_wf_def)
  have "t_fields (abs_db demo_db1) = demo_fields" by (simp add: d a demo_db_ok)
  then show "tl (dbFields demo_db1) = demo_fields" by (simp add: abs_db_def)
qed

text \<open>
  C12. Adding a row of values that fit the fields never runs into undefined behaviour and does to the
  abstract table what the specification says: it is refused with -3 when the table is full and with
  -5 when the key is in use (the key counter then has moved all the same), and otherwise stores the
  values under the chosen key: the one asked for, or the counter's when that is negative, and the counter
  is moved past it. Hash map, row count and all indexes stay consistent.
\<close>

theorem db_add_row_refinement:
  assumes "db_safe db" "row_ok (tl (dbFields db)) vs"
  shows "\<exists>rc db'. db_add_row now db key vs = Some (rc, db') \<and>
    (rc, abs_db db') = spec_add now (abs_db db) key (abs_vals (tl (dbFields db)) vs) \<and>
    db_safe db' \<and> (db_wf db \<longrightarrow> db_wf db')"
  by (rule db_add_row_refines [OF assms])

theorem db_add_row_refinement_witness:
  "db_safe demo_db \<and> row_ok (tl (dbFields demo_db)) demo_values \<and>
   (\<exists>db'. db_add_row 100 demo_db (-1) demo_values = Some (0, db') \<and> db_wf db' \<and> t_next (abs_db db') = 2 \<and>
      t_rows (abs_db db') 1 \<noteq> None)"
proof -
  from db_add_row_refinement [OF demo_db_ok(2) demo_values_ok, of 100 "-1"] demo_db_ok(1)
  obtain rc db' where r: "db_add_row 100 demo_db (-1) demo_values = Some (rc, db')" "db_wf db'"
    "(rc, abs_db db') = spec_add 100 (abs_db demo_db) (-1) (abs_vals (tl (dbFields demo_db)) demo_values)" by blast
  have "t_next (abs_db demo_db) = 1" by (simp add: abs_db_def demo_db_ok)
  with r show ?thesis
    using demo_db_ok(2) demo_values_ok by (auto simp: spec_add_eq choose_key_def demo_db_ok MAX_ROW_CAPACITY_def)
qed

text \<open>
  C13. Updating a row with values that fit (or are to be ignored) is defined and follows the
  specification field by field: a field is kept, replaced, or has one element appended; the first
  array that is already full stops the update with -5. The indexes are consistent afterwards unless
  the result is -5.
\<close>

theorem db_update_row_refinement:
  assumes "db_safe db" "upd_ok (tl (dbFields db)) (flags_of fl vs) vs"
  shows "\<exists>rc db'. db_update_row now db key vs fl = Some (rc, db') \<and>
    (rc, abs_db db') = spec_update now (abs_db db) key (abs_upds (tl (dbFields db)) (flags_of fl vs) vs) \<and>
    db_safe db' \<and> (db_wf db \<and> rc \<noteq> -5 \<longrightarrow> db_wf db')"
  by (rule db_update_row_refines [OF assms])

lemma demo_updates_ok: "upd_ok (tl (dbFields demo_db1)) (flags_of (Some [True, False]) demo_values) demo_values"
  using demo_values_ok by (simp add: demo_db_ok demo_db1_ok flags_of_def demo_values_def demo_fields_def row_ok_def)

theorem db_update_row_refinement_witness:
  "db_safe demo_db1 \<and> upd_ok (tl (dbFields demo_db1)) (flags_of (Some [True, False]) demo_values) demo_values \<and>
   (\<exists>db'. db_update_row 200 demo_db1 7 demo_values (Some [True, False]) = Some (0, db') \<and> db_wf db' \<and>
      map_option a_updated (t_rows (abs_db db') 7) = Some 200)"
proof -
  from db_update_row_refinement [OF demo_db1_ok(2) demo_updates_ok, of 200 7]
  obtain rc db' where r: "db_update_row 200 demo_db1 7 demo_values (Some [True, False]) = Some (rc, db')"
    "db_wf demo_db1 \<and> rc \<noteq> -5 \<longrightarrow> db_wf db'"
    "(rc, abs_db db') = spec_update 200 (abs_db demo_db1) 7
       (abs_upds (tl (dbFields demo_db1)) (flags_of (Some [True, False]) demo_values) demo_values)" by blast
  moreover have "abs_upds (tl (dbFields demo_db1)) (flags_of (Some [True, False]) demo_values) demo_values =
      [Keep, Replace (A_array [A_int 7])]"
    by (simp add: demo_db1_ok demo_fields_def demo_values_def flags_of_def abs_upd_def append_request_def
        abs_val_def abs_scalar_def arr_list_def)
  ultimately show ?thesis
    using demo_db1_ok demo_updates_ok by (simp add: spec_update_def spec_field_def)
qed

text \<open>
  Deleting removes the row of the key and nothing else, or fails with -2 when there is none; the
  removed row can be released, and all indexes stay consistent.
\<close>

theorem db_delete_row_refinement:
  assumes "db_safe db"
  shows "\<exists>rc db'. db_delete_row db key = Some (rc, db') \<and> (rc, abs_db db') = spec_delete (abs_db db) key \<and>
    db_safe db' \<and> (db_wf db \<longrightarrow> db_wf db')"
  by (rule db_delete_row_refines [OF assms])

theorem db_delete_row_refinement_witness:
  "db_safe demo_db1 \<and> (\<exists>db'. db_delete_row demo_db1 7 = Some (0, db') \<and> db_wf db' \<and> t_rows (abs_db db') = (\<lambda>_. None))"
proof -
  from db_delete_row_refinement [OF demo_db1_ok(2), of 7] demo_db1_ok(1)
  obtain rc db' where "db_delete_row demo_db1 7 = Some (rc, db')" "db_wf db'"
    "(rc, abs_db db') = spec_delete (abs_db demo_db1) 7" by blast
  then show ?thesis using demo_db1_ok by (simp add: spec_delete_def)
qed

text \<open>
  C36. As long as the counter has not reached the largest \<open>int\<close>, an automatic key is never in use and
  the counter stays above every key, also after explicit keys.
\<close>

theorem automatic_key_is_fresh:
  assumes "keys_below db" "sint (nextKey db) < 2 ^ 31 - 1" "sint key < 2 ^ 31 - 1"
    "db_safe db" "row_ok (tl (dbFields db)) vs" "db_add_row now db key vs = Some (rc, db')"
  shows "(sint key < 0 \<longrightarrow> rc \<noteq> -5) \<and> keys_below db'"
proof
  from db_add_row_refines [OF assms(4,5), of now key] assms(6)
  have spec: "(rc, abs_db db') = spec_add now (abs_db db) key (abs_vals (tl (dbFields db)) vs)" by auto
  show "keys_below db'" by (rule keys_below_spec [OF assms(1-3) spec])
  show "sint key < 0 \<longrightarrow> rc \<noteq> -5"
    using spec auto_key_free [OF assms(1), of key]
    by (auto simp: spec_add_eq abs_db_def Let_def split: prod.splits if_splits)
qed

theorem automatic_key_is_fresh_witness:
  "keys_below demo_db \<and> (\<exists>rc db'. db_add_row 100 demo_db (-1) demo_values = Some (rc, db') \<and> rc \<noteq> -5 \<and> keys_below db')"
proof -
  from db_add_row_refines [OF demo_db_ok(2) demo_values_ok, of 100 "-1"] obtain rc db' where
    r: "db_add_row 100 demo_db (-1) demo_values = Some (rc, db')" by blast
  from automatic_key_is_fresh [OF demo_db_ok(3) _ _ demo_db_ok(2) demo_values_ok r] r demo_db_ok(3)
  show ?thesis by (simp add: demo_db_ok(5))
qed

text \<open>
  An explicit key equal to the largest \<open>int\<close> makes the key counter wrap around to the smallest
  one: the next automatic key is negative.
\<close>

theorem largest_key_wraps_counter:
  "choose_key 1 (2 ^ 31 - 1) = (2 ^ 31 - 1, 2 ^ 31) \<and> sint (snd (choose_key 1 (2 ^ 31 - 1))) = - (2 ^ 31) \<and>
   sint (fst (choose_key (2 ^ 31) (-1))) = - (2 ^ 31)"
  by (simp add: choose_key_def)

end
