(* ===== verification/Table_Format.thy ===== *)
theory Table_Format
  imports Table_Facts
begin

text \<open>
  Printing rows as a text table: the formatting functions of \<open>src/db/operations.c\<close>. Each of them
  computes the size of a heap block from the column widths and then writes the table into the block
  without any further check; here the writes are undefined when they leave the block, so that a
  defined result is a proof that they do not. The three functions that format rows repeat the same
  code for widths, size and lines, which is \<open>format_table\<close>.
\<close>

subsection \<open>Fields by name and index\<close>

fun field_pos :: "Field list \<Rightarrow> string \<Rightarrow> nat \<Rightarrow> int" where
  "field_pos [] name i = -1"
| "field_pos (f # fs) name i = (if fieldName f = name then int i else field_pos fs name (Suc i))"

definition find_field_index :: "DB \<Rightarrow> string \<Rightarrow> int" where
  "find_field_index db name = field_pos (dbFields db) name 0"

definition at_int :: "'a list \<Rightarrow> int \<Rightarrow> 'a run" where
  "at_int xs i = (if i < 0 then None else at xs (nat i))"

subsection \<open>Values as text\<close>

text \<open>A heap block of a given capacity and what has been written to it.\<close>

type_synonym block = "nat \<times> string"

definition buf_write :: "string \<Rightarrow> block \<Rightarrow> block run" where
  "buf_write s b = (case b of (cap, buf) \<Rightarrow>
     if length buf + length s \<le> cap then Some (cap, buf @ s) else None)"

definition buf_grow :: "nat \<Rightarrow> block \<Rightarrow> block" where
  "buf_grow need b = (case b of (cap, buf) \<Rightarrow>
     if length buf + need \<ge> cap then (cap * 2 + need, buf) else (cap, buf))"

text \<open>
  The capacity is an \<open>int\<close> in the code; lemma \<open>write_elems_cap\<close> bounds it by three times the length of the
  text, so that it cannot leave the range before the text has 700 million characters.
\<close>

text \<open>The terminator: one more byte has to fit, and it is not part of the string.\<close>

definition buf_end :: "block \<Rightarrow> unit run" where
  "buf_end b = (case b of (cap, buf) \<Rightarrow> if length buf < cap then Some () else None)"

definition bool_str :: "bool \<Rightarrow> string" where
  "bool_str b = (if b then ''true'' else ''false'')"

fun elem_tmp :: "FieldType \<Rightarrow> UnionVal \<Rightarrow> string run" where
  "elem_tmp TYPE_INT u = do { i \<leftarrow> read_i u; Some (snprintf_buf 64 (int_str (sint i))) }"
| "elem_tmp TYPE_DOUBLE u = do { d \<leftarrow> read_d u; Some (snprintf_buf 64 (fmt_g6 d)) }"
| "elem_tmp TYPE_BOOL u = do { b \<leftarrow> read_b u; Some (bool_str b) }"
| "elem_tmp _ u = Some ''?''"

definition write_elem :: "FieldType \<Rightarrow> Data \<Rightarrow> block \<Rightarrow> block run" where
  "write_elem elemType e b =
    (if elemType = TYPE_STRING
     then do { s \<leftarrow> read_s (dvalue e);
               let sv = (case s of None \<Rightarrow> ''NULL'' | Some s \<Rightarrow> s);
               b1 \<leftarrow> buf_write (CHR 0x22 # sv @ [CHR 0x22]) (buf_grow (length sv + 6) b);
               u \<leftarrow> buf_end b1;
               Some b1 }
     else do { tmp \<leftarrow> elem_tmp elemType (dvalue e);
               buf_write tmp (buf_grow (length tmp + 4) b) })"

fun write_elems :: "FieldType \<Rightarrow> Data list \<Rightarrow> block \<Rightarrow> block run" where
  "write_elems et [] b = Some b"
| "write_elems et (e # es) b =
     do { b1 \<leftarrow> buf_write '', '' b; b2 \<leftarrow> write_elem et e b1; write_elems et es b2 }"

lemma write_elem_cap:
  "write_elem et e (cap, buf) = Some (cap', out) \<Longrightarrow> cap' \<le> max cap (3 * (length out + 4)) \<and> length buf \<le> length out"
  by (auto simp: write_elem_def buf_write_def buf_grow_def Let_def split: if_splits bind_splits option.splits)

lemma write_elems_cap:
  "write_elems et es (cap, buf) = Some (cap', out) \<Longrightarrow> cap' \<le> max cap (3 * (length out + 4)) \<and> length buf \<le> length out"
proof (induction es arbitrary: cap buf)
  case (Cons e es)
  then obtain c1 b1 c2 b2 where "buf_write '', '' (cap, buf) = Some (c1, b1)" "write_elem et e (c1, b1) = Some (c2, b2)"
    "write_elems et es (c2, b2) = Some (cap', out)" by (auto split: bind_splits)
  with Cons.IH [of c2 b2] write_elem_cap [of et e c1 b1 c2 b2] show ?case
    by (auto simp: buf_write_def split: if_splits)
qed simp

fun print_elem_type :: "FieldType \<Rightarrow> FieldType" where
  "print_elem_type TYPE_INT_ARRAY = TYPE_INT"
| "print_elem_type TYPE_DOUBLE_ARRAY = TYPE_DOUBLE"
| "print_elem_type TYPE_BOOL_ARRAY = TYPE_BOOL"
| "print_elem_type _ = TYPE_STRING"

definition array_value_to_str :: "Data \<Rightarrow> FieldType \<Rightarrow> string run" where
  "array_value_to_str v type =
    do { a \<leftarrow> read_a (dvalue v);
         (case arr_list a of
            [] \<Rightarrow> Some ''[]''
          | e # es \<Rightarrow>
              do { b0 \<leftarrow> buf_write ''['' ((length es + 1) * 66 + 4, []);
                   b1 \<leftarrow> write_elem (print_elem_type type) e b0;
                   b2 \<leftarrow> write_elems (print_elem_type type) es b1;
                   b3 \<leftarrow> buf_write '']'' b2;
                   u \<leftarrow> buf_end b3;
                   Some (snd b3) }) }"

text \<open>The width a value asks of its column, and the text that is printed in the column.\<close>

fun value_width :: "FieldType \<Rightarrow> Data \<Rightarrow> nat run" where
  "value_width TYPE_INT v = do { i \<leftarrow> read_i (dvalue v); Some (length (snprintf_buf 256 (int_str (sint i)))) }"
| "value_width TYPE_DOUBLE v = do { d \<leftarrow> read_d (dvalue v); Some (length (snprintf_buf 256 (fmt_g6 d))) }"
| "value_width TYPE_BOOL v = do { b \<leftarrow> read_b (dvalue v); Some (if b then 4 else 5) }"
| "value_width TYPE_STRING v =
     do { s \<leftarrow> read_s (dvalue v); Some (case s of None \<Rightarrow> 4 | Some s \<Rightarrow> length s) }"
| "value_width t v = do { s \<leftarrow> array_value_to_str v t; Some (length s) }"

fun value_text :: "FieldType \<Rightarrow> Data \<Rightarrow> string run" where
  "value_text TYPE_INT v = do { i \<leftarrow> read_i (dvalue v); Some (snprintf_buf 256 (int_str (sint i))) }"
| "value_text TYPE_DOUBLE v = do { d \<leftarrow> read_d (dvalue v); Some (snprintf_buf 256 (fmt_g6 d)) }"
| "value_text TYPE_BOOL v = do { b \<leftarrow> read_b (dvalue v); Some (bool_str b) }"
| "value_text TYPE_STRING v =
     do { s \<leftarrow> read_s (dvalue v); Some (case s of None \<Rightarrow> ''NULL'' | Some s \<Rightarrow> snprintf_buf 256 s) }"
| "value_text t v = array_value_to_str v t"

definition time_text :: "ctime \<Rightarrow> string" where
  "time_text t = snprintf_buf 32 (int_str (sint t))"

subsection \<open>Lines\<close>

definition pad :: "nat \<Rightarrow> string \<Rightarrow> string" where
  "pad w s = s @ replicate (w - length s) CHR '' ''"

definition cell :: "nat \<Rightarrow> string \<Rightarrow> string" where
  "cell w s = '' '' @ pad w s @ '' |''"

definition rule_cell :: "nat \<Rightarrow> string" where
  "rule_cell w = ''-'' @ replicate w CHR ''-'' @ ''-|''"

definition build_table_header :: "DB \<Rightarrow> int list \<Rightarrow> nat list \<Rightarrow> nat \<Rightarrow> nat \<Rightarrow> string run" where
  "build_table_header db idxs widths tc_width tu_width =
    do { fs \<leftarrow> run_map (at_int (dbFields db)) idxs;
         Some (''|'' @ concat (map2 (\<lambda>f w. cell w (fieldName f)) fs widths) @
                 cell tc_width ''time_created'' @ cell tu_width ''time_updated'' @ [CHR 0x0A] @
               ''|'' @ concat (map rule_cell widths) @
                 rule_cell tc_width @ rule_cell tu_width @ [CHR 0x0A]) }"

definition row_cell :: "DB \<Rightarrow> Row \<Rightarrow> int \<Rightarrow> string run" where
  "row_cell db row i =
    do { f \<leftarrow> at_int (dbFields db) i; v \<leftarrow> at_int (rvalues row) i; value_text (fieldType f) v }"

definition build_data_row :: "DB \<Rightarrow> int list \<Rightarrow> nat list \<Rightarrow> nat \<Rightarrow> nat \<Rightarrow> Row \<Rightarrow> string run" where
  "build_data_row db idxs widths tc_width tu_width row =
    do { cells \<leftarrow> run_map (row_cell db row) idxs;
         Some (''|'' @ concat (map2 (\<lambda>s w. cell w s) cells widths) @
                 cell tc_width (time_text (created_at row)) @
                 cell tu_width (time_text (updated_at row)) @ [CHR 0x0A]) }"

subsection \<open>Tables\<close>

definition field_indices :: "DB \<Rightarrow> string list \<Rightarrow> int list" where
  "field_indices db names =
    (if names = [] then map int [0..<length (dbFields db)] else map (find_field_index db) names)"

definition cell_width :: "DB \<Rightarrow> int \<Rightarrow> Row \<Rightarrow> nat run" where
  "cell_width db i row =
    do { f \<leftarrow> at_int (dbFields db) i; v \<leftarrow> at_int (rvalues row) i; value_width (fieldType f) v }"

definition col_width :: "DB \<Rightarrow> Row list \<Rightarrow> int \<Rightarrow> nat run" where
  "col_width db rows i =
    do { f \<leftarrow> at_int (dbFields db) i;
         run_fold (\<lambda>row w. do { n \<leftarrow> cell_width db i row; Some (max w n) }) rows (length (fieldName f)) }"

definition time_width :: "string \<Rightarrow> ctime list \<Rightarrow> nat" where
  "time_width header ts = fold (\<lambda>t w. max w (length (time_text t))) ts (length header)"

definition line_width :: "nat list \<Rightarrow> nat \<Rightarrow> nat \<Rightarrow> nat" where
  "line_width widths tc_width tu_width =
    1 + sum_list (map (\<lambda>w. w + 3) widths) + (tc_width + 3) + (tu_width + 3)"

text \<open>
  The block has \<open>bufSize\<close> bytes, an \<open>int\<close> that may have wrapped around: \<open>malloc\<close> fails for a negative
  size (a huge \<open>size_t\<close>), which makes the result \<open>NULL\<close>, here the inner \<open>None\<close>; in a block of positive
  size the table and its terminator have to fit.
\<close>

definition format_table :: "DB \<Rightarrow> int list \<Rightarrow> Row list \<Rightarrow> string option run" where
  "format_table db idxs rows =
    do { widths \<leftarrow> run_map (col_width db rows) idxs;
         let tc = time_width ''time_created'' (map created_at rows);
         let tu = time_width ''time_updated'' (map updated_at rows);
         let bufSize = wrap32 ((int (line_width widths tc tu) + 1) * (2 + int (length rows)) + 1);
         if bufSize < 0 then Some None
         else do { h \<leftarrow> build_table_header db idxs widths tc tu;
                   ls \<leftarrow> run_map (build_data_row db idxs widths tc tu) rows;
                   let table = h @ concat ls;
                   if int (length table) + 1 \<le> bufSize then Some (Some table) else None } }"

definition format_row_as_table :: "DB \<Rightarrow> Row \<Rightarrow> string list \<Rightarrow> string option run" where
  "format_row_as_table db row names =
    (if names = [] \<and> dbFields db = [] then Some None
     else format_table db (field_indices db names) [row])"

text \<open>\<open>collect_rows\<close> stores the rows in an array of \<open>rowsCount\<close> slots.\<close>

definition collect_rows :: "DB \<Rightarrow> Row list run" where
  "collect_rows db =
    (if rowsCount db \<le> 0 then Some []
     else if int (length (db_rows db)) \<le> rowsCount db then Some (db_rows db) else None)"

definition no_rows :: string where
  "no_rows = ''(No rows)'' @ [CHR 0x0A]"

definition format_rows_as_table :: "DB \<Rightarrow> string list \<Rightarrow> string option run" where
  "format_rows_as_table db names =
    (if rowsCount db = 0 then Some (Some no_rows)
     else if names = [] \<and> dbFields db = [] then Some None
     else do { rows \<leftarrow> collect_rows db; format_table db (field_indices db names) rows })"

definition format_search_results :: "DB \<Rightarrow> Row list \<Rightarrow> string list \<Rightarrow> string option run" where
  "format_search_results db matchingRows names =
    (if matchingRows = [] then Some (Some no_rows)
     else if names = [] \<and> dbFields db = [] then Some None
     else format_table db (field_indices db names) matchingRows)"

subsection \<open>Arrays as text\<close>

text \<open>What is printed for a value, in terms of the value it stands for.\<close>

fun elem_text :: "AbsVal \<Rightarrow> string" where
  "elem_text (A_int i) = snprintf_buf 64 (int_str (sint i))"
| "elem_text (A_double d) = snprintf_buf 64 (fmt_g6 d)"
| "elem_text (A_bool b) = bool_str b"
| "elem_text (A_string s) = [CHR 0x22] @ (case s of None \<Rightarrow> ''NULL'' | Some s \<Rightarrow> s) @ [CHR 0x22]"
| "elem_text (A_array as) = ''?''"

fun join_text :: "string list \<Rightarrow> string" where
  "join_text [] = []"
| "join_text [s] = s"
| "join_text (s # t # ss) = s @ '', '' @ join_text (t # ss)"

fun print_val :: "AbsVal \<Rightarrow> string" where
  "print_val (A_int i) = snprintf_buf 256 (int_str (sint i))"
| "print_val (A_double d) = snprintf_buf 256 (fmt_g6 d)"
| "print_val (A_bool b) = bool_str b"
| "print_val (A_string s) = (case s of None \<Rightarrow> ''NULL'' | Some s \<Rightarrow> snprintf_buf 256 s)"
| "print_val (A_array as) = ''['' @ join_text (map elem_text as) @ '']''"

fun val_width :: "AbsVal \<Rightarrow> nat" where
  "val_width (A_string (Some s)) = length s"
| "val_width a = length (print_val a)"

lemma print_val_fits: "length (print_val a) \<le> val_width a"
  by (cases a rule: val_width.cases) (simp_all add: snprintf_buf_def)

text \<open>
  Four bytes stay free behind the text written so far: room for a separator, the closing bracket and
  the terminator. This is what the growth of the block maintains.
\<close>

definition roomy :: "block \<Rightarrow> bool" where
  "roomy b \<longleftrightarrow> length (snd b) + 4 \<le> fst b"

lemma elem_tmp_ok:
  "scalar_ok t e \<Longrightarrow> t \<noteq> TYPE_STRING \<Longrightarrow> elem_tmp t (dvalue e) = Some (elem_text (abs_scalar t e))"
  by (cases t) (auto simp: scalar_ok_def abs_scalar_def)

lemma write_elem_ok:
  assumes "scalar_ok t e" "length buf + 2 \<le> cap"
  shows "\<exists>cap'. write_elem t e (cap, buf) = Some (cap', buf @ elem_text (abs_scalar t e)) \<and>
           roomy (cap', buf @ elem_text (abs_scalar t e))"
proof (cases "t = TYPE_STRING")
  case False
  with assms show ?thesis
    by (auto simp: write_elem_def elem_tmp_ok buf_write_def buf_grow_def roomy_def)
next
  case True
  with assms obtain s where "read_s (dvalue e) = Some s" by (auto simp: scalar_ok_def)
  with True assms show ?thesis
    by (auto simp: write_elem_def buf_write_def buf_grow_def buf_end_def roomy_def abs_scalar_def Let_def)
qed

lemma write_elems_ok:
  assumes "list_all (scalar_ok t) es" "roomy (cap, buf)"
  shows "\<exists>cap'. write_elems t es (cap, buf) =
             Some (cap', buf @ concat (map (\<lambda>e. '', '' @ elem_text (abs_scalar t e)) es)) \<and>
           roomy (cap', buf @ concat (map (\<lambda>e. '', '' @ elem_text (abs_scalar t e)) es))"
  using assms
proof (induction es arbitrary: cap buf)
  case (Cons e es)
  then have "buf_write '', '' (cap, buf) = Some (cap, buf @ '', '')" "length (buf @ '', '') + 2 \<le> cap"
    by (simp_all add: buf_write_def roomy_def)
  moreover from write_elem_ok [of t e "buf @ '', ''" cap] Cons.prems calculation(2) obtain cap1
    where "write_elem t e (cap, buf @ '', '') = Some (cap1, buf @ '', '' @ elem_text (abs_scalar t e))"
      "roomy (cap1, buf @ '', '' @ elem_text (abs_scalar t e))" by auto
  moreover from Cons.IH [OF _ calculation(4)] Cons.prems obtain cap2 where
    "write_elems t es (cap1, buf @ '', '' @ elem_text (abs_scalar t e)) =
       Some (cap2, (buf @ '', '' @ elem_text (abs_scalar t e)) @ concat (map (\<lambda>e. '', '' @ elem_text (abs_scalar t e)) es))"
    "roomy (cap2, (buf @ '', '' @ elem_text (abs_scalar t e)) @ concat (map (\<lambda>e. '', '' @ elem_text (abs_scalar t e)) es))"
    by auto
  ultimately show ?case by simp
qed (simp add: roomy_def)

lemma join_text_Cons: "join_text (s # ss) = s @ concat (map (\<lambda>t. '', '' @ t) ss)"
  by (induction ss arbitrary: s) simp_all

lemma print_elem_type: "is_array_type t \<Longrightarrow> print_elem_type t = array_elem_type t"
  by (cases t) simp_all

lemma array_value_to_str_ok:
  assumes t: "is_array_type t" and v: "data_ok t v"
  shows "array_value_to_str v t = Some (print_val (abs_val t v))"
proof -
  let ?et = "array_elem_type t"
  from assms obtain a where a: "read_a (dvalue v) = Some a" and es: "list_all (scalar_ok ?et) (arr_list a)"
    by (auto simp: data_ok_def array_ok_def arr_list_def split: option.splits ArrayData.splits)
  show ?thesis
  proof (cases "arr_list a")
    case Nil
    with a t show ?thesis by (simp add: array_value_to_str_def abs_val_def)
  next
    case (Cons e es')
    with es have e: "scalar_ok ?et e" and es': "list_all (scalar_ok ?et) es'" by simp_all
    let ?cap = "(length es' + 1) * 66 + 4"
    have "buf_write ''['' (?cap, []) = Some (?cap, ''['')" by (simp add: buf_write_def)
    moreover obtain c1 where c1: "write_elem ?et e (?cap, ''['') = Some (c1, ''['' @ elem_text (abs_scalar ?et e))"
      "roomy (c1, ''['' @ elem_text (abs_scalar ?et e))"
      using write_elem_ok [OF e, of "''[''" ?cap] by auto
    moreover obtain c2 where "write_elems ?et es' (c1, ''['' @ elem_text (abs_scalar ?et e)) =
        Some (c2, ''['' @ join_text (map elem_text (map (abs_scalar ?et) (e # es'))))"
      "roomy (c2, ''['' @ join_text (map elem_text (map (abs_scalar ?et) (e # es'))))"
      using write_elems_ok [OF es' c1(2)] by (auto simp: join_text_Cons comp_def)
    ultimately show ?thesis
      using a t Cons by (simp add: array_value_to_str_def print_elem_type abs_val_def buf_write_def buf_end_def roomy_def)
  qed
qed

lemma value_text_ok [typed]: "data_ok t v \<Longrightarrow> value_text t v = Some (print_val (abs_val t v))"
  using array_value_to_str_ok [of t v]
  by (cases t) (auto simp: data_ok_def scalar_ok_def abs_val_def abs_scalar_def)

lemma value_width_ok [typed]: "data_ok t v \<Longrightarrow> value_width t v = Some (val_width (abs_val t v))"
  using array_value_to_str_ok [of t v]
  by (cases t) (auto simp: data_ok_def scalar_ok_def abs_val_def abs_scalar_def bool_str_def split: option.splits)

subsection \<open>Tables as text\<close>

definition field_val :: "DB \<Rightarrow> Row \<Rightarrow> nat \<Rightarrow> AbsVal" where
  "field_val db r i = abs_val (fieldType (dbFields db ! i)) (rvalues r ! i)"

definition spec_col_width :: "DB \<Rightarrow> Row list \<Rightarrow> nat \<Rightarrow> nat" where
  "spec_col_width db rows i =
     fold (\<lambda>r w. max w (val_width (field_val db r i))) rows (length (fieldName (dbFields db ! i)))"

definition table_line :: "nat list \<Rightarrow> string list \<Rightarrow> string" where
  "table_line ws ss = ''|'' @ concat (map2 cell ws ss) @ [CHR 0x0A]"

definition rule_line :: "nat list \<Rightarrow> string" where
  "rule_line ws = ''|'' @ concat (map rule_cell ws) @ [CHR 0x0A]"

definition spec_widths :: "DB \<Rightarrow> nat list \<Rightarrow> Row list \<Rightarrow> nat list" where
  "spec_widths db is rows = map (spec_col_width db rows) is @
     [time_width ''time_created'' (map created_at rows), time_width ''time_updated'' (map updated_at rows)]"

definition spec_row :: "DB \<Rightarrow> nat list \<Rightarrow> Row \<Rightarrow> string list" where
  "spec_row db is r = map (\<lambda>i. print_val (field_val db r i)) is @ [time_text (created_at r), time_text (updated_at r)]"

definition spec_table :: "DB \<Rightarrow> nat list \<Rightarrow> Row list \<Rightarrow> string" where
  "spec_table db is rows =
    (let ws = spec_widths db is rows in
     table_line ws (map (\<lambda>i. fieldName (dbFields db ! i)) is @ [''time_created'', ''time_updated'']) @
     rule_line ws @ concat (map (\<lambda>r. table_line ws (spec_row db is r)) rows))"

lemma fold_max_ge: "w \<le> fold (\<lambda>x w. max w (g x)) xs (w :: nat) \<and> (\<forall>x \<in> set xs. g x \<le> fold (\<lambda>x w. max w (g x)) xs w)"
proof (induction xs arbitrary: w)
  case (Cons x xs)
  from this [of "max w (g x)"] show ?case by (auto intro: order_trans [OF max.cobounded1])
qed simp

lemma length_cell: "length s \<le> w \<Longrightarrow> length (cell w s) = w + 3"
  by (simp add: cell_def pad_def)

lemma length_table_line:
  assumes "list_all2 (\<lambda>w s. length s \<le> w) ws ss"
  shows "length (table_line ws ss) = sum_list (map (\<lambda>w. w + 3) ws) + 2"
  using assms by (induction rule: list_all2_induct) (simp_all add: table_line_def length_cell)

lemma length_rule_line: "length (rule_line ws) = sum_list (map (\<lambda>w. w + 3) ws) + 2"
  by (induction ws) (simp_all add: rule_line_def rule_cell_def)

lemma spec_row_fits:
  assumes "r \<in> set rows"
  shows "list_all2 (\<lambda>w s. length s \<le> w) (spec_widths db is rows) (spec_row db is r)"
proof -
  have "length (print_val (field_val db r i)) \<le> spec_col_width db rows i" for i
    using fold_max_ge [where g = "\<lambda>r. val_width (field_val db r i)"] assms print_val_fits
    unfolding spec_col_width_def by (meson order_trans)
  moreover have "length (time_text (f r)) \<le> time_width h (map f rows)" for h and f :: "Row \<Rightarrow> ctime"
    using fold_max_ge [where g = "\<lambda>t. length (time_text t)" and xs = "map f rows"] assms
    unfolding time_width_def by simp
  ultimately show ?thesis
    by (simp add: spec_widths_def spec_row_def list_all2_append list_all2_map1 list_all2_map2 list.rel_refl)
qed

lemma spec_header_fits:
  "list_all2 (\<lambda>w s. length s \<le> w) (spec_widths db is rows)
     (map (\<lambda>i. fieldName (dbFields db ! i)) is @ [''time_created'', ''time_updated''])"
proof -
  have "length (fieldName (dbFields db ! i)) \<le> spec_col_width db rows i" for i
    using fold_max_ge [where g = "\<lambda>r. val_width (field_val db r i)"] unfolding spec_col_width_def by simp
  then have "list_all2 (\<lambda>w s. length s \<le> w) (map (spec_col_width db rows) is) (map (\<lambda>i. fieldName (dbFields db ! i)) is)"
    by (simp add: list_all2_map1 list_all2_map2 list.rel_refl)
  moreover have "length h \<le> time_width h ts" for h ts
    using fold_max_ge [where g = "\<lambda>t. length (time_text t)"] unfolding time_width_def by simp
  ultimately show ?thesis
    unfolding spec_widths_def by (intro list_all2_appendI list.rel_intros)
qed

text \<open>Every line has the width the buffer size was computed from.\<close>

definition spec_line_width :: "DB \<Rightarrow> nat list \<Rightarrow> Row list \<Rightarrow> nat" where
  "spec_line_width db is rows = sum_list (map (\<lambda>w. w + 3) (spec_widths db is rows)) + 1"

lemma length_spec_table:
  "length (spec_table db is rows) = (spec_line_width db is rows + 1) * (2 + length rows)"
proof -
  have *: "length (concat (map f rs)) = n * length rs" if "\<forall>r \<in> set rs. length (f r) = n"
    for n rs and f :: "Row \<Rightarrow> string"
    using that by (induction rs) simp_all
  have "length (concat (map (\<lambda>r. table_line (spec_widths db is rows) (spec_row db is r)) rows)) =
    (spec_line_width db is rows + 1) * length rows"
    using spec_row_fits by (intro *) (auto simp: spec_line_width_def length_table_line)
  then show ?thesis
    using length_table_line [OF spec_header_fits [of db "is" rows]]
    by (simp add: spec_table_def Let_def length_rule_line spec_line_width_def)
qed

lemma at_int_nat [simp]: "at_int xs (int i) = at xs i"
  by (simp add: at_int_def)

lemma run_map_map: "run_map f (map g xs) = run_map (\<lambda>x. f (g x)) xs"
  by (induction xs) simp_all

lemma row_ok_nth:
  "row_ok fs vs \<Longrightarrow> i < length fs \<Longrightarrow> i < length vs \<and> data_ok (fieldType (fs ! i)) (vs ! i)"
  by (auto simp: row_ok_def list_all2_conv_all_nth)

lemma cell_width_ok:
  assumes "row_ok (dbFields db) (rvalues r)" "i < length (dbFields db)"
  shows "cell_width db (int i) r = Some (val_width (field_val db r i))"
    and "row_cell db r (int i) = Some (print_val (field_val db r i))"
  using assms row_ok_nth [OF assms]
  by (simp_all add: cell_width_def row_cell_def field_val_def value_text_ok value_width_ok)

lemma col_width_ok:
  assumes "\<forall>r \<in> set rows. row_ok (dbFields db) (rvalues r)" "i < length (dbFields db)"
  shows "col_width db rows (int i) = Some (spec_col_width db rows i)"
  using assms
  by (simp add: col_width_def spec_col_width_def cell_width_ok
      run_fold_Some [where g = "\<lambda>r w. max w (val_width (field_val db r i))"])

lemma map2_append2:
  "length xs = length ys \<Longrightarrow> concat (map2 f (xs @ [a, b]) (ys @ [c, d])) = concat (map2 f xs ys) @ f a c @ f b d"
  by simp

lemma map2_swap: "map2 (\<lambda>x y. g y x) xs ys = map2 g ys xs"
  by (induction xs ys rule: list_induct2') simp_all

lemma build_table_header_ok:
  assumes "\<forall>i \<in> set is. i < length (dbFields db)" "length ws = length is"
  shows "build_table_header db (map int is) ws tc tu =
    Some (table_line (ws @ [tc, tu]) (map (\<lambda>i. fieldName (dbFields db ! i)) is @ [''time_created'', ''time_updated'']) @
          rule_line (ws @ [tc, tu]))"
proof -
  have "run_map (at_int (dbFields db)) (map int is) = Some (map (\<lambda>i. dbFields db ! i) is)"
    using assms(1) by (simp add: run_map_map run_map_Some)
  moreover have "map2 (\<lambda>f w. cell w (fieldName f)) (map (\<lambda>i. dbFields db ! i) is) ws =
    map2 cell ws (map (\<lambda>i. fieldName (dbFields db ! i)) is)"
    using assms(2) by (simp add: map2_swap [of "\<lambda>w f. cell w (fieldName f)"] list_eq_iff_nth_eq)
  ultimately show ?thesis
    using assms(2) by (simp add: build_table_header_def table_line_def rule_line_def)
qed

lemma build_data_row_ok:
  assumes "\<forall>i \<in> set is. i < length (dbFields db)" "row_ok (dbFields db) (rvalues r)" "length ws = length is"
  shows "build_data_row db (map int is) ws tc tu r = Some (table_line (ws @ [tc, tu]) (spec_row db is r))"
proof -
  have "run_map (row_cell db r) (map int is) = Some (map (\<lambda>i. print_val (field_val db r i)) is)"
    using assms(1,2) by (simp add: run_map_map run_map_Some cell_width_ok)
  then show ?thesis
    using assms(3) by (simp add: build_data_row_def table_line_def spec_row_def map2_swap [of cell])
qed

text \<open>
  The size of the block is exact: the table fits if the size has not wrapped around, and then fills
  the block up to the terminator.
\<close>

definition table_size :: "DB \<Rightarrow> nat list \<Rightarrow> Row list \<Rightarrow> int" where
  "table_size db is rows = (int (spec_line_width db is rows) + 1) * (2 + int (length rows)) + 1"

lemma length_spec_table_size: "int (length (spec_table db is rows)) + 1 = table_size db is rows"
  by (simp add: length_spec_table table_size_def algebra_simps)

lemma format_table_ok:
  assumes i: "\<forall>i \<in> set is. i < length (dbFields db)" and r: "\<forall>r \<in> set rows. row_ok (dbFields db) (rvalues r)"
  shows "format_table db (map int is) rows =
    (if wrap32 (table_size db is rows) < 0 then Some None
     else if table_size db is rows \<le> wrap32 (table_size db is rows) then Some (Some (spec_table db is rows))
     else None)"
proof -
  let ?ws = "map (spec_col_width db rows) is"
  let ?tc = "time_width ''time_created'' (map created_at rows)"
  let ?tu = "time_width ''time_updated'' (map updated_at rows)"
  have w: "run_map (col_width db rows) (map int is) = Some ?ws"
    using i r by (simp add: run_map_map run_map_Some col_width_ok)
  have ls: "run_map (build_data_row db (map int is) ?ws ?tc ?tu) rows =
      Some (map (\<lambda>r. table_line (spec_widths db is rows) (spec_row db is r)) rows)"
    using i r by (intro run_map_Some) (simp add: build_data_row_ok spec_widths_def)
  have h: "build_table_header db (map int is) ?ws ?tc ?tu =
      Some (table_line (spec_widths db is rows)
        (map (\<lambda>i. fieldName (dbFields db ! i)) is @ [''time_created'', ''time_updated'']) @
        rule_line (spec_widths db is rows))"
    using i by (simp add: build_table_header_ok spec_widths_def)
  have "line_width ?ws ?tc ?tu = spec_line_width db is rows"
    by (simp add: line_width_def spec_line_width_def spec_widths_def)
  then have size: "(int (line_width ?ws ?tc ?tu) + 1) * (2 + int (length rows)) + 1 = table_size db is rows"
    by (simp add: table_size_def)
  have t: "(table_line (spec_widths db is rows)
        (map (\<lambda>i. fieldName (dbFields db ! i)) is @ [''time_created'', ''time_updated'']) @
        rule_line (spec_widths db is rows)) @
      concat (map (\<lambda>r. table_line (spec_widths db is rows) (spec_row db is r)) rows) = spec_table db is rows"
    by (simp add: spec_table_def Let_def)
  show ?thesis
    unfolding format_table_def w h ls Option.bind.bind_lunit Let_def size t length_spec_table_size
    by (rule refl)
qed

subsection \<open>Properties\<close>

text \<open>
  C35. A table that is printed fills its buffer to the last byte: with rows that fit the fields, the
  text is the header, the rule and one line for each row, all padded to the column widths, and its
  length plus the terminator is the size computed for the buffer. The size is an \<open>int\<close>: when it wraps
  around, the result is either no table or a write past the end of the buffer.
\<close>

theorem printed_table_fills_its_buffer:
  assumes "\<forall>i \<in> set is. i < length (dbFields db)" "\<forall>r \<in> set rows. row_ok (dbFields db) (rvalues r)"
  shows "int (length (spec_table db is rows)) + 1 = table_size db is rows \<and>
    format_table db (map int is) rows =
    (if wrap32 (table_size db is rows) < 0 then Some None
     else if table_size db is rows \<le> wrap32 (table_size db is rows) then Some (Some (spec_table db is rows))
     else None)"
  using format_table_ok [OF assms] length_spec_table_size by simp

lemma demo_rows: "db_rows demo_db1 = [\<lparr>rvalues = Data 4 (U_i 7) # demo_values, created_at = 100, updated_at = 100\<rparr>]"
  by code_simp

lemma demo_rows_ok: "\<forall>r \<in> set (db_rows demo_db1). row_ok (dbFields demo_db1) (rvalues r)"
proof -
  have "dbFields demo_db1 = key_field # demo_fields" by code_simp
  moreover have "row_ok demo_fields demo_values" using demo_values_ok by (simp add: demo_db_ok)
  ultimately show ?thesis
    by (simp add: demo_rows row_ok_def key_field_def data_ok_def scalar_ok_def)
qed

theorem printed_table_fills_its_buffer_witness:
  "format_table demo_db1 (map int [0, 1]) (db_rows demo_db1) = Some (Some (spec_table demo_db1 [0, 1] (db_rows demo_db1)))"
proof -
  have i: "\<forall>i \<in> set [0, 1]. i < length (dbFields demo_db1)" by code_simp
  have "table_size demo_db1 [0, 1] (db_rows demo_db1) = 136" by code_simp
  with printed_table_fills_its_buffer [OF i demo_rows_ok] show ?thesis by (simp add: wrap32_def)
qed

text \<open>
  Printing an array never writes past the buffer it grows while printing, whatever the elements
  and their number, and gives the elements in order, separated by a comma and a blank, in brackets.
\<close>

theorem printed_array_is_in_bounds:
  assumes "is_array_type t" "data_ok t v"
  shows "array_value_to_str v t = Some (print_val (abs_val t v))"
  by (rule array_value_to_str_ok [OF assms])

theorem printed_array_is_in_bounds_witness:
  "array_value_to_str (Data (-4) (U_a (Some (Elements [Data (-2) (U_i 7), Data (-2) (U_i 8)])))) TYPE_INT_ARRAY =
    Some ''[7, 8]''"
  by (subst printed_array_is_in_bounds) code_simp+

end
