(* ===== verification/Auth.thy ===== *)
theory Auth
  imports C_Prelude
begin

text \<open>
  The key store of \<open>src/auth.c\<close>. libsodium is not part of the program: what the calls return is the
  record \<open>Sodium\<close>, an argument of the functions that make them. The array \<open>keys\<close> with its \<open>count\<close> is
  the list of the first \<open>count\<close> keys; the slots behind them are zeroed by the code and never read.
\<close>

subsection \<open>Types\<close>

definition AUTH_MAX_KEYS :: nat where "AUTH_MAX_KEYS = 64"
definition AUTH_KEY_NAME_MAX :: nat where "AUTH_KEY_NAME_MAX = 64"
definition AUTH_TOKEN_HEX_LEN :: nat where "AUTH_TOKEN_HEX_LEN = 64"
definition AUTH_TOKEN_BUF_SIZE :: nat where "AUTH_TOKEN_BUF_SIZE = AUTH_TOKEN_HEX_LEN + 1"

lemmas auth_limits = AUTH_MAX_KEYS_def AUTH_KEY_NAME_MAX_def AUTH_TOKEN_HEX_LEN_def AUTH_TOKEN_BUF_SIZE_def

text \<open>A role read from a snapshot is the byte in the file, which need not be one that the enum names.\<close>

datatype KeyRole = ROLE_READONLY | ROLE_ADMIN | ROLE_BYTE "8 word"

datatype AuthLevel = AUTH_NONE | AUTH_READONLY | AUTH_ADMIN

text \<open>The levels are ordered by their C values 0, 1, 2.\<close>

fun level_num :: "AuthLevel \<Rightarrow> nat" where
  "level_num AUTH_NONE = 0" | "level_num AUTH_READONLY = 1" | "level_num AUTH_ADMIN = 2"

instantiation AuthLevel :: linorder
begin

definition less_eq_AuthLevel :: "AuthLevel \<Rightarrow> AuthLevel \<Rightarrow> bool" where
  "less_eq_AuthLevel a b \<longleftrightarrow> level_num a \<le> level_num b"

definition less_AuthLevel :: "AuthLevel \<Rightarrow> AuthLevel \<Rightarrow> bool" where
  "less_AuthLevel a b \<longleftrightarrow> level_num a < level_num b"

instance
proof
  fix a b :: AuthLevel
  show "a \<le> b \<Longrightarrow> b \<le> a \<Longrightarrow> a = b"
    by (cases a; cases b) (simp_all add: less_eq_AuthLevel_def)
qed (auto simp: less_eq_AuthLevel_def less_AuthLevel_def)

end

record AuthKey =
  keyName :: string
  keyHash :: string
  keyRole :: KeyRole

record AuthStore =
  keys :: "AuthKey list"

text \<open>
  What libsodium returns: the hex string of fresh random bytes, the salted hash of a token (\<open>None\<close>
  when hashing fails), and whether a stored hash verifies against a token.
\<close>

record Sodium =
  random_hex :: string
  pwhash_str :: "string \<Rightarrow> string option"
  pwhash_str_verify :: "string \<Rightarrow> string \<Rightarrow> bool"

subsection \<open>Operations\<close>

definition auth_store_init :: AuthStore where
  "auth_store_init = \<lparr>keys = []\<rparr>"

definition auth_generate_token :: "Sodium \<Rightarrow> int \<times> string" where
  "auth_generate_token sod = (0, random_hex sod)"

definition auth_add_key :: "Sodium \<Rightarrow> AuthStore \<Rightarrow> string \<Rightarrow> string \<Rightarrow> KeyRole \<Rightarrow> int \<times> AuthStore" where
  "auth_add_key sod st name token role =
    (if length (keys st) \<ge> AUTH_MAX_KEYS then (-1, st)
     else if \<exists>k \<in> set (keys st). keyName k = name then (-1, st)
     else case pwhash_str sod token of
            None \<Rightarrow> (-1, st)
          | Some h \<Rightarrow>
              (0, \<lparr>keys = keys st @
                    [\<lparr>keyName = copy_name AUTH_KEY_NAME_MAX name, keyHash = h, keyRole = role\<rparr>]\<rparr>))"

fun del_first :: "AuthKey list \<Rightarrow> string \<Rightarrow> AuthKey list option" where
  "del_first [] name = None"
| "del_first (k # ks) name =
     (if keyName k = name then Some ks else map_option (\<lambda>ks'. k # ks') (del_first ks name))"

definition auth_del_key :: "AuthStore \<Rightarrow> string \<Rightarrow> int \<times> AuthStore" where
  "auth_del_key st name =
    (case del_first (keys st) name of
       None \<Rightarrow> (-1, st)
     | Some ks \<Rightarrow> (0, \<lparr>keys = ks\<rparr>))"

definition role_level :: "KeyRole \<Rightarrow> AuthLevel" where
  "role_level r = (if r = ROLE_ADMIN then AUTH_ADMIN else AUTH_READONLY)"

fun verify_keys :: "Sodium \<Rightarrow> AuthKey list \<Rightarrow> string \<Rightarrow> AuthLevel \<times> string" where
  "verify_keys sod [] token = (AUTH_NONE, [])"
| "verify_keys sod (k # ks) token =
     (if pwhash_str_verify sod (keyHash k) token
      then (role_level (keyRole k), copy_name AUTH_KEY_NAME_MAX (keyName k))
      else verify_keys sod ks token)"

definition auth_verify_ex :: "Sodium \<Rightarrow> AuthStore \<Rightarrow> string \<Rightarrow> AuthLevel \<times> string" where
  "auth_verify_ex sod st token = verify_keys sod (keys st) token"

fun verify_level :: "Sodium \<Rightarrow> AuthKey list \<Rightarrow> string \<Rightarrow> AuthLevel" where
  "verify_level sod [] token = AUTH_NONE"
| "verify_level sod (k # ks) token =
     (if pwhash_str_verify sod (keyHash k) token then role_level (keyRole k)
      else verify_level sod ks token)"

definition auth_verify :: "Sodium \<Rightarrow> AuthStore \<Rightarrow> string \<Rightarrow> AuthLevel" where
  "auth_verify sod st token = verify_level sod (keys st) token"

subsection \<open>Invariant and laws\<close>

definition auth_wf :: "AuthStore \<Rightarrow> bool" where
  "auth_wf st \<longleftrightarrow> length (keys st) \<le> AUTH_MAX_KEYS \<and> distinct (map keyName (keys st)) \<and>
     (\<forall>k \<in> set (keys st). length (keyName k) < AUTH_KEY_NAME_MAX)"

lemma auth_init_wf: "auth_wf auth_store_init"
  by (simp add: auth_wf_def auth_store_init_def)

text \<open>A name that fits the buffer is stored as it is; the parser admits no other.\<close>

lemma auth_add_key_wf:
  "auth_wf st \<Longrightarrow> length name < AUTH_KEY_NAME_MAX \<Longrightarrow> auth_wf (snd (auth_add_key sod st name token role))"
  by (auto simp: auth_add_key_def auth_wf_def split: option.splits)

lemma del_first_Some:
  "del_first ks name = Some ks' \<Longrightarrow> \<exists>k as bs. ks = as @ k # bs \<and> ks' = as @ bs \<and> keyName k = name \<and> name \<notin> keyName ` set as"
proof (induction ks arbitrary: ks')
  case (Cons k ks)
  show ?case
  proof (cases "keyName k = name")
    case True
    with Cons.prems show ?thesis by (intro exI [of _ k] exI [of _ "[]"] exI [of _ ks']) auto
  next
    case False
    with Cons obtain as j bs where "ks = as @ j # bs" "ks' = k # as @ bs" "keyName j = name" "name \<notin> keyName ` set as"
      by auto
    with False show ?thesis by (intro exI [of _ j] exI [of _ "k # as"] exI [of _ bs]) auto
  qed
qed simp

lemma del_first_None: "del_first ks name = None \<longleftrightarrow> name \<notin> keyName ` set ks"
  by (induction ks) auto

lemma auth_del_key_wf: "auth_wf st \<Longrightarrow> auth_wf (snd (auth_del_key st name))"
  by (auto simp: auth_del_key_def auth_wf_def split: option.splits dest!: del_first_Some)

lemma auth_del_key_effect:
  assumes "auth_wf st"
  shows "auth_del_key st name =
    (if name \<in> keyName ` set (keys st) then (0, \<lparr>keys = filter (\<lambda>k. keyName k \<noteq> name) (keys st)\<rparr>) else (-1, st))"
proof (cases "del_first (keys st) name")
  case None
  with del_first_None [of "keys st" name] show ?thesis by (auto simp: auth_del_key_def)
next
  case (Some ks')
  from del_first_Some [OF this] obtain k as bs
    where ks: "keys st = as @ k # bs" "ks' = as @ bs" "keyName k = name" "name \<notin> keyName ` set as"
    by (elim exE conjE) (rule that)
  with assms have "name \<notin> keyName ` set bs" by (auto simp: auth_wf_def)
  then have "filter (\<lambda>k. keyName k \<noteq> name) bs = bs" "filter (\<lambda>k. keyName k \<noteq> name) as = as"
    using ks(4) by (auto simp: filter_id_conv)
  with ks have "filter (\<lambda>k. keyName k \<noteq> name) (keys st) = as @ bs"
    by simp
  with Some ks show ?thesis by (simp add: auth_del_key_def)
qed

lemma auth_verify_ex_level: "fst (auth_verify_ex sod st token) = auth_verify sod st token"
proof -
  have "fst (verify_keys sod ks token) = verify_level sod ks token" for ks
    by (induction ks) auto
  then show ?thesis by (simp add: auth_verify_ex_def auth_verify_def)
qed

text \<open>
  What the store relies on, for the tokens that are in use: a hash verifies against the token it was made
  from and against no other of them.
\<close>

definition sodium_ok :: "Sodium \<Rightarrow> string set \<Rightarrow> bool" where
  "sodium_ok sod ts \<longleftrightarrow>
     (\<forall>t \<in> ts. \<forall>h. pwhash_str sod t = Some h \<longrightarrow> (\<forall>t' \<in> ts. pwhash_str_verify sod h t' \<longleftrightarrow> t' = t))"

lemma verify_level_append [simp]:
  "verify_level sod (ks @ ks') t =
     (if verify_level sod ks t = AUTH_NONE then verify_level sod ks' t else verify_level sod ks t)"
  by (induction ks) (auto simp: role_level_def)

lemma auth_add_key_success:
  "auth_add_key sod st name t role = (0, st') \<longleftrightarrow>
     length (keys st) < AUTH_MAX_KEYS \<and> name \<notin> keyName ` set (keys st) \<and>
     (\<exists>h. pwhash_str sod t = Some h \<and>
        st' = \<lparr>keys = keys st @ [\<lparr>keyName = copy_name AUTH_KEY_NAME_MAX name, keyHash = h, keyRole = role\<rparr>]\<rparr>)"
  by (auto simp: auth_add_key_def split: option.splits)

lemma verify_level_none: "verify_level sod ks t = AUTH_NONE \<longleftrightarrow> (\<forall>k \<in> set ks. \<not> pwhash_str_verify sod (keyHash k) t)"
  by (induction ks) (auto simp: role_level_def)

subsection \<open>Properties\<close>

text \<open>A stand-in for the password hash, on which the properties' hypotheses can be checked: a hash is the token.\<close>

definition demo_sodium :: Sodium where
  "demo_sodium = \<lparr>random_hex = ''c0ffee'', pwhash_str = Some, pwhash_str_verify = (=)\<rparr>"

definition demo_keys :: AuthStore where
  "demo_keys = \<lparr>keys = [\<lparr>keyName = ''admin'', keyHash = ''c0ffee'', keyRole = ROLE_ADMIN\<rparr>]\<rparr>"

lemma demo_keys_ok: "sodium_ok demo_sodium ts" "auth_wf demo_keys"
  by (auto simp: sodium_ok_def demo_sodium_def demo_keys_def auth_wf_def AUTH_MAX_KEYS_def AUTH_KEY_NAME_MAX_def)

text \<open>
  C37. Once a key has been added, its token is admitted, with the level of the role the key was added with,
  unless it was admitted before; a token that was admitted before keeps its level, and another one that was
  refused, and does not collide with the key's token under the hash, is still refused. The store stays
  within its bounds and without duplicate names.
\<close>

theorem added_key_admits_its_token:
  assumes "sodium_ok sod {t, t'}" "auth_wf st" "length name < AUTH_KEY_NAME_MAX" "auth_add_key sod st name t role = (0, st')"
  shows "auth_wf st' \<and> auth_verify sod st' t' =
    (if auth_verify sod st t' \<noteq> AUTH_NONE then auth_verify sod st t'
     else if t' = t then role_level role else AUTH_NONE)"
proof
  show "auth_wf st'" using auth_add_key_wf [OF assms(2,3), of sod t role] assms(4) by simp
qed (use assms in \<open>auto simp: auth_add_key_success auth_verify_def sodium_ok_def\<close>)

theorem added_key_admits_its_token_witness:
  "\<exists>st'. auth_add_key demo_sodium demo_keys ''bob'' ''f00d'' ROLE_READONLY = (0, st') \<and>
     auth_verify demo_sodium st' ''f00d'' = AUTH_READONLY \<and> auth_verify demo_sodium st' ''c0ffee'' = AUTH_ADMIN \<and>
     auth_verify demo_sodium st' ''beef'' = AUTH_NONE"
proof -
  obtain st' where "auth_add_key demo_sodium demo_keys ''bob'' ''f00d'' ROLE_READONLY = (0, st')"
    by (simp add: auth_add_key_def demo_keys_def demo_sodium_def AUTH_MAX_KEYS_def)
  then show ?thesis
    using added_key_admits_its_token [OF demo_keys_ok, of "''bob''" "''f00d''" ROLE_READONLY st']
    by (simp add: AUTH_KEY_NAME_MAX_def auth_verify_def demo_keys_def demo_sodium_def role_level_def)
qed

text \<open>
  Deleting a key removes that key and no other, and refuses to delete one that is not there; a
  token that only the deleted key admitted is refused from then on.
\<close>

theorem deleted_key_is_refused:
  assumes "auth_wf st"
  shows "auth_del_key st name =
      (if name \<in> keyName ` set (keys st) then (0, \<lparr>keys = filter (\<lambda>k. keyName k \<noteq> name) (keys st)\<rparr>) else (-1, st)) \<and>
    auth_wf (snd (auth_del_key st name)) \<and>
    ((\<forall>k \<in> set (keys st). pwhash_str_verify sod (keyHash k) t \<longrightarrow> keyName k = name) \<longrightarrow>
      auth_verify sod (snd (auth_del_key st name)) t = AUTH_NONE)"
proof (intro conjI impI)
  show "auth_del_key st name =
      (if name \<in> keyName ` set (keys st) then (0, \<lparr>keys = filter (\<lambda>k. keyName k \<noteq> name) (keys st)\<rparr>) else (-1, st))"
    by (rule auth_del_key_effect [OF assms])
  show "auth_wf (snd (auth_del_key st name))" by (rule auth_del_key_wf [OF assms])
  assume "\<forall>k \<in> set (keys st). pwhash_str_verify sod (keyHash k) t \<longrightarrow> keyName k = name"
  then show "auth_verify sod (snd (auth_del_key st name)) t = AUTH_NONE"
    by (auto simp: auth_del_key_effect [OF assms] auth_verify_def verify_level_none)
qed

theorem deleted_key_is_refused_witness:
  "auth_wf demo_keys \<and> auth_verify demo_sodium demo_keys ''c0ffee'' = AUTH_ADMIN \<and>
   auth_verify demo_sodium (snd (auth_del_key demo_keys ''admin'')) ''c0ffee'' = AUTH_NONE"
  using deleted_key_is_refused [OF demo_keys_ok(2), of "''admin''" demo_sodium "''c0ffee''"] demo_keys_ok(2)
  by (simp add: auth_verify_def demo_keys_def demo_sodium_def role_level_def)

text \<open>
  The token check reports the name of a key that is in the store, that the token verifies against,
  and whose role is the level reported.
\<close>

theorem verified_name_is_a_stored_key:
  assumes "auth_wf st" "auth_verify_ex sod st t = (lvl, nm)" "lvl \<noteq> AUTH_NONE"
  shows "\<exists>k \<in> set (keys st). pwhash_str_verify sod (keyHash k) t \<and> keyName k = nm \<and> role_level (keyRole k) = lvl"
proof -
  have "verify_keys sod ks t = (lvl, nm) \<Longrightarrow> \<forall>k \<in> set ks. length (keyName k) < AUTH_KEY_NAME_MAX \<Longrightarrow>
    \<exists>k \<in> set ks. pwhash_str_verify sod (keyHash k) t \<and> keyName k = nm \<and> role_level (keyRole k) = lvl" for ks
    using assms(3) by (induction ks) (auto split: if_splits)
  then show ?thesis using assms(1,2) by (simp add: auth_verify_ex_def auth_wf_def)
qed

theorem verified_name_is_a_stored_key_witness:
  "auth_verify_ex demo_sodium demo_keys ''c0ffee'' = (AUTH_ADMIN, ''admin'') \<and>
   (\<exists>k \<in> set (keys demo_keys). keyName k = ''admin'' \<and> role_level (keyRole k) = AUTH_ADMIN)"
proof -
  have v: "auth_verify_ex demo_sodium demo_keys ''c0ffee'' = (AUTH_ADMIN, ''admin'')"
    by (simp add: auth_verify_ex_def demo_keys_def demo_sodium_def role_level_def copy_name_def AUTH_KEY_NAME_MAX_def)
  from verified_name_is_a_stored_key [OF demo_keys_ok(2) v] v show ?thesis by auto
qed

end
