(* ===== verification/Command.thy ===== *)
theory Command
  imports Values Auth
begin

text \<open>
  Parsed commands, \<open>include/db/parser.h\<close>: one record per operation and the tagged union \<open>Command\<close>. An
  array with its count is a list; a \<open>NULL\<close> list of field names (all fields are meant) is the empty
  list, as \<open>src/db/parser.c\<close> never builds an empty list of names.
\<close>

record CreateData =
  create_dbName :: string
  create_fields :: "Field list"

record AddData =
  add_dbName :: string
  add_key :: cint
  add_values :: "Data list"
  add_autoKey :: bool

record UpdateData =
  up_dbName :: string
  up_key :: cint
  up_values :: "Data list"
  up_ignoreFlags :: "bool list option"

record GetData =
  get_dbName :: string
  get_key :: cint
  get_fields :: "string list"

record DeleteData =
  del_dbName :: string
  del_key :: cint

record GetAllData =
  get_all_dbName :: string
  get_all_fields :: "string list"

record SearchData =
  search_dbName :: string
  search_fieldName :: string
  search_value :: Data
  search_returnFields :: "string list"

record CountData =
  count_dbName :: string

record CreateIndexData =
  create_index_dbName :: string
  create_index_fieldName :: string

record AuthData =
  auth_token :: string

record AddKeyData =
  add_key_name :: string
  add_key_role :: KeyRole

record DelKeyData =
  del_key_name :: string

record WhoamiData =
  whoami_name :: string

record DelTableData =
  del_table_dbName :: string

datatype Command =
    OP_CREATE CreateData
  | OP_ADD AddData
  | OP_UP UpdateData
  | OP_GET GetData
  | OP_DEL DeleteData
  | OP_GET_ALL GetAllData
  | OP_SEARCH SearchData
  | OP_COUNT CountData
  | OP_CREATE_INDEX CreateIndexData
  | OP_AUTH AuthData
  | OP_ADD_KEY AddKeyData
  | OP_DEL_KEY DelKeyData
  | OP_LIST_KEYS
  | OP_WHOAMI WhoamiData
  | OP_DEL_TABLE DelTableData
  | OP_ERROR string

subsection \<open>Size tags\<close>

text \<open>
  The parser tells the kinds of values apart by \<open>size\<close>: -2 int, -1 double, -3 bool, the length of a
  string, and -4 to -7 for arrays of the four kinds, -4 also for the empty array. A value is tagged
  when its union holds what its tag says; arrays of arrays, which the parser tags -7, are not.
\<close>

definition scalar_tagged :: "Data \<Rightarrow> bool" where
  "scalar_tagged v \<longleftrightarrow>
    (case dvalue v of
       U_i _ \<Rightarrow> dsize v = -2
     | U_d _ \<Rightarrow> dsize v = -1
     | U_b _ \<Rightarrow> dsize v = -3
     | U_s (Some s) \<Rightarrow> dsize v = int (length s)
     | _ \<Rightarrow> False)"

definition scalar_tag :: "Data \<Rightarrow> int" where
  "scalar_tag v = (if dsize v \<ge> 0 then 0 else dsize v)"

definition array_tag :: "int \<Rightarrow> int" where
  "array_tag t = (if t = -2 then -4 else if t = -1 then -5 else if t = -3 then -6 else -7)"

definition array_tagged :: "Data \<Rightarrow> bool" where
  "array_tagged v \<longleftrightarrow>
    (case dvalue v of
       U_a (Some (AppendValue e)) \<Rightarrow> scalar_tagged e \<and> dsize v = array_tag (scalar_tag e)
     | U_a (Some (Elements [])) \<Rightarrow> dsize v = -4
     | U_a (Some (Elements (e # es))) \<Rightarrow>
         length (e # es) \<le> MAX_ARRAY_LENGTH \<and> list_all scalar_tagged (e # es) \<and>
         list_all (\<lambda>x. scalar_tag x = scalar_tag e) es \<and> dsize v = array_tag (scalar_tag e)
     | _ \<Rightarrow> False)"

definition tagged :: "Data \<Rightarrow> bool" where
  "tagged v \<longleftrightarrow> scalar_tagged v \<or> array_tagged v"

text \<open>An array of integers is only meant for a field of type \<open>int[]\<close>; the empty array fits every array field.\<close>

definition int_array_only :: "FieldType \<Rightarrow> Data \<Rightarrow> bool" where
  "int_array_only t v \<longleftrightarrow>
    dsize v = -4 \<longrightarrow> t = TYPE_INT_ARRAY \<or> dvalue v = U_a (Some (Elements []))"

end
