(* ===== verification/Operations.thy ===== *)
theory Operations
  imports Table_Format Command
begin

text \<open>
  The command handlers of \<open>src/db/operations.c\<close> on the global state: the list of tables and the key
  store. Each handler returns its \<open>CommandResult\<close> and the new state. The member \<open>data\<close> of a result is
  \<open>Uninit\<close> on the paths that return without having set it.
\<close>

subsection \<open>Results and global state\<close>

datatype ExecutionError =
    EX_SUCCESS | EX_INVALID_DATA | EX_DB_NOT_FOUND | EX_DB_ALREADY_EXISTS
  | EX_MEMORY_ALLOCATION_FAILED | EX_DB_CREATE_FAILED | EX_ROW_NOT_FOUND | EX_INVALID_FIELD
  | EX_TYPE_MISMATCH | EX_INDEX_ALREADY_EXISTS | EX_LIMIT_EXCEEDED | EX_UNKNOWN_ERROR

fun EXECUTION_ERROR_MESSAGES :: "ExecutionError \<Rightarrow> string option" where
  "EXECUTION_ERROR_MESSAGES EX_SUCCESS = None"
| "EXECUTION_ERROR_MESSAGES EX_INVALID_DATA = Some ''Invalid data provided to operation''"
| "EXECUTION_ERROR_MESSAGES EX_DB_NOT_FOUND = Some ''Database not found''"
| "EXECUTION_ERROR_MESSAGES EX_DB_ALREADY_EXISTS = Some ''Database already exists''"
| "EXECUTION_ERROR_MESSAGES EX_MEMORY_ALLOCATION_FAILED = Some ''Memory allocation failed''"
| "EXECUTION_ERROR_MESSAGES EX_DB_CREATE_FAILED = Some ''Failed to create database''"
| "EXECUTION_ERROR_MESSAGES EX_ROW_NOT_FOUND = Some ''Row not found''"
| "EXECUTION_ERROR_MESSAGES EX_INVALID_FIELD = Some ''Invalid field specified''"
| "EXECUTION_ERROR_MESSAGES EX_TYPE_MISMATCH = Some ''Data type mismatch''"
| "EXECUTION_ERROR_MESSAGES EX_INDEX_ALREADY_EXISTS = Some ''Index already exists''"
| "EXECUTION_ERROR_MESSAGES EX_LIMIT_EXCEEDED = Some ''Limit exceeded''"
| "EXECUTION_ERROR_MESSAGES EX_UNKNOWN_ERROR = Some ''Unknown error occurred''"

text \<open>The value of an error code as the C enumeration numbers it, where it is negated into a result code.\<close>

fun ex_num :: "ExecutionError \<Rightarrow> int" where
  "ex_num EX_SUCCESS = 0"
| "ex_num EX_INVALID_DATA = 1"
| "ex_num EX_DB_NOT_FOUND = 2"
| "ex_num EX_DB_ALREADY_EXISTS = 3"
| "ex_num EX_MEMORY_ALLOCATION_FAILED = 4"
| "ex_num EX_DB_CREATE_FAILED = 5"
| "ex_num EX_ROW_NOT_FOUND = 6"
| "ex_num EX_INVALID_FIELD = 7"
| "ex_num EX_TYPE_MISMATCH = 8"
| "ex_num EX_INDEX_ALREADY_EXISTS = 9"
| "ex_num EX_LIMIT_EXCEEDED = 10"
| "ex_num EX_UNKNOWN_ERROR = 11"

datatype ResultData = Uninit | Null | Text string

record CommandResult =
  code :: int
  message :: "string option"
  rdata :: ResultData

record Store =
  storage :: "DB list"
  g_auth_store :: AuthStore

text \<open>What the environment supplies to one command: the clock and libsodium.\<close>

record Env =
  time_now :: ctime
  sodium :: Sodium

definition error_result :: "int \<Rightarrow> ExecutionError \<Rightarrow> ResultData \<Rightarrow> CommandResult" where
  "error_result c e d = \<lparr>code = c, message = EXECUTION_ERROR_MESSAGES e, rdata = d\<rparr>"

definition ok_result :: "int \<Rightarrow> ResultData \<Rightarrow> CommandResult" where
  "ok_result c d = \<lparr>code = c, message = None, rdata = d\<rparr>"

definition msg_result :: "int \<Rightarrow> string \<Rightarrow> ResultData \<Rightarrow> CommandResult" where
  "msg_result c m d = \<lparr>code = c, message = Some m, rdata = d\<rparr>"

definition put_table :: "Store \<Rightarrow> string \<Rightarrow> DB \<Rightarrow> Store" where
  "put_table st name db = st\<lparr>storage := put_db (storage st) name db\<rparr>"

definition free_command_result :: "CommandResult \<Rightarrow> unit run" where
  "free_command_result r = (if rdata r = Uninit then None else Some ())"

subsection \<open>Keys\<close>

definition execute_whoami :: "WhoamiData \<Rightarrow> CommandResult" where
  "execute_whoami d = ok_result 1 (Text (copy_name AUTH_KEY_NAME_MAX (whoami_name d)))"

definition execute_add_key :: "Sodium \<Rightarrow> Store \<Rightarrow> AddKeyData \<Rightarrow> CommandResult \<times> Store" where
  "execute_add_key sod st d =
    (case auth_generate_token sod of (rc, token) \<Rightarrow>
       if rc \<noteq> 0 then (msg_result (-1) ''Failed to generate token'' Null, st)
       else case auth_add_key sod (g_auth_store st) (add_key_name d) token (add_key_role d) of (rc, a) \<Rightarrow>
         if rc \<noteq> 0 then (msg_result (-1) ''Failed to add key: store full or name already exists'' Null,
                       st\<lparr>g_auth_store := a\<rparr>)
         else (ok_result 1 (Text token), st\<lparr>g_auth_store := a\<rparr>))"

definition execute_del_key :: "Store \<Rightarrow> DelKeyData \<Rightarrow> CommandResult \<times> Store" where
  "execute_del_key st d =
    (case auth_del_key (g_auth_store st) (del_key_name d) of (rc, a) \<Rightarrow>
       if rc \<noteq> 0 then (msg_result (-1) ''Key not found'' Null, st\<lparr>g_auth_store := a\<rparr>)
       else (ok_result 1 Null, st\<lparr>g_auth_store := a\<rparr>))"

text \<open>
  The listing is written with \<open>snprintf\<close> at offset \<open>n\<close> of a block of \<open>buf_size\<close> bytes; \<open>n\<close> grows by
  the length that was asked for.
\<close>

definition list_buf_size :: nat where
  "list_buf_size = 64 + AUTH_MAX_KEYS * (AUTH_KEY_NAME_MAX + 16)"

definition snprintf_at :: "nat \<Rightarrow> string \<Rightarrow> nat \<times> string \<Rightarrow> nat \<times> string" where
  "snprintf_at cap s b = (case b of (n, buf) \<Rightarrow> (n + length s, buf @ take (cap - n - 1) s))"

definition key_line :: "AuthKey \<Rightarrow> string" where
  "key_line k = ''| '' @ keyName k @ '' | '' @
     (if keyRole k = ROLE_ADMIN then ''admin'' else ''readonly'') @ '' |'' @ [CHR 0x0A]"

fun list_keys_loop :: "AuthKey list \<Rightarrow> nat \<times> string \<Rightarrow> nat \<times> string" where
  "list_keys_loop [] b = b"
| "list_keys_loop (k # ks) b =
     (if fst b < list_buf_size - 1
      then list_keys_loop ks (snprintf_at list_buf_size (key_line k) b) else b)"

definition execute_list_keys :: "Store \<Rightarrow> CommandResult" where
  "execute_list_keys st =
    (let b0 = snprintf_at list_buf_size (''| name | role |'' @ [CHR 0x0A]) (0, []);
         b1 = snprintf_at list_buf_size (''| - | - |'' @ [CHR 0x0A]) b0;
         b2 = list_keys_loop (keys (g_auth_store st)) b1
     in ok_result (int (length (keys (g_auth_store st)))) (Text (snd b2)))"

subsection \<open>Tables and rows\<close>

definition execute_create :: "Store \<Rightarrow> CreateData \<Rightarrow> (CommandResult \<times> Store) run" where
  "execute_create st d =
    (if create_fields d = [] then Some (error_result (-1) EX_INVALID_DATA Uninit, st)
     else if length (create_fields d) > MAX_FIELDS_PER_DB
     then Some (error_result (-1) EX_LIMIT_EXCEEDED Null, st)
     else case db_create (create_dbName d) (create_fields d) of
            None \<Rightarrow> Some (error_result (-1) EX_DB_CREATE_FAILED Uninit, st)
          | Some db \<Rightarrow>
              (case add_db (storage st) db of (rc, dbs) \<Rightarrow>
                 if rc \<noteq> 0
                 then do { u \<leftarrow> db_free db;
                           Some (error_result rc
                             (if rc = -2 then EX_DB_ALREADY_EXISTS
                              else if rc = -3 then EX_MEMORY_ALLOCATION_FAILED
                              else if rc = -4 then EX_LIMIT_EXCEEDED
                              else EX_UNKNOWN_ERROR) Null, st\<lparr>storage := dbs\<rparr>) }
                 else Some (ok_result (int (length (create_fields d))) Null, st\<lparr>storage := dbs\<rparr>)))"

text \<open>The check of one value: 0, -1 (type mismatch) or -2 (limit exceeded).\<close>

definition check_array_length :: "Data \<Rightarrow> int run" where
  "check_array_length v =
    do { a \<leftarrow> read_a (dvalue v);
         Some (case a of None \<Rightarrow> 0 | Some a \<Rightarrow> if arr_count a > MAX_ARRAY_LENGTH then -2 else 0) }"

fun validate_value :: "FieldType \<Rightarrow> Data \<Rightarrow> int run" where
  "validate_value TYPE_INT v = Some (if dsize v \<noteq> -2 then -1 else 0)"
| "validate_value TYPE_DOUBLE v = Some (if dsize v \<noteq> -1 then -1 else 0)"
| "validate_value TYPE_BOOL v = Some (if dsize v \<noteq> -3 then -1 else 0)"
| "validate_value TYPE_STRING v =
     Some (if dsize v < 0 then -1 else if dsize v > MAX_STRING_VALUE_LENGTH then -2 else 0)"
| "validate_value TYPE_INT_ARRAY v = (if dsize v \<noteq> -4 then Some (-1) else check_array_length v)"
| "validate_value TYPE_DOUBLE_ARRAY v =
     (if dsize v \<noteq> -5 \<and> dsize v \<noteq> -4 then Some (-1) else check_array_length v)"
| "validate_value TYPE_BOOL_ARRAY v =
     (if dsize v \<noteq> -6 \<and> dsize v \<noteq> -4 then Some (-1) else check_array_length v)"
| "validate_value TYPE_STRING_ARRAY v =
     (if dsize v \<noteq> -7 \<and> dsize v \<noteq> -4 then Some (-1) else check_array_length v)"

fun validate_values :: "Field list \<Rightarrow> Data list \<Rightarrow> int run" where
  "validate_values fs [] = Some 0"
| "validate_values (f # fs) (v # vs) =
     do { rc \<leftarrow> validate_value (fieldType f) v; if rc \<noteq> 0 then Some rc else validate_values fs vs }"
| "validate_values [] (v # vs) = None"

definition validate_value_types :: "DB \<Rightarrow> Data list \<Rightarrow> int run" where
  "validate_value_types db vs = validate_values (tl (dbFields db)) vs"

definition execute_add :: "ctime \<Rightarrow> Store \<Rightarrow> AddData \<Rightarrow> (CommandResult \<times> Store) run" where
  "execute_add now st d =
    (case find_db (storage st) (add_dbName d) of
       None \<Rightarrow> Some (error_result (-1) EX_DB_NOT_FOUND Uninit, st)
     | Some db \<Rightarrow>
         if int (length (dbFields db)) - 1 \<noteq> int (length (add_values d))
         then Some (error_result (-1) EX_TYPE_MISMATCH Uninit, st)
         else do {
           type_check \<leftarrow> validate_value_types db (add_values d);
           if type_check \<noteq> 0
           then Some (error_result (-1) (if type_check = -2 then EX_LIMIT_EXCEEDED else EX_TYPE_MISMATCH) Uninit, st)
           else do {
             (rc, db') \<leftarrow> db_add_row now db (if add_autoKey d then -1 else add_key d) (add_values d);
             let st' = put_table st (add_dbName d) db';
             if rc \<noteq> 0
             then Some (if rc = -3 then msg_result rc ''Maximum row capacity reached'' Uninit
                        else if rc = -4 then error_result rc EX_MEMORY_ALLOCATION_FAILED Uninit
                        else if rc = -5 then msg_result rc ''Row key already exists'' Uninit
                        else error_result rc EX_UNKNOWN_ERROR Uninit, st')
             else Some (ok_result (sint (if add_autoKey d then nextKey db' - 1 else add_key d)) Null, st') } })"

text \<open>The validation inside \<open>execute_up\<close>: it looks for an append request when the tag does not match.\<close>

definition append_of :: "(int \<Rightarrow> bool) \<Rightarrow> Data \<Rightarrow> bool run" where
  "append_of p v =
    do { a \<leftarrow> read_a (dvalue v);
         Some (case a of Some (AppendValue e) \<Rightarrow> p (dsize e) | _ \<Rightarrow> False) }"

fun up_valid :: "FieldType \<Rightarrow> Data \<Rightarrow> bool run" where
  "up_valid TYPE_INT v = Some (dsize v = -2)"
| "up_valid TYPE_DOUBLE v = Some (dsize v = -1)"
| "up_valid TYPE_BOOL v = Some (dsize v = -3)"
| "up_valid TYPE_STRING v = Some (dsize v \<ge> 0)"
| "up_valid TYPE_INT_ARRAY v = (if dsize v = -4 then Some True else append_of (\<lambda>n. n = -2) v)"
| "up_valid TYPE_DOUBLE_ARRAY v =
     (if dsize v = -4 \<or> dsize v = -5 then Some True else append_of (\<lambda>n. n = -1) v)"
| "up_valid TYPE_BOOL_ARRAY v =
     (if dsize v = -4 \<or> dsize v = -6 then Some True else append_of (\<lambda>n. n = -3) v)"
| "up_valid TYPE_STRING_ARRAY v =
     (if dsize v = -4 \<or> dsize v = -7 then Some True else append_of (\<lambda>n. n \<ge> 0) v)"

fun up_check :: "Field list \<Rightarrow> bool list \<Rightarrow> Data list \<Rightarrow> ExecutionError option run" where
  "up_check fs gs [] = Some None"
| "up_check (f # fs) (g # gs) (v # vs) =
     (if g then up_check fs gs vs
      else do { valid \<leftarrow> up_valid (fieldType f) v;
                if \<not> valid then Some (Some EX_TYPE_MISMATCH)
                else if fieldType f = TYPE_STRING \<and> dsize v > MAX_STRING_VALUE_LENGTH
                then Some (Some EX_LIMIT_EXCEEDED)
                else up_check fs gs vs })"
| "up_check _ _ _ = None"

definition execute_up :: "ctime \<Rightarrow> Store \<Rightarrow> UpdateData \<Rightarrow> (CommandResult \<times> Store) run" where
  "execute_up now st d =
    (case find_db (storage st) (up_dbName d) of
       None \<Rightarrow> Some (error_result (-1) EX_DB_NOT_FOUND Uninit, st)
     | Some db \<Rightarrow>
         if int (length (dbFields db)) - 1 \<noteq> int (length (up_values d))
         then Some (error_result (-1) EX_TYPE_MISMATCH Uninit, st)
         else do {
           bad \<leftarrow> up_check (tl (dbFields db)) (flags_of (up_ignoreFlags d) (up_values d)) (up_values d);
           (case bad of
              Some e \<Rightarrow> Some (error_result (-1) e Uninit, st)
            | None \<Rightarrow> do {
                (rc, db') \<leftarrow> db_update_row now db (up_key d) (up_values d) (up_ignoreFlags d);
                let st' = put_table st (up_dbName d) db';
                if rc \<noteq> 0
                then Some (error_result rc
                       (if rc = -3 then EX_ROW_NOT_FOUND
                        else if rc = -4 then EX_MEMORY_ALLOCATION_FAILED
                        else if rc = -5 then EX_LIMIT_EXCEEDED
                        else EX_UNKNOWN_ERROR) Uninit, st')
                else Some (ok_result (sint (up_key d)) Null, st') }) })"

definition unknown_field :: "DB \<Rightarrow> string list \<Rightarrow> bool" where
  "unknown_field db names \<longleftrightarrow> list_ex (\<lambda>n. find_field_index db n < 0) names"

definition execute_get :: "Store \<Rightarrow> GetData \<Rightarrow> CommandResult run" where
  "execute_get st d =
    (case find_db (storage st) (get_dbName d) of
       None \<Rightarrow> Some (error_result (-1) EX_DB_NOT_FOUND Null)
     | Some db \<Rightarrow>
         if unknown_field db (get_fields d) then Some (error_result (-1) EX_INVALID_FIELD Null)
         else do {
           found \<leftarrow> db_get_row db (get_key d);
           (case found of
              None \<Rightarrow> Some (error_result (-1) EX_ROW_NOT_FOUND Null)
            | Some row \<Rightarrow> do {
                table \<leftarrow> format_row_as_table db row (get_fields d);
                u \<leftarrow> db_free_row db row;
                Some (case table of
                        None \<Rightarrow> error_result (-1) EX_MEMORY_ALLOCATION_FAILED Null
                      | Some t \<Rightarrow> ok_result (sint (get_key d)) (Text t)) }) })"

definition execute_del :: "Store \<Rightarrow> DeleteData \<Rightarrow> (CommandResult \<times> Store) run" where
  "execute_del st d =
    (case find_db (storage st) (del_dbName d) of
       None \<Rightarrow> Some (error_result (-1) EX_DB_NOT_FOUND Null, st)
     | Some db \<Rightarrow> do {
         (rc, db') \<leftarrow> db_delete_row db (del_key d);
         let st' = put_table st (del_dbName d) db';
         if rc \<noteq> 0
         then Some (error_result rc (if rc = -2 then EX_ROW_NOT_FOUND else EX_UNKNOWN_ERROR) Null, st')
         else Some (ok_result (sint (del_key d)) Null, st') })"

definition execute_del_table :: "Store \<Rightarrow> DelTableData \<Rightarrow> (CommandResult \<times> Store) run" where
  "execute_del_table st d =
    do { (rc, dbs) \<leftarrow> remove_db (storage st) (del_table_dbName d);
         Some (if rc \<noteq> 0 then error_result (-1) EX_DB_NOT_FOUND Null else ok_result 1 Null,
               st\<lparr>storage := dbs\<rparr>) }"

definition execute_get_all :: "Store \<Rightarrow> GetAllData \<Rightarrow> CommandResult run" where
  "execute_get_all st d =
    (case find_db (storage st) (get_all_dbName d) of
       None \<Rightarrow> Some (error_result (- ex_num EX_DB_NOT_FOUND) EX_DB_NOT_FOUND Null)
     | Some db \<Rightarrow>
         if unknown_field db (get_all_fields d)
         then Some (error_result (- ex_num EX_INVALID_FIELD) EX_INVALID_FIELD Null)
         else do {
           table \<leftarrow> format_rows_as_table db (get_all_fields d);
           Some (case table of
                   None \<Rightarrow> error_result (- ex_num EX_MEMORY_ALLOCATION_FAILED) EX_MEMORY_ALLOCATION_FAILED Null
                 | Some t \<Rightarrow> ok_result (rowsCount db) (Text t)) })"

text \<open>The comparison of a search: equality for a scalar field, membership for an array field.\<close>

fun compare_scalar :: "FieldType \<Rightarrow> UnionVal \<Rightarrow> UnionVal \<Rightarrow> bool run" where
  "compare_scalar TYPE_INT a b = do { x \<leftarrow> read_i a; y \<leftarrow> read_i b; Some (x = y) }"
| "compare_scalar TYPE_DOUBLE a b = do { x \<leftarrow> read_d a; y \<leftarrow> read_d b; Some (double_eq x y) }"
| "compare_scalar TYPE_BOOL a b = do { x \<leftarrow> read_b a; y \<leftarrow> read_b b; Some (x = y) }"
| "compare_scalar TYPE_STRING a b = do { x \<leftarrow> read_s a; y \<leftarrow> read_s b; Some (x = y) }"
| "compare_scalar _ a b = Some False"

fun any_equal :: "FieldType \<Rightarrow> Data list \<Rightarrow> UnionVal \<Rightarrow> bool run" where
  "any_equal et [] b = Some False"
| "any_equal et (e # es) b =
     do { eq \<leftarrow> compare_scalar et (dvalue e) b; if eq then Some True else any_equal et es b }"

text \<open>\<open>True\<close> stands for the result 0 of the C function.\<close>

definition compare_values :: "Data \<Rightarrow> Data \<Rightarrow> FieldType \<Rightarrow> bool run" where
  "compare_values a b t =
    (if is_array_type t
     then do { arr \<leftarrow> read_a (dvalue a); any_equal (print_elem_type t) (arr_list arr) (dvalue b) }
     else compare_scalar t (dvalue a) (dvalue b))"

text \<open>The scan: matching rows are stored in an array of \<open>rowsCount\<close> slots.\<close>

definition scan_rows :: "DB \<Rightarrow> nat \<Rightarrow> FieldType \<Rightarrow> Data \<Rightarrow> Row list run" where
  "scan_rows db i t v =
    do { ms \<leftarrow> run_filter (\<lambda>r. do { x \<leftarrow> at (rvalues r) i; compare_values x v t }) (db_rows db);
         if int (length ms) \<le> rowsCount db then Some ms else None }"

definition execute_search :: "Store \<Rightarrow> SearchData \<Rightarrow> CommandResult run" where
  "execute_search st d =
    (case find_db (storage st) (search_dbName d) of
       None \<Rightarrow> Some (error_result (-1) EX_DB_NOT_FOUND Null)
     | Some db \<Rightarrow>
         let idx = find_field_index db (search_fieldName d) in
         if idx < 0 then Some (error_result (-1) EX_INVALID_FIELD Null)
         else if unknown_field db (search_returnFields d) then Some (error_result (-1) EX_INVALID_FIELD Null)
         else do {
           f \<leftarrow> at_int (dbFields db) idx;
           hasIndex \<leftarrow> db_has_index db idx;
           (irc, irows) \<leftarrow> (if hasIndex = 1 then db_index_collect_rows db idx (search_value d)
                           else Some (-2, []));
           if hasIndex = 1 \<and> irc = -3 then Some (error_result (-1) EX_MEMORY_ALLOCATION_FAILED Null)
           else do {
             rows \<leftarrow> (if hasIndex = 1 \<and> irc = 0 then Some irows
                      else scan_rows db (nat idx) (fieldType f) (search_value d));
             table \<leftarrow> format_search_results db rows (search_returnFields d);
             Some (case table of
                     None \<Rightarrow> error_result (-1) EX_MEMORY_ALLOCATION_FAILED Null
                   | Some t \<Rightarrow> ok_result (int (length rows)) (Text t)) } })"

definition execute_count :: "Store \<Rightarrow> CountData \<Rightarrow> CommandResult" where
  "execute_count st d =
    (case find_db (storage st) (count_dbName d) of
       None \<Rightarrow> error_result (-1) EX_DB_NOT_FOUND Null
     | Some db \<Rightarrow> ok_result (rowsCount db) Null)"

definition execute_create_index :: "Store \<Rightarrow> CreateIndexData \<Rightarrow> (CommandResult \<times> Store) run" where
  "execute_create_index st d =
    (case find_db (storage st) (create_index_dbName d) of
       None \<Rightarrow> Some (error_result (-1) EX_DB_NOT_FOUND Null, st)
     | Some db \<Rightarrow>
         let idx = find_field_index db (create_index_fieldName d) in
         if idx < 0 then Some (error_result (-1) EX_INVALID_FIELD Null, st)
         else do {
           f \<leftarrow> at_int (dbFields db) idx;
           if is_array_type (fieldType f) then Some (error_result (-1) EX_TYPE_MISMATCH Null, st)
           else do {
             (rc, db') \<leftarrow> db_create_index db idx;
             let st' = put_table st (create_index_dbName d) db';
             if rc \<noteq> 0
             then Some (error_result rc
                    (if rc = -2 then EX_INDEX_ALREADY_EXISTS
                     else if rc = -3 then EX_MEMORY_ALLOCATION_FAILED
                     else EX_UNKNOWN_ERROR) Null, st')
             else Some (ok_result idx Null, st') } })"

subsection \<open>Dispatch\<close>

definition execute_command :: "Env \<Rightarrow> Store \<Rightarrow> Command \<Rightarrow> (CommandResult \<times> Store) run" where
  "execute_command env st cmd =
    (case cmd of
       OP_ERROR e \<Rightarrow> Some (msg_result (-1) e Uninit, st)
     | OP_CREATE d \<Rightarrow> execute_create st d
     | OP_ADD d \<Rightarrow> execute_add (time_now env) st d
     | OP_UP d \<Rightarrow> execute_up (time_now env) st d
     | OP_GET d \<Rightarrow> map_option (\<lambda>r. (r, st)) (execute_get st d)
     | OP_DEL d \<Rightarrow> execute_del st d
     | OP_GET_ALL d \<Rightarrow> map_option (\<lambda>r. (r, st)) (execute_get_all st d)
     | OP_SEARCH d \<Rightarrow> map_option (\<lambda>r. (r, st)) (execute_search st d)
     | OP_COUNT d \<Rightarrow> Some (execute_count st d, st)
     | OP_CREATE_INDEX d \<Rightarrow> execute_create_index st d
     | OP_ADD_KEY d \<Rightarrow> Some (execute_add_key (sodium env) st d)
     | OP_DEL_KEY d \<Rightarrow> Some (execute_del_key st d)
     | OP_LIST_KEYS \<Rightarrow> Some (execute_list_keys st, st)
     | OP_WHOAMI d \<Rightarrow> Some (execute_whoami d, st)
     | OP_DEL_TABLE d \<Rightarrow> execute_del_table st d
     | OP_AUTH d \<Rightarrow> Some (error_result (-1) EX_UNKNOWN_ERROR Uninit, st))"

end
