(* ===== verification/Operations_Facts.thy ===== *)
theory Operations_Facts
  imports Operations
begin

text \<open>
  What the command handlers do: on a store whose tables are well formed and for values that fit their
  fields every handler has a defined result, keeps the store well formed, acts on the abstract tables
  as specified and prints the rows it should.
\<close>

subsection \<open>Fields by name\<close>

lemma field_pos_cases:
  "(field_pos fs n k = -1 \<and> n \<notin> fieldName ` set fs) \<or>
   (\<exists>i < length fs. field_pos fs n k = int (k + i) \<and> fieldName (fs ! i) = n \<and> (\<forall>j < i. fieldName (fs ! j) \<noteq> n))"
proof (induction fs arbitrary: k)
  case (Cons f fs)
  show ?case
  proof (cases "fieldName f = n")
    case False
    with Cons [of "Suc k"] show ?thesis
    proof (elim disjE exE conjE, goal_cases)
      case (2 i)
      then show ?case by (intro disjI2 exI [of _ "Suc i"]) (auto simp: less_Suc_eq_0_disj)
    qed auto
  qed auto
qed simp

lemma find_field_index_cases:
  obtains "find_field_index db n = -1" "n \<notin> fieldName ` set (dbFields db)"
  | i where "i < length (dbFields db)" "find_field_index db n = int i" "fieldName (dbFields db ! i) = n"
      "\<forall>j < i. fieldName (dbFields db ! j) \<noteq> n"
  using field_pos_cases [of "dbFields db" n 0] by (auto simp: find_field_index_def)

lemma find_field_index_neg: "find_field_index db n < 0 \<longleftrightarrow> n \<notin> fieldName ` set (dbFields db)"
  by (rule find_field_index_cases [of db n]) auto

lemma unknown_field_iff: "unknown_field db ns \<longleftrightarrow> \<not> set ns \<subseteq> fieldName ` set (dbFields db)"
  by (auto simp: unknown_field_def list_ex_iff find_field_index_neg)

text \<open>The columns a command asks for.\<close>

definition columns :: "DB \<Rightarrow> string list \<Rightarrow> nat list" where
  "columns db ns = (if ns = [] then [0..<length (dbFields db)] else map (\<lambda>n. nat (find_field_index db n)) ns)"

lemma columns_ok:
  assumes "\<not> unknown_field db ns"
  shows "field_indices db ns = map int (columns db ns)" "\<forall>i \<in> set (columns db ns). i < length (dbFields db)"
proof -
  have *: "0 \<le> find_field_index db n \<and> find_field_index db n < int (length (dbFields db))" if "n \<in> set ns" for n
    using assms that by (cases rule: find_field_index_cases [of db n]) (auto simp: unknown_field_def list_ex_iff)
  then show "field_indices db ns = map int (columns db ns)"
    by (simp add: field_indices_def columns_def)
  show "\<forall>i \<in> set (columns db ns). i < length (dbFields db)"
    using * by (auto simp: columns_def nat_less_iff split: if_splits)
qed

subsection \<open>Printed tables\<close>

text \<open>The table fits the \<open>int\<close> that holds its size.\<close>

definition printable :: "DB \<Rightarrow> string list \<Rightarrow> Row list \<Rightarrow> bool" where
  "printable db ns rows \<longleftrightarrow> table_size db (columns db ns) rows < 2 ^ 31"

lemma table_size_pos: "0 < table_size db is rows"
  unfolding table_size_def by (intro add_nonneg_pos mult_nonneg_nonneg) simp_all

definition print_rows :: "DB \<Rightarrow> string list \<Rightarrow> Row list \<Rightarrow> string" where
  "print_rows db ns rows = (if rows = [] then no_rows else spec_table db (columns db ns) rows)"

lemma format_columns:
  assumes "\<not> unknown_field db ns" "\<forall>r \<in> set rows. row_ok (dbFields db) (rvalues r)" "printable db ns rows"
  shows "format_table db (field_indices db ns) rows = Some (Some (spec_table db (columns db ns) rows))"
  using assms table_size_pos [of db "columns db ns" rows]
  by (simp add: columns_ok(1) format_table_ok columns_ok(2) printable_def)

lemma db_safe_rows:
  assumes "db_safe db"
  shows "\<forall>r \<in> set (db_rows db). row_ok (dbFields db) (rvalues r)"
    "int (length (db_rows db)) = rowsCount db"
  using db_safeD(5) [OF assms] assms by (auto simp: db_safe_def)

lemma format_search_results_ok:
  assumes "db_safe db" "\<not> unknown_field db ns" "set rows \<subseteq> set (db_rows db)" "printable db ns rows"
  shows "format_search_results db rows ns = Some (Some (print_rows db ns rows))"
  using assms db_safe_rows(1) [OF assms(1)] db_safeD(3) [OF assms(1)]
  by (auto simp: format_search_results_def print_rows_def intro!: format_columns)

lemma format_rows_as_table_ok:
  assumes "db_safe db" "\<not> unknown_field db ns" "printable db ns (db_rows db)"
  shows "format_rows_as_table db ns = Some (Some (print_rows db ns (db_rows db)))"
  using assms db_safe_rows [OF assms(1)] db_safeD(3) [OF assms(1)]
  by (auto simp: format_rows_as_table_def print_rows_def collect_rows_def intro!: format_columns)

text \<open>What is printed depends on the abstract values and the time stamps of the rows only.\<close>

definition same_row :: "DB \<Rightarrow> Row \<Rightarrow> Row \<Rightarrow> bool" where
  "same_row db r r' \<longleftrightarrow> (\<forall>i < length (dbFields db). field_val db r i = field_val db r' i) \<and>
     created_at r = created_at r' \<and> updated_at r = updated_at r'"

lemma same_row_printed:
  assumes "same_row db r r'" "\<forall>i \<in> set is. i < length (dbFields db)"
  shows "spec_widths db is [r] = spec_widths db is [r']" "spec_table db is [r] = spec_table db is [r']"
    "table_size db is [r] = table_size db is [r']"
proof -
  show w: "spec_widths db is [r] = spec_widths db is [r']"
    using assms by (simp add: spec_widths_def spec_col_width_def same_row_def)
  have "spec_row db is r = spec_row db is r'"
    using assms by (simp add: spec_row_def same_row_def)
  with w show "spec_table db is [r] = spec_table db is [r']"
    by (simp add: spec_table_def)
  from w show "table_size db is [r] = table_size db is [r']"
    by (simp add: table_size_def spec_line_width_def)
qed

lemma abs_vals_nth:
  "row_ok fs vs \<Longrightarrow> i < length fs \<Longrightarrow> abs_vals fs vs ! i = abs_val (fieldType (fs ! i)) (vs ! i)"
  by (auto simp: abs_vals_def row_ok_def list_all2_conv_all_nth)

lemma db_get_row_copy:
  assumes safe: "db_safe db" and r: "find_row db k = Some r"
  obtains r' where "db_get_row db k = Some (Some r')" "row_ok (dbFields db) (rvalues r')" "same_row db r r'"
proof -
  have ok: "row_ok (dbFields db) (rvalues r)" using safe r find_row_node db_safe_node(1) by blast
  from clone_values_ok [OF ok] obtain vs' where
    vs: "run_map (\<lambda>(f, v). clone_data_value v (fieldType f)) (zip (dbFields db) (rvalues r)) = Some vs'"
    "row_ok (dbFields db) vs'" "abs_vals (dbFields db) vs' = abs_vals (dbFields db) (rvalues r)" by auto
  have "length (rvalues r) = length (dbFields db)"
    using ok by (auto simp: row_ok_def dest: list_all2_lengthD)
  with r vs(1) have get: "db_get_row db k = Some (Some (r\<lparr>rvalues := vs'\<rparr>))"
    by (simp add: db_get_row_def)
  have "same_row db r (r\<lparr>rvalues := vs'\<rparr>)"
    using vs(2,3) ok by (auto simp: same_row_def field_val_def abs_vals_nth [symmetric])
  with get vs(2) show ?thesis by (intro that) simp_all
qed

lemma execute_get_ok:
  assumes "db_safe db" "find_db (storage st) (get_dbName d) = Some db" "find_row db (get_key d) = Some r"
    "\<not> unknown_field db (get_fields d)" "printable db (get_fields d) [r]"
  shows "execute_get st d = Some (ok_result (sint (get_key d)) (Text (print_rows db (get_fields d) [r])))"
proof -
  from db_get_row_copy [OF assms(1,3)] obtain r' where r': "db_get_row db (get_key d) = Some (Some r')"
    "row_ok (dbFields db) (rvalues r')" "same_row db r r'" by blast
  note cols = columns_ok(2) [OF assms(4)]
  have "printable db (get_fields d) [r']"
    using assms(5) same_row_printed(3) [OF r'(3) cols] by (simp add: printable_def)
  then have "format_row_as_table db r' (get_fields d) = Some (Some (print_rows db (get_fields d) [r]))"
    using format_columns [OF assms(4), of "[r']"] r'(2) db_safeD(3) [OF assms(1)] same_row_printed(2) [OF r'(3) cols]
    by (simp add: format_row_as_table_def print_rows_def)
  then show ?thesis
    using assms(2,4) r' by (simp add: execute_get_def db_free_row_def free_values_ok)
qed

subsection \<open>Searching\<close>

text \<open>A row matches when its field equals the value, or, for an array field, contains it.\<close>

definition search_type :: "FieldType \<Rightarrow> FieldType" where
  "search_type t = (if is_array_type t then array_elem_type t else t)"

fun val_matches :: "AbsVal \<Rightarrow> AbsVal \<Rightarrow> bool" where
  "val_matches (A_array es) b = list_ex (\<lambda>e. val_eq e b) es"
| "val_matches a b = val_eq a b"

lemma compare_scalar_ok:
  assumes "scalar_ok t a" "scalar_ok t b"
  shows "compare_scalar t (dvalue a) (dvalue b) = Some (val_eq (abs_scalar t a) (abs_scalar t b))"
  using assms by (cases t) (auto simp: scalar_ok_def abs_scalar_def)

lemma any_equal_ok:
  assumes "list_all (scalar_ok t) es" "scalar_ok t b"
  shows "any_equal t es (dvalue b) = Some (list_ex (\<lambda>e. val_eq e (abs_scalar t b)) (map (abs_scalar t) es))"
  using assms by (induction es) (auto simp: compare_scalar_ok)

lemma compare_values_ok [typed]:
  assumes "data_ok t a" "scalar_ok (search_type t) b"
  shows "compare_values a b t = Some (val_matches (abs_val t a) (abs_scalar (search_type t) b))"
proof (cases "is_array_type t")
  case True
  with assms obtain arr where "read_a (dvalue a) = Some arr" "list_all (scalar_ok (array_elem_type t)) (arr_list arr)"
    by (auto simp: data_ok_def array_ok_def arr_list_def split: option.splits ArrayData.splits)
  with True assms(2) show ?thesis
    by (simp add: compare_values_def print_elem_type any_equal_ok abs_val_def search_type_def)
next
  case False
  moreover have "val_matches (abs_scalar t a) x = val_eq (abs_scalar t a) x" for x
    by (cases t) (simp_all add: abs_scalar_def)
  ultimately show ?thesis
    using assms by (simp add: data_ok_def compare_values_def compare_scalar_ok abs_val_def search_type_def)
qed

definition matches :: "DB \<Rightarrow> nat \<Rightarrow> Data \<Rightarrow> Row \<Rightarrow> bool" where
  "matches db i v r \<longleftrightarrow>
     val_matches (field_val db r i) (abs_scalar (search_type (fieldType (dbFields db ! i))) v)"

lemma scan_rows_ok:
  assumes "db_safe db" "i < length (dbFields db)" "scalar_ok (search_type (fieldType (dbFields db ! i))) v"
  shows "scan_rows db i (fieldType (dbFields db ! i)) v = Some (filter (matches db i v) (db_rows db))"
proof -
  have "run_filter (\<lambda>r. do { x \<leftarrow> at (rvalues r) i; compare_values x v (fieldType (dbFields db ! i)) }) (db_rows db) =
    Some (filter (matches db i v) (db_rows db))"
  proof (rule run_filter_Some)
    fix r assume "r \<in> set (db_rows db)"
    then have "row_ok (dbFields db) (rvalues r)" using db_safe_rows(1) [OF assms(1)] by blast
    from row_ok_nth [OF this assms(2)] assms(3)
    show "do { x \<leftarrow> at (rvalues r) i; compare_values x v (fieldType (dbFields db ! i)) } = Some (matches db i v r)"
      by (simp add: compare_values_ok matches_def field_val_def)
  qed
  moreover have "int (length (filter (matches db i v) (db_rows db))) \<le> rowsCount db"
    using db_safe_rows(2) [OF assms(1)] length_filter_le [of "matches db i v" "db_rows db"] by linarith
  ultimately show ?thesis by (simp add: scan_rows_def)
qed

lemma val_matches_scalar: "\<not> is_array_type t \<Longrightarrow> val_matches (abs_val t a) b = val_eq (abs_val t a) b"
  by (cases t) (simp_all add: abs_val_def abs_scalar_def)

text \<open>An index is only kept for a scalar field, and it is up to date.\<close>

definition index_usable :: "DB \<Rightarrow> nat \<Rightarrow> bool" where
  "index_usable db i \<longleftrightarrow> \<not> is_array_type (fieldType (dbFields db ! i)) \<and> indexes_fresh db"

lemma search_index_keys:
  assumes safe: "db_safe db" and i: "i < length (dbFields db)" and on: "enabled (indexes db ! i)"
    and v: "scalar_ok (search_type (fieldType (dbFields db ! i))) v" and u: "index_usable db i"
    and same: "indexes db' = indexes db" "dbFields db' = dbFields db"
  shows "db_index_collect_rows db' (int i) v =
    Some (0, List.map_filter (find_row db') (map row_key (filter (matches db i v) (db_rows db))))"
proof -
  let ?t = "fieldType (dbFields db ! i)"
  have sc: "\<not> is_array_type ?t" using u by (simp add: index_usable_def)
  then have ok: "data_ok ?t v" "abs_val ?t v = abs_scalar (search_type ?t) v"
    using v by (simp_all add: data_ok_def search_type_def abs_val_def)
  then have "(\<lambda>r. val_eq (abs_val ?t (rvalues r ! i)) (abs_val ?t v)) = matches db i v"
    by (simp add: fun_eq_iff matches_def field_val_def val_matches_scalar [OF sc])
  with db_index_collect_keys [OF _ i on ok(1) same] safe u show ?thesis by (simp add: db_wf_def index_usable_def)
qed

lemma search_rows_index:
  assumes safe: "db_safe db" and i: "i < length (dbFields db)" and on: "enabled (indexes db ! i)"
    and v: "scalar_ok (search_type (fieldType (dbFields db ! i))) v" and u: "index_usable db i"
  shows "db_index_collect_rows db (int i) v = Some (0, filter (matches db i v) (db_rows db))"
proof -
  let ?t = "fieldType (dbFields db ! i)"
  have sc: "\<not> is_array_type ?t" using u by (simp add: index_usable_def)
  then have ok: "data_ok ?t v" "abs_val ?t v = abs_scalar (search_type ?t) v"
    using v by (simp_all add: data_ok_def search_type_def abs_val_def)
  have "db_index_collect_rows db (int i) v =
      Some (0, filter (\<lambda>r. val_eq (abs_val ?t (rvalues r ! i)) (abs_val ?t v)) (db_rows db))"
    using safe u i on ok(1)
    by (intro db_index_collect_rows_ok) (simp_all add: db_wf_def index_usable_def field_val_def)
  moreover have "(\<lambda>r. val_eq (abs_val ?t (rvalues r ! i)) (abs_val ?t v)) = matches db i v"
    using ok(2) by (simp add: fun_eq_iff matches_def field_val_def val_matches_scalar [OF sc])
  ultimately show ?thesis by simp
qed

lemma execute_search_ok:
  assumes safe: "db_safe db" and db: "find_db (storage st) (search_dbName d) = Some db"
    and i: "find_field_index db (search_fieldName d) = int i"
    and ns: "\<not> unknown_field db (search_returnFields d)"
    and v: "scalar_ok (search_type (fieldType (dbFields db ! i))) (search_value d)"
    and u: "enabled (indexes db ! i) \<Longrightarrow> index_usable db i"
    and p: "printable db (search_returnFields d) (filter (matches db i (search_value d)) (db_rows db))"
  shows "execute_search st d =
    Some (ok_result (int (length (filter (matches db i (search_value d)) (db_rows db))))
      (Text (print_rows db (search_returnFields d) (filter (matches db i (search_value d)) (db_rows db)))))"
proof -
  let ?ms = "filter (matches db i (search_value d)) (db_rows db)"
  have il: "i < length (dbFields db)"
    using i by (cases rule: find_field_index_cases [of db "search_fieldName d"]) auto
  have fmt: "format_search_results db ?ms (search_returnFields d) = Some (Some (print_rows db (search_returnFields d) ?ms))"
    using safe ns p by (intro format_search_results_ok) auto
  have has: "db_has_index db (int i) = Some (if enabled (indexes db ! i) then 1 else 0)"
    using il db_safeD(2) [OF safe] by (simp add: db_has_index_def)
  show ?thesis
  proof (cases "enabled (indexes db ! i)")
    case True
    with search_rows_index [OF safe il True v u [OF True]] show ?thesis
      using db i ns has fmt il by (simp add: execute_search_def Let_def)
  next
    case False
    with scan_rows_ok [OF safe il v] show ?thesis
      using db i ns has fmt il by (simp add: execute_search_def Let_def)
  qed
qed

subsection \<open>Well-formed stores\<close>

definition store_ok :: "(DB \<Rightarrow> bool) \<Rightarrow> Store \<Rightarrow> bool" where
  "store_ok P st \<longleftrightarrow> list_all P (storage st) \<and> distinct (map dbName (storage st)) \<and>
     length (storage st) \<le> MAX_DB_COUNT \<and> auth_wf (g_auth_store st)"

abbreviation store_safe :: "Store \<Rightarrow> bool" where
  "store_safe \<equiv> store_ok db_safe"

abbreviation store_wf :: "Store \<Rightarrow> bool" where
  "store_wf \<equiv> store_ok db_wf"

definition tables :: "Store \<Rightarrow> string \<Rightarrow> Table option" where
  "tables st n = map_option abs_db (find_db (storage st) n)"

lemma store_ok_mono: "store_ok P st \<Longrightarrow> (\<And>db. P db \<Longrightarrow> Q db) \<Longrightarrow> store_ok Q st"
  by (auto simp: store_ok_def list_all_iff)

lemma store_wf_safe: "store_wf st \<Longrightarrow> store_safe st"
  by (erule store_ok_mono) (simp add: db_wf_def)

lemma find_db_name: "find_db dbs n = Some db \<Longrightarrow> db \<in> set dbs \<and> dbName db = n"
  by (induction dbs) (auto split: if_splits)

lemma find_db_ok: "store_ok P st \<Longrightarrow> find_db (storage st) n = Some db \<Longrightarrow> P db"
  using find_db_name by (fastforce simp: store_ok_def list_all_iff)

lemma find_db_None: "find_db dbs n = None \<longleftrightarrow> n \<notin> dbName ` set dbs"
  by (induction dbs) auto

lemma put_db_props:
  assumes "find_db dbs n = Some db" "dbName db' = n"
  shows "map dbName (put_db dbs n db') = map dbName dbs" "length (put_db dbs n db') = length dbs"
    "set (put_db dbs n db') \<subseteq> insert db' (set dbs)"
    "find_db (put_db dbs n db') m = (if m = n then Some db' else find_db dbs m)"
  using assms by (induction dbs) (auto split: if_splits)

lemma put_table_ok:
  assumes st: "store_ok P st" and db: "find_db (storage st) n = Some db" and n: "dbName db' = n" and P: "P db'"
  shows "store_ok P (put_table st n db')"
    "tables (put_table st n db') = (tables st)(n \<mapsto> abs_db db')"
    "g_auth_store (put_table st n db') = g_auth_store st"
proof -
  have "list_all P (put_db (storage st) n db')"
    using put_db_props(3) [OF db n] st P by (auto simp: store_ok_def list_all_iff)
  then show "store_ok P (put_table st n db')"
    using st put_db_props(1,2) [OF db n] by (simp add: store_ok_def put_table_def)
  show "tables (put_table st n db') = (tables st)(n \<mapsto> abs_db db')"
    using put_db_props(4) [OF db n] by (auto simp: tables_def put_table_def fun_eq_iff)
  show "g_auth_store (put_table st n db') = g_auth_store st" by (simp add: put_table_def)
qed

lemma abs_db_name: "t_name (abs_db db) = dbName db"
  by (simp add: abs_db_def)

lemma spec_names:
  "(rc, t') = spec_add now t k vs \<Longrightarrow> t_name t' = t_name t"
  "(rc, t') = spec_delete t k \<Longrightarrow> t_name t' = t_name t"
  "(rc, t') = spec_update now t k us \<Longrightarrow> t_name t' = t_name t"
  by (auto simp: spec_add_eq spec_delete_def spec_update_def Let_def split: if_splits prod.splits option.splits)

text \<open>What a mutation of one table does to the store.\<close>

lemma store_step:
  assumes st: "store_safe st" and db: "find_db (storage st) n = Some db"
    and step: "f db = Some (rc, db')" "(rc, abs_db db') = (rc', t')" "t_name t' = dbName db"
    and safe: "db_safe db'" and wf: "db_wf db \<longrightarrow> db_wf db'"
  shows "store_safe (put_table st n db') \<and> (store_wf st \<longrightarrow> store_wf (put_table st n db')) \<and>
    tables (put_table st n db') = (tables st)(n \<mapsto> t')"
proof -
  have n: "dbName db' = n" using step(2,3) find_db_name [OF db] abs_db_name [of db'] by simp
  have "store_wf (put_table st n db')" if "store_wf st"
    using put_table_ok(1) [OF that db n] wf find_db_ok [OF that db] by blast
  with put_table_ok [OF st db n safe] step(2) show ?thesis by simp
qed

subsection \<open>Validation\<close>

text \<open>
  Validation of tagged values: a value passes exactly when it fits the type of its field, apart from
  the strings that are too long, provided that arrays of integers only go to fields of type \<open>int[]\<close>.
\<close>

lemma scalar_tagged_ok:
  "scalar_tagged v \<Longrightarrow>
     (dsize v = -2 \<longleftrightarrow> scalar_ok TYPE_INT v) \<and> (dsize v = -1 \<longleftrightarrow> scalar_ok TYPE_DOUBLE v) \<and>
     (dsize v = -3 \<longleftrightarrow> scalar_ok TYPE_BOOL v) \<and> (dsize v \<ge> 0 \<longleftrightarrow> scalar_ok TYPE_STRING v)"
  by (auto simp: scalar_tagged_def scalar_ok_def split: UnionVal.splits option.splits)

lemma scalar_tag_ok:
  assumes "scalar_tagged v"
  shows "scalar_tag v = -2 \<longleftrightarrow> scalar_ok TYPE_INT v" "scalar_tag v = -1 \<longleftrightarrow> scalar_ok TYPE_DOUBLE v"
    "scalar_tag v = -3 \<longleftrightarrow> scalar_ok TYPE_BOOL v" "scalar_tag v = 0 \<longleftrightarrow> scalar_ok TYPE_STRING v"
    "scalar_tag v \<in> {-3, -2, -1, 0}"
  using assms
  by (auto simp: scalar_tag_def scalar_tagged_def scalar_ok_def split: UnionVal.splits option.splits)

lemma list_all_tag:
  assumes "scalar_tagged e" "list_all scalar_tagged es" "list_all (\<lambda>x. scalar_tag x = scalar_tag e) es" "scalar_ok t e"
  shows "list_all (scalar_ok t) es"
proof -
  have "scalar_ok t x" if "x \<in> set es" for x
    using assms that scalar_tag_ok [of x] scalar_tag_ok [of e] scalar_ok_not_array [of t e]
    by (cases t) (auto simp: list_all_iff)
  then show ?thesis by (simp add: list_all_iff)
qed

fun tag_type :: "int \<Rightarrow> FieldType" where
  "tag_type n = (if n = -4 then TYPE_INT_ARRAY else if n = -5 then TYPE_DOUBLE_ARRAY
                 else if n = -6 then TYPE_BOOL_ARRAY else TYPE_STRING_ARRAY)"

lemma array_tagged_ok:
  assumes "array_tagged v"
  shows "data_ok (tag_type (dsize v)) v" "dsize v \<in> {-7, -6, -5, -4}"
    "dvalue v = U_a (Some (Elements [])) \<Longrightarrow> is_array_type t \<Longrightarrow> data_ok t v"
proof -
  have 1: "scalar_ok (array_elem_type (tag_type (array_tag (scalar_tag e)))) e \<and> array_tag (scalar_tag e) \<in> {-7, -6, -5, -4}"
    if "scalar_tagged e" for e
    using scalar_tag_ok [OF that] by (auto simp: array_tag_def)
  have at: "is_array_type (tag_type n)" for n by simp
  show "data_ok (tag_type (dsize v)) v"
    using assms 1 list_all_tag
    by (auto simp: array_tagged_def data_ok_def array_ok_def at simp del: tag_type.simps
        split: UnionVal.splits option.splits ArrayData.splits list.splits)
  show "dsize v \<in> {-7, -6, -5, -4}"
    using assms 1
    by (fastforce simp: array_tagged_def split: UnionVal.splits option.splits ArrayData.splits list.splits)
  show "dvalue v = U_a (Some (Elements [])) \<Longrightarrow> is_array_type t \<Longrightarrow> data_ok t v"
    by (simp add: data_ok_def array_ok_def)
qed

lemma scalar_tagged_type:
  assumes "scalar_tagged e" "\<not> is_array_type t"
  shows "scalar_ok t e \<longleftrightarrow> t = array_elem_type (tag_type (array_tag (scalar_tag e)))"
  using scalar_tag_ok [OF assms(1)] assms(2) by (cases t) (auto simp: array_tag_def)

lemma array_tagged_type:
  assumes v: "array_tagged v" and ne: "dvalue v \<noteq> U_a (Some (Elements []))" and t: "is_array_type t"
  shows "data_ok t v \<longleftrightarrow> t = tag_type (dsize v)"
proof
  assume ok: "data_ok t v"
  obtain e where "scalar_tagged e" "dsize v = array_tag (scalar_tag e)" "scalar_ok (array_elem_type t) e"
    using v ne ok t
    by (auto simp: array_tagged_def data_ok_def array_ok_def
        split: UnionVal.splits option.splits ArrayData.splits list.splits)
  then have "array_elem_type t = array_elem_type (tag_type (dsize v))"
    using scalar_tagged_type [of e "array_elem_type t"] by simp
  with t show "t = tag_type (dsize v)" by (cases t) (auto split: if_splits)
next
  assume "t = tag_type (dsize v)"
  with array_tagged_ok(1) [OF v] show "data_ok t v" by simp
qed

lemma check_array_length_ok: "array_tagged v \<Longrightarrow> check_array_length v = Some 0"
  by (auto simp: array_tagged_def check_array_length_def
      split: UnionVal.splits option.splits ArrayData.splits list.splits)

definition too_long :: "FieldType \<Rightarrow> Data \<Rightarrow> bool" where
  "too_long t v \<longleftrightarrow> t = TYPE_STRING \<and> dsize v > MAX_STRING_VALUE_LENGTH"

lemma scalar_not_array: "scalar_tagged v \<Longrightarrow> is_array_type t \<Longrightarrow> \<not> data_ok t v"
  by (auto simp: scalar_tagged_def data_ok_def array_ok_def split: UnionVal.splits option.splits)

lemma array_not_scalar: "array_tagged v \<Longrightarrow> \<not> is_array_type t \<Longrightarrow> \<not> data_ok t v"
  by (cases t) (auto simp: array_tagged_def data_ok_def scalar_ok_def split: UnionVal.splits)

lemma scalar_tag_range: "scalar_tagged v \<Longrightarrow> dsize v \<ge> -3"
  by (auto simp: scalar_tagged_def split: UnionVal.splits option.splits)

lemma validate_value_ok:
  assumes "tagged v" "int_array_only t v"
  shows "validate_value t v = Some (if data_ok t v then (if too_long t v then -2 else 0) else -1)"
proof (cases "scalar_tagged v")
  case True
  with scalar_tagged_ok [OF True] scalar_not_array [OF True, of t] scalar_tag_range [OF True] show ?thesis
    by (cases t) (auto simp: data_ok_def too_long_def)
next
  case False
  with assms have v: "array_tagged v" by (simp add: tagged_def)
  show ?thesis
  proof (cases "is_array_type t")
    case False
    with v array_not_scalar [OF v False] array_tagged_ok(2) [OF v] show ?thesis by (cases t) auto
  next
    case True
    show ?thesis
    proof (cases "dvalue v = U_a (Some (Elements []))")
      case empty: True
      with v have "dsize v = -4" by (simp add: array_tagged_def)
      with empty True array_tagged_ok(3) [OF v empty True] check_array_length_ok [OF v] show ?thesis
        by (cases t) (auto simp: too_long_def)
    next
      case ne: False
      with array_tagged_type [OF v ne True] array_tagged_ok(2) [OF v] check_array_length_ok [OF v] assms(2) True
      show ?thesis by (cases t) (auto simp: too_long_def int_array_only_def)
    qed
  qed
qed

text \<open>Without that proviso: the tag -4 of an array of integers is accepted for every array.\<close>

lemma validate_value_tagged:
  assumes "tagged v"
  shows "validate_value t v =
    Some (if data_ok t v \<or> is_array_type t \<and> dsize v = -4 then (if too_long t v then -2 else 0) else -1)"
proof (cases "int_array_only t v")
  case True
  have "data_ok t v" if "is_array_type t" "dsize v = -4"
  proof -
    have v: "array_tagged v" using assms that(2) scalar_tag_range [of v] by (auto simp: tagged_def)
    from True that(2) show ?thesis
      using array_tagged_ok(1) [OF v] array_tagged_ok(3) [OF v _ that(1)] by (auto simp: int_array_only_def)
  qed
  with validate_value_ok [OF assms True] show ?thesis by auto
next
  case False
  then have d: "dsize v = -4" by (auto simp: int_array_only_def)
  then have v: "array_tagged v" using assms scalar_tag_range [of v] by (auto simp: tagged_def)
  from check_array_length_ok [OF v] d array_not_scalar [OF v, of t] show ?thesis by (cases t) (auto simp: too_long_def)
qed

definition values_meant :: "Field list \<Rightarrow> Data list \<Rightarrow> bool" where
  "values_meant fs vs \<longleftrightarrow> length vs = length fs \<and> list_all2 (\<lambda>f v. tagged v \<and> int_array_only (fieldType f) v) fs vs"

lemma validate_values_ok:
  assumes "list_all2 (\<lambda>f v. tagged v \<and> int_array_only (fieldType f) v) fs vs"
  shows "\<exists>rc. validate_values fs vs = Some rc \<and>
    (rc = 0 \<longleftrightarrow> row_ok fs vs \<and> list_all2 (\<lambda>f v. \<not> too_long (fieldType f) v) fs vs)"
  using assms
proof (induction fs vs rule: list_all2_induct)
  case (Cons f fs v vs)
  then show ?case by (auto simp: validate_value_ok row_ok_def)
qed (simp add: row_ok_def)

text \<open>The same for the validation of an update, where a scalar for an array field must not occur.\<close>

definition update_meant :: "FieldType \<Rightarrow> Data \<Rightarrow> bool" where
  "update_meant t v \<longleftrightarrow> tagged v \<and> int_array_only t v \<and> (is_array_type t \<longrightarrow> array_tagged v)"

lemma up_valid_ok:
  assumes "update_meant t v"
  shows "up_valid t v = Some (data_ok t v)"
proof (cases "is_array_type t")
  case False
  with assms validate_value_ok [of v t] show ?thesis
    by (cases t) (auto simp: update_meant_def too_long_def split: if_splits)
next
  case True
  with assms have v: "array_tagged v" "int_array_only t v" by (simp_all add: update_meant_def)
  show ?thesis
  proof (cases "dvalue v = U_a (Some (Elements []))")
    case empty: True
    with v have "dsize v = -4" by (simp add: array_tagged_def)
    with empty True array_tagged_ok(3) [OF v(1) empty True] show ?thesis by (cases t) auto
  next
    case ne: False
    have ap: "append_of p v = Some (\<exists>e. dvalue v = U_a (Some (AppendValue e)) \<and> p (dsize e))" for p
      using v(1) by (auto simp: append_of_def array_tagged_def split: UnionVal.splits option.splits ArrayData.splits)
    have "dvalue v = U_a (Some (AppendValue e)) \<Longrightarrow> scalar_tagged e \<and> dsize v = array_tag (scalar_tag e)" for e
      using v(1) by (simp add: array_tagged_def)
    with ap ne array_tagged_type [OF v(1) ne True] array_tagged_ok(2) [OF v(1)] v(2) True show ?thesis
      by (cases t) (auto simp: int_array_only_def array_tag_def scalar_tag_def)
  qed
qed

fun updates_meant :: "Field list \<Rightarrow> bool list \<Rightarrow> Data list \<Rightarrow> bool" where
  "updates_meant [] [] [] = True"
| "updates_meant (f # fs) (g # gs) (v # vs) = ((g \<or> update_meant (fieldType f) v) \<and> updates_meant fs gs vs)"
| "updates_meant _ _ _ = False"

lemma up_check_ok:
  assumes "updates_meant fs gs vs"
  shows "\<exists>e. up_check fs gs vs = Some e \<and> (e = None \<longrightarrow> upd_ok fs gs vs)"
  using assms by (induction fs gs vs rule: updates_meant.induct) (auto simp: up_valid_ok)

subsection \<open>Commands that change tables\<close>

lemma execute_add_refines:
  assumes st: "store_safe st" and db: "find_db (storage st) (add_dbName d) = Some db"
    and vs: "row_ok (tl (dbFields db)) (add_values d)" and ok: "validate_value_types db (add_values d) = Some 0"
  shows "\<exists>r st' rc t'. execute_add now st d = Some (r, st') \<and>
    spec_add now (abs_db db) (if add_autoKey d then -1 else add_key d) (abs_vals (tl (dbFields db)) (add_values d)) = (rc, t') \<and>
    code r = (if rc \<noteq> 0 then rc else sint (if add_autoKey d then t_next t' - 1 else add_key d)) \<and>
    (message r = None \<longleftrightarrow> rc = 0) \<and> tables st' = (tables st)(add_dbName d \<mapsto> t') \<and>
    g_auth_store st' = g_auth_store st \<and> store_safe st' \<and> (store_wf st \<longrightarrow> store_wf st')"
proof -
  let ?k = "if add_autoKey d then -1 else add_key d"
  have safe: "db_safe db" using find_db_ok [OF st db] .
  from db_add_row_refines [OF safe vs, of now ?k] obtain rc db' where
    r: "db_add_row now db ?k (add_values d) = Some (rc, db')"
      "(rc, abs_db db') = spec_add now (abs_db db) ?k (abs_vals (tl (dbFields db)) (add_values d))"
      "db_safe db'" "db_wf db \<longrightarrow> db_wf db'" by blast
  have len: "int (length (dbFields db)) - 1 = int (length (add_values d))"
    using vs db_safeD(3) [OF safe] by (cases "dbFields db") (auto simp: row_ok_def dest: list_all2_lengthD)
  have nx: "t_next (abs_db db') = nextKey db'" by (simp add: abs_db_def)
  from spec_names(1) [OF r(2)] have "t_name (abs_db db') = dbName db" by (simp add: abs_db_name)
  from store_step [where f = "\<lambda>db. db_add_row now db ?k (add_values d)", OF st db r(1) refl this r(3,4)]
  show ?thesis
    using db ok len r(1) r(2) [symmetric] nx put_table_ok(3) [OF st db] r(3)
    by (cases "rc = 0") (auto simp: execute_add_def Let_def ok_result_def error_result_def msg_result_def put_table_def)
qed

lemma execute_up_refines:
  assumes st: "store_safe st" and db: "find_db (storage st) (up_dbName d) = Some db"
    and vs: "upd_ok (tl (dbFields db)) (flags_of (up_ignoreFlags d) (up_values d)) (up_values d)"
    and ok: "up_check (tl (dbFields db)) (flags_of (up_ignoreFlags d) (up_values d)) (up_values d) = Some None"
  shows "\<exists>r st' rc t'. execute_up now st d = Some (r, st') \<and>
    spec_update now (abs_db db) (up_key d)
      (abs_upds (tl (dbFields db)) (flags_of (up_ignoreFlags d) (up_values d)) (up_values d)) = (rc, t') \<and>
    code r = (if rc \<noteq> 0 then rc else sint (up_key d)) \<and> (message r = None \<longleftrightarrow> rc = 0) \<and>
    tables st' = (tables st)(up_dbName d \<mapsto> t') \<and> g_auth_store st' = g_auth_store st \<and>
    store_safe st' \<and> (store_wf st \<and> rc \<noteq> -5 \<longrightarrow> store_wf st')"
proof -
  have safe: "db_safe db" using find_db_ok [OF st db] .
  from db_update_row_refines [OF safe vs, of now "up_key d"] obtain rc db' where
    r: "db_update_row now db (up_key d) (up_values d) (up_ignoreFlags d) = Some (rc, db')"
      "(rc, abs_db db') = spec_update now (abs_db db) (up_key d)
         (abs_upds (tl (dbFields db)) (flags_of (up_ignoreFlags d) (up_values d)) (up_values d))"
      "db_safe db'" "db_wf db \<and> rc \<noteq> -5 \<longrightarrow> db_wf db'" by blast
  have len: "int (length (dbFields db)) - 1 = int (length (up_values d))"
    using upd_ok_length [OF vs] db_safeD(3) [OF safe] by (cases "dbFields db") auto
  from spec_names(3) [OF r(2)] have nm: "dbName db' = up_dbName d"
    using find_db_name [OF db] by (simp add: abs_db_name)
  note put = put_table_ok [OF st db nm r(3)]
  have "store_wf st \<and> rc \<noteq> -5 \<longrightarrow> store_wf (put_table st (up_dbName d) db')"
    using put_table_ok(1) [where P = db_wf, OF _ db nm] find_db_ok [where P = db_wf, OF _ db] r(4) by blast
  with put show ?thesis
    using db ok len r(1) r(2) [symmetric]
    by (cases "rc = 0") (auto simp: execute_up_def Let_def ok_result_def error_result_def)
qed

lemma execute_del_refines:
  assumes st: "store_safe st" and db: "find_db (storage st) (del_dbName d) = Some db"
  shows "\<exists>r st' rc t'. execute_del st d = Some (r, st') \<and> spec_delete (abs_db db) (del_key d) = (rc, t') \<and>
    code r = (if rc \<noteq> 0 then rc else sint (del_key d)) \<and> (message r = None \<longleftrightarrow> rc = 0) \<and>
    tables st' = (tables st)(del_dbName d \<mapsto> t') \<and> g_auth_store st' = g_auth_store st \<and>
    store_safe st' \<and> (store_wf st \<longrightarrow> store_wf st')"
proof -
  have safe: "db_safe db" using find_db_ok [OF st db] .
  from db_delete_row_refines [OF safe, of "del_key d"] obtain rc db' where
    r: "db_delete_row db (del_key d) = Some (rc, db')" "(rc, abs_db db') = spec_delete (abs_db db) (del_key d)"
      "db_safe db'" "db_wf db \<longrightarrow> db_wf db'" by blast
  from spec_names(2) [OF r(2)] have "t_name (abs_db db') = dbName db" by (simp add: abs_db_name)
  from store_step [where f = "\<lambda>db. db_delete_row db (del_key d)", OF st db r(1) refl this r(3,4)]
  show ?thesis
    using db r(1) r(2) [symmetric]
    by (cases "rc = 0") (auto simp: execute_del_def Let_def ok_result_def error_result_def put_table_def)
qed

lemma execute_create_ok:
  assumes st: "store_ok P st" and P: "\<And>db. db_wf db \<Longrightarrow> P db"
    and fs: "create_fields d \<noteq> []" "length (create_fields d) \<le> MAX_FIELDS_PER_DB"
    and nm: "length (create_dbName d) < MAX_DB_NAME_LENGTH"
  shows "\<exists>r st'. execute_create st d = Some (r, st') \<and> store_ok P st' \<and> g_auth_store st' = g_auth_store st \<and>
    (if tables st (create_dbName d) \<noteq> None then code r = -2 \<and> st' = st
     else if length (storage st) \<ge> MAX_DB_COUNT then code r = -4 \<and> st' = st
     else code r = int (length (create_fields d)) \<and> message r = None \<and>
       tables st' = (tables st)(create_dbName d \<mapsto>
         \<lparr>t_name = create_dbName d, t_fields = create_fields d, t_rows = (\<lambda>_. None), t_count = 0, t_next = 1\<rparr>))"
proof -
  from db_create_ok [OF fs(1), of "create_dbName d"] nm obtain db where
    db: "db_create (create_dbName d) (create_fields d) = Some db" "db_wf db" "dbName db = create_dbName d"
      "abs_db db = \<lparr>t_name = create_dbName d, t_fields = create_fields d, t_rows = (\<lambda>_. None), t_count = 0, t_next = 1\<rparr>"
    by auto
  have free: "db_free db = Some ()" using db(2) by (simp add: db_wf_def db_free_ok)
  have "tables (st\<lparr>storage := db # storage st\<rparr>) = (tables st)(create_dbName d \<mapsto> abs_db db)"
    using db(3) by (auto simp: tables_def fun_eq_iff)
  then show ?thesis
    using fs st P [OF db(2)] db(1,3,4) free find_db_None [of "storage st" "create_dbName d"]
    by (auto simp: execute_create_def add_db_def tables_def store_ok_def ok_result_def error_result_def)
qed

lemma remove_db_ok:
  assumes "list_all db_safe dbs" "distinct (map dbName dbs)"
  shows "remove_db dbs n = Some (if n \<in> dbName ` set dbs then 0 else -1, filter (\<lambda>db. dbName db \<noteq> n) dbs)"
  using assms
proof (induction dbs)
  case (Cons db dbs)
  then have "filter (\<lambda>x. dbName x \<noteq> dbName db) dbs = dbs"
    unfolding filter_id_conv by (metis distinct.simps(2) image_eqI list.map(2) set_map)
  with Cons show ?case by (auto simp: db_free_ok)
qed simp

lemma find_db_filter: "find_db (filter (\<lambda>db. dbName db \<noteq> n) dbs) m = (if m = n then None else find_db dbs m)"
  by (induction dbs) auto

lemma execute_del_table_ok:
  assumes "store_ok P st" "\<And>db. P db \<Longrightarrow> db_safe db"
  shows "\<exists>r st'. execute_del_table st d = Some (r, st') \<and> store_ok P st' \<and> g_auth_store st' = g_auth_store st \<and>
    tables st' = (tables st)(del_table_dbName d := None) \<and>
    code r = (if tables st (del_table_dbName d) = None then -1 else 1)"
proof -
  let ?n = "del_table_dbName d"
  have "list_all db_safe (storage st)" "distinct (map dbName (storage st))"
    using assms by (auto simp: store_ok_def list_all_iff)
  note rm = remove_db_ok [OF this, of ?n]
  have "store_ok P (st\<lparr>storage := filter (\<lambda>db. dbName db \<noteq> ?n) (storage st)\<rparr>)"
    using assms(1) le_trans [OF length_filter_le]
    by (auto simp: store_ok_def list_all_iff distinct_map_filter)
  moreover have "?n \<in> dbName ` set (storage st) \<longleftrightarrow> tables st ?n \<noteq> None"
    using find_db_None [of "storage st" ?n] by (simp add: tables_def)
  ultimately show ?thesis
    using rm by (auto simp: execute_del_table_def tables_def find_db_filter fun_eq_iff ok_result_def error_result_def)
qed

lemma execute_create_index_ok:
  assumes st: "store_safe st" and db: "find_db (storage st) (create_index_dbName d) = Some db"
  shows "\<exists>r st'. execute_create_index st d = Some (r, st') \<and> store_safe st' \<and> (store_wf st \<longrightarrow> store_wf st') \<and>
    tables st' = tables st \<and> g_auth_store st' = g_auth_store st \<and>
    (message r = None \<longrightarrow> (\<exists>i db'. find_db (storage st') (create_index_dbName d) = Some db' \<and>
       fieldName (dbFields db' ! i) = create_index_fieldName d \<and> enabled (indexes db' ! i) \<and> code r = int i \<and>
       \<not> is_array_type (fieldType (dbFields db' ! i)) \<and> db_rows db' = db_rows db))"
proof (cases rule: find_field_index_cases [of db "create_index_fieldName d"])
  case 1
  with st db show ?thesis by (auto simp: execute_create_index_def error_result_def)
next
  case (2 i)
  have safe: "db_safe db" using find_db_ok [OF st db] .
  show ?thesis
  proof (cases "is_array_type (fieldType (dbFields db ! i))")
    case True
    with 2 st db show ?thesis by (auto simp: execute_create_index_def error_result_def)
  next
    case False
    from db_create_index_ok [OF safe 2(1)] obtain rc db' where
      r: "db_create_index db (int i) = Some (rc, db')" "rc = 0 \<or> rc = -2" "abs_db db' = abs_db db" "db_safe db'"
        "db_wf db \<longrightarrow> db_wf db'" "db_rows db' = db_rows db" "dbFields db' = dbFields db" "enabled (indexes db' ! i)"
      by auto
    have nm: "dbName db' = create_index_dbName d"
      using r(3) abs_db_name [of db'] abs_db_name [of db] find_db_name [OF db] by simp
    note put = put_table_ok [OF st db nm r(4)]
    have "store_wf st \<longrightarrow> store_wf (put_table st (create_index_dbName d) db')"
      using put_table_ok(1) [where P = db_wf, OF _ db nm] find_db_ok [where P = db_wf, OF _ db] r(5) by blast
    moreover have "tables (put_table st (create_index_dbName d) db') = tables st"
      using put(2) r(3) db by (auto simp: fun_eq_iff tables_def)
    moreover have "find_db (storage (put_table st (create_index_dbName d) db')) (create_index_dbName d) = Some db'"
      using put_db_props(4) [OF db nm] by (simp add: put_table_def)
    ultimately show ?thesis
      using 2 False db r put by (auto simp: execute_create_index_def Let_def ok_result_def error_result_def)
  qed
qed

subsection \<open>Key commands\<close>

lemma list_keys_loop_ok:
  assumes "n = length buf" "\<forall>k \<in> set ks. length (keyName k) < AUTH_KEY_NAME_MAX"
    "n + 80 * length ks < list_buf_size"
  shows "list_keys_loop ks (n, buf) = (n + length (concat (map key_line ks)), buf @ concat (map key_line ks))"
  using assms
proof (induction ks arbitrary: n buf)
  case (Cons k ks)
  have line: "length (key_line k) \<le> 80"
    using Cons.prems(2) by (simp add: key_line_def auth_limits)
  moreover have "n < list_buf_size - 1" using Cons.prems by simp
  ultimately have "list_keys_loop (k # ks) (n, buf) = list_keys_loop ks (n + length (key_line k), buf @ key_line k)"
    using Cons.prems by (simp add: snprintf_at_def)
  also have "\<dots> = (n + length (key_line k) + length (concat (map key_line ks)), (buf @ key_line k) @ concat (map key_line ks))"
    using Cons.prems line by (intro Cons.IH) auto
  finally show ?case by simp
qed simp

text \<open>The listing of a well-formed store is never cut off.\<close>

definition key_listing :: "AuthKey list \<Rightarrow> string" where
  "key_listing ks = ''| name | role |'' @ [CHR 0x0A] @ ''| - | - |'' @ [CHR 0x0A] @ concat (map key_line ks)"

lemma execute_add_key_ok:
  assumes "store_ok P st" "length (add_key_name d) < AUTH_KEY_NAME_MAX"
  shows "store_ok P (snd (execute_add_key sod st d))" "storage (snd (execute_add_key sod st d)) = storage st"
  using assms auth_add_key_wf [of "g_auth_store st" "add_key_name d" sod "random_hex sod" "add_key_role d"]
  by (auto simp: execute_add_key_def auth_generate_token_def store_ok_def split: prod.splits if_splits)

lemma execute_del_key_ok:
  assumes "store_ok P st"
  shows "store_ok P (snd (execute_del_key st d))" "storage (snd (execute_del_key st d)) = storage st"
  using assms auth_del_key_wf [of "g_auth_store st" "del_key_name d"]
  by (auto simp: execute_del_key_def store_ok_def split: prod.splits if_splits)

subsection \<open>All commands\<close>

text \<open>
  What the parser has to deliver for a command to be safe: values that are tagged as their fields
  expect, and names that fit; and the table that a command prints has to fit an \<open>int\<close>.
\<close>

definition add_meant :: "Store \<Rightarrow> AddData \<Rightarrow> bool" where
  "add_meant st d \<longleftrightarrow> (\<forall>db. find_db (storage st) (add_dbName d) = Some db \<longrightarrow>
     length (add_values d) = length (tl (dbFields db)) \<longrightarrow>
     list_all2 (\<lambda>f v. tagged v \<and> int_array_only (fieldType f) v) (tl (dbFields db)) (add_values d))"

definition up_meant :: "Store \<Rightarrow> UpdateData \<Rightarrow> bool" where
  "up_meant st d \<longleftrightarrow> (\<forall>db. find_db (storage st) (up_dbName d) = Some db \<longrightarrow>
     length (up_values d) = length (tl (dbFields db)) \<longrightarrow>
     updates_meant (tl (dbFields db)) (flags_of (up_ignoreFlags d) (up_values d)) (up_values d))"

definition search_meant :: "Store \<Rightarrow> SearchData \<Rightarrow> bool" where
  "search_meant st d \<longleftrightarrow> (\<forall>db i. find_db (storage st) (search_dbName d) = Some db \<longrightarrow>
     find_field_index db (search_fieldName d) = int i \<longrightarrow>
     scalar_ok (search_type (fieldType (dbFields db ! i))) (search_value d) \<and>
     (enabled (indexes db ! i) \<longrightarrow> index_usable db i) \<and>
     printable db (search_returnFields d) (filter (matches db i (search_value d)) (db_rows db)))"

definition command_meant :: "Store \<Rightarrow> Command \<Rightarrow> bool" where
  "command_meant st cmd =
    (case cmd of
       OP_CREATE d \<Rightarrow> length (create_dbName d) < MAX_DB_NAME_LENGTH
     | OP_ADD d \<Rightarrow> add_meant st d
     | OP_UP d \<Rightarrow> up_meant st d
     | OP_GET d \<Rightarrow> (\<forall>db r. find_db (storage st) (get_dbName d) = Some db \<longrightarrow>
         find_row db (get_key d) = Some r \<longrightarrow> printable db (get_fields d) [r])
     | OP_GET_ALL d \<Rightarrow> (\<forall>db. find_db (storage st) (get_all_dbName d) = Some db \<longrightarrow>
         printable db (get_all_fields d) (db_rows db))
     | OP_SEARCH d \<Rightarrow> search_meant st d
     | OP_ADD_KEY d \<Rightarrow> length (add_key_name d) < AUTH_KEY_NAME_MAX
     | _ \<Rightarrow> True)"

lemma find_db_cases_add:
  assumes "store_safe st" "find_db (storage st) n = Some db"
  shows "int (length (dbFields db)) - 1 = int k \<longleftrightarrow> k = length (tl (dbFields db))"
  using find_db_ok [OF assms] db_safeD(3) by (cases "dbFields db") auto

lemma execute_add_safe:
  assumes st: "store_ok P st" and P: "P = db_safe \<or> P = db_wf" and m: "add_meant st d"
  shows "\<exists>r st'. execute_add now st d = Some (r, st') \<and> store_ok P st' \<and> g_auth_store st' = g_auth_store st"
proof -
  have safe: "store_safe st" using st P store_wf_safe by blast
  show ?thesis
  proof (cases "find_db (storage st) (add_dbName d)")
    case None
    with st show ?thesis by (simp add: execute_add_def)
  next
    case db: (Some db)
    show ?thesis
    proof (cases "length (add_values d) = length (tl (dbFields db))")
      case False
      with st db find_db_cases_add [OF safe db] show ?thesis by (simp add: execute_add_def)
    next
      case True
      with m db have "list_all2 (\<lambda>f v. tagged v \<and> int_array_only (fieldType f) v) (tl (dbFields db)) (add_values d)"
        by (simp add: add_meant_def)
      from validate_values_ok [OF this] obtain rc where
        rc: "validate_value_types db (add_values d) = Some rc" "rc = 0 \<longrightarrow> row_ok (tl (dbFields db)) (add_values d)"
        by (auto simp: validate_value_types_def)
      show ?thesis
      proof (cases "rc = 0")
        case True
        with rc execute_add_refines [OF safe db, of now] st P show ?thesis by blast
      next
        case False
        with st db rc True find_db_cases_add [OF safe db] show ?thesis by (simp add: execute_add_def)
      qed
    qed
  qed
qed

lemma execute_up_safe:
  assumes safe: "store_safe st" and m: "up_meant st d"
  shows "\<exists>r st'. execute_up now st d = Some (r, st') \<and> store_safe st' \<and> g_auth_store st' = g_auth_store st \<and>
    (store_wf st \<and> code r \<noteq> -5 \<longrightarrow> store_wf st')"
proof (cases "find_db (storage st) (up_dbName d)")
  case None
  with safe show ?thesis by (simp add: execute_up_def)
next
  case db: (Some db)
  show ?thesis
  proof (cases "length (up_values d) = length (tl (dbFields db))")
    case False
    with safe db find_db_cases_add [OF safe db] show ?thesis by (simp add: execute_up_def)
  next
    case True
    with m db have "updates_meant (tl (dbFields db)) (flags_of (up_ignoreFlags d) (up_values d)) (up_values d)"
      by (simp add: up_meant_def)
    from up_check_ok [OF this] obtain e where
      e: "up_check (tl (dbFields db)) (flags_of (up_ignoreFlags d) (up_values d)) (up_values d) = Some e"
        "e = None \<longrightarrow> upd_ok (tl (dbFields db)) (flags_of (up_ignoreFlags d) (up_values d)) (up_values d)" by blast
    show ?thesis
    proof (cases e)
      case None
      with e execute_up_refines [OF safe db, of now] obtain r st' rc where
        "execute_up now st d = Some (r, st')" "code r = (if rc \<noteq> 0 then rc else sint (up_key d))"
        "g_auth_store st' = g_auth_store st" "store_safe st'" "store_wf st \<and> rc \<noteq> -5 \<longrightarrow> store_wf st'" by blast
      then show ?thesis by (intro exI [of _ r] exI [of _ st']) auto
    next
      case (Some x)
      with safe db e True find_db_cases_add [OF safe db] show ?thesis by (simp add: execute_up_def)
    qed
  qed
qed

lemma execute_get_safe:
  assumes safe: "store_safe st" and m: "command_meant st (OP_GET d)"
  shows "\<exists>r. execute_get st d = Some r"
proof (cases "find_db (storage st) (get_dbName d)")
  case db: (Some db)
  show ?thesis
  proof (cases "unknown_field db (get_fields d) \<or> find_row db (get_key d) = None")
    case True
    with db show ?thesis by (auto simp: execute_get_def db_get_row_def)
  next
    case False
    with m db execute_get_ok [OF find_db_ok [OF safe db] db] show ?thesis by (auto simp: command_meant_def)
  qed
qed (simp add: execute_get_def)

lemma execute_get_all_ok:
  assumes "db_safe db" "find_db (storage st) (get_all_dbName d) = Some db" "\<not> unknown_field db (get_all_fields d)"
    "printable db (get_all_fields d) (db_rows db)"
  shows "execute_get_all st d = Some (ok_result (int (length (db_rows db))) (Text (print_rows db (get_all_fields d) (db_rows db))))"
  using assms format_rows_as_table_ok [OF assms(1,3,4)] db_safe_rows(2) [OF assms(1)]
  by (simp add: execute_get_all_def)

lemma execute_get_all_safe:
  assumes safe: "store_safe st" and m: "command_meant st (OP_GET_ALL d)"
  shows "\<exists>r. execute_get_all st d = Some r"
proof (cases "find_db (storage st) (get_all_dbName d)")
  case db: (Some db)
  show ?thesis
  proof (cases "unknown_field db (get_all_fields d)")
    case False
    with m db execute_get_all_ok [OF find_db_ok [OF safe db] db] show ?thesis by (auto simp: command_meant_def)
  qed (use db in \<open>simp add: execute_get_all_def\<close>)
qed (simp add: execute_get_all_def)

lemma execute_search_safe:
  assumes safe: "store_safe st" and m: "search_meant st d"
  shows "\<exists>r. execute_search st d = Some r"
proof (cases "find_db (storage st) (search_dbName d)")
  case db: (Some db)
  show ?thesis
  proof (cases rule: find_field_index_cases [of db "search_fieldName d"])
    case 1
    with db show ?thesis by (simp add: execute_search_def)
  next
    case (2 i)
    show ?thesis
    proof (cases "unknown_field db (search_returnFields d)")
      case False
      with m db 2(2) execute_search_ok [OF find_db_ok [OF safe db] db 2(2) False] show ?thesis
        by (auto simp: search_meant_def)
    qed (use db 2 in \<open>simp add: execute_search_def\<close>)
  qed
qed (simp add: execute_search_def)

text \<open>Every command that is meant has a defined result and keeps the store safe.\<close>

lemma execute_create_safe:
  assumes "store_ok P st" "\<And>db. db_wf db \<Longrightarrow> P db" "length (create_dbName d) < MAX_DB_NAME_LENGTH"
  shows "\<exists>r st'. execute_create st d = Some (r, st') \<and> store_ok P st'"
proof (cases "create_fields d = [] \<or> length (create_fields d) > MAX_FIELDS_PER_DB")
  case True
  with assms(1) show ?thesis by (auto simp: execute_create_def)
next
  case False
  with execute_create_ok [OF assms(1,2), of d] assms(3) show ?thesis by auto
qed

lemma execute_del_safe:
  assumes "store_ok P st" "P = db_safe \<or> P = db_wf"
  shows "\<exists>r st'. execute_del st d = Some (r, st') \<and> store_ok P st'"
proof (cases "find_db (storage st) (del_dbName d)")
  case None
  with assms show ?thesis by (auto simp: execute_del_def)
next
  case (Some db)
  moreover have "store_safe st" using assms store_wf_safe by blast
  ultimately show ?thesis using execute_del_refines [of st d db] assms by blast
qed

lemma execute_create_index_safe:
  assumes "store_ok P st" "P = db_safe \<or> P = db_wf"
  shows "\<exists>r st'. execute_create_index st d = Some (r, st') \<and> store_ok P st'"
proof (cases "find_db (storage st) (create_index_dbName d)")
  case None
  with assms show ?thesis by (auto simp: execute_create_index_def)
next
  case (Some db)
  moreover have "store_safe st" using assms store_wf_safe by blast
  ultimately show ?thesis using execute_create_index_ok [of st d db] assms by blast
qed

lemma execute_command_safe:
  assumes st: "store_safe st" and m: "command_meant st cmd"
  shows "\<exists>r st'. execute_command env st cmd = Some (r, st') \<and> store_safe st' \<and>
    (store_wf st \<and> code r \<noteq> -5 \<longrightarrow> store_wf st')"
proof -
  have w: "db_wf db \<Longrightarrow> db_safe db" for db by (simp add: db_wf_def)
  have lift: "\<exists>r st'. f = Some (r, st') \<and> store_safe st' \<and> (store_wf st \<and> code r \<noteq> -5 \<longrightarrow> store_wf st')"
    if "\<And>P. P = db_safe \<or> P = db_wf \<Longrightarrow> store_ok P st \<Longrightarrow> \<exists>r st'. f = Some (r, st') \<and> store_ok P st'"
    for f :: "(CommandResult \<times> Store) run"
    using that [of db_safe] that [of db_wf] st by (cases "store_wf st") (auto dest: store_wf_safe)
  show ?thesis
  proof (cases cmd)
    case (OP_CREATE d)
    with m w show ?thesis
      by (simp add: execute_command_def command_meant_def) (rule lift, auto intro: execute_create_safe)
  next
    case (OP_ADD d)
    with m have "\<exists>r st'. execute_add (time_now env) st d = Some (r, st') \<and> store_ok P st'"
      if "P = db_safe \<or> P = db_wf" "store_ok P st" for P
      using execute_add_safe [OF that(2,1), of d "time_now env"] by (auto simp: command_meant_def)
    from lift [OF this] OP_ADD show ?thesis by (simp add: execute_command_def)
  next
    case (OP_UP d)
    with m have "up_meant st d" by (simp add: command_meant_def)
    from execute_up_safe [OF st this, of "time_now env"] OP_UP show ?thesis
      by (simp add: execute_command_def) blast
  next
    case (OP_GET d)
    with m execute_get_safe [OF st] st show ?thesis by (fastforce simp: execute_command_def)
  next
    case (OP_DEL d)
    then show ?thesis by (simp add: execute_command_def) (rule lift, blast intro: execute_del_safe)
  next
    case (OP_GET_ALL d)
    with m execute_get_all_safe [OF st] st show ?thesis by (fastforce simp: execute_command_def)
  next
    case (OP_SEARCH d)
    with m execute_search_safe [OF st, of d] st show ?thesis
      by (auto simp: execute_command_def command_meant_def)
  next
    case (OP_CREATE_INDEX d)
    then show ?thesis by (simp add: execute_command_def) (rule lift, blast intro: execute_create_index_safe)
  next
    case (OP_DEL_TABLE d)
    then show ?thesis
      using execute_del_table_ok [of _ st d] w
      by (simp add: execute_command_def) (rule lift, blast)
  next
    case (OP_ADD_KEY d)
    with m show ?thesis
      using execute_add_key_ok(1) [of _ st d "sodium env"] st
      by (cases "execute_add_key (sodium env) st d") (simp add: execute_command_def command_meant_def)
  next
    case (OP_DEL_KEY d)
    then show ?thesis
      using execute_del_key_ok(1) [of _ st d] st
      by (cases "execute_del_key st d") (simp add: execute_command_def)
  qed (use st in \<open>auto simp: execute_command_def\<close>)
qed

subsection \<open>Properties\<close>

text \<open>A store with the small table and one administrator.\<close>

definition demo_store :: Store where
  "demo_store = \<lparr>storage = [demo_db1], g_auth_store = demo_keys\<rparr>"

lemma demo_name: "dbName demo_db1 = ''t''" by code_simp

lemma demo_store_ok: "store_wf demo_store" "store_safe demo_store" "find_db (storage demo_store) ''t'' = Some demo_db1"
  using demo_db1_ok demo_keys_ok demo_name by (simp_all add: demo_store_def store_ok_def limits)

text \<open>
  C3. Executing a request that the store's types allow, whose printed table fits an \<open>int\<close> and whose search, when
  it goes through an index, finds the indexes up to date, never reads the wrong member of a union, a
  pointer that is not there, or past an array, and it leaves a safe store: every row fits its fields,
  every row map is a map of its keys, the counts are right. When the indexes were up to date before,
  they are up to date afterwards, unless an update was stopped at a full array.
\<close>

theorem requests_are_defined:
  assumes "store_safe st" "command_meant st cmd"
  shows "\<exists>r st'. execute_command env st cmd = Some (r, st') \<and> store_safe st' \<and>
    (store_wf st \<and> code r \<noteq> -5 \<longrightarrow> store_wf st')"
  by (rule execute_command_safe [OF assms])

definition demo_add :: AddData where
  "demo_add = \<lparr>add_dbName = ''t'', add_key = 3, add_values = demo_values, add_autoKey = False\<rparr>"

lemma demo_add_meant: "command_meant demo_store (OP_ADD demo_add)"
  using demo_store_ok(3)
  by (simp add: command_meant_def add_meant_def demo_add_def demo_db1_ok demo_fields_def demo_values_def tagged_def
      scalar_tagged_def array_tagged_def scalar_tag_def array_tag_def int_array_only_def limits)

theorem requests_are_defined_witness:
  "store_safe demo_store \<and> command_meant demo_store (OP_ADD demo_add) \<and>
   (\<exists>r st'. execute_command \<lparr>time_now = 5, sodium = demo_sodium\<rparr> demo_store (OP_ADD demo_add) = Some (r, st') \<and> store_safe st')"
  using requests_are_defined [OF demo_store_ok(2) demo_add_meant] demo_store_ok(2) demo_add_meant by blast

text \<open>
  C5. SEARCH for a value of the field's type (of the element type for an array) returns exactly the rows whose
  field equals the value, or, for an array field, has an element equal to it, in the order of the table,
  whether it scans the rows or goes through the index of the field; the code of the result is their number.
  An index has to be up to date, and the printed table to fit an \<open>int\<close>.
\<close>

theorem search_returns_exactly_the_matches:
  assumes "db_safe db" "find_db (storage st) (search_dbName d) = Some db"
    "find_field_index db (search_fieldName d) = int i" "\<not> unknown_field db (search_returnFields d)"
    "scalar_ok (search_type (fieldType (dbFields db ! i))) (search_value d)"
    "enabled (indexes db ! i) \<Longrightarrow> index_usable db i"
    "printable db (search_returnFields d) (filter (matches db i (search_value d)) (db_rows db))"
  shows "execute_search st d =
    Some (ok_result (int (length (filter (matches db i (search_value d)) (db_rows db))))
      (Text (print_rows db (search_returnFields d) (filter (matches db i (search_value d)) (db_rows db)))))"
  by (rule execute_search_ok [OF assms])

definition demo_search :: SearchData where
  "demo_search = \<lparr>search_dbName = ''t'', search_fieldName = ''tags'', search_value = Data (-2) (U_i 7), search_returnFields = []\<rparr>"

text \<open>The table with an index on its strings, to search through.\<close>

definition indexed_db :: DB where
  "indexed_db = snd (the (db_create_index demo_db1 1))"

definition indexed_store :: Store where
  "indexed_store = \<lparr>storage = [indexed_db], g_auth_store = demo_keys\<rparr>"

definition indexed_search :: SearchData where
  "indexed_search = \<lparr>search_dbName = ''t'', search_fieldName = ''name'', search_value = Data 2 (U_s (Some ''ab'')), search_returnFields = []\<rparr>"

lemma indexed_db_ok:
  "db_wf indexed_db" "db_rows indexed_db = db_rows demo_db1" "dbFields indexed_db = dbFields demo_db1"
  "enabled (indexes indexed_db ! 1)" "dbName indexed_db = ''t''"
proof -
  have "1 < length (dbFields demo_db1)" by code_simp
  from db_create_index_ok [OF demo_db1_ok(2) this] obtain db rc where
    "db_create_index demo_db1 (int 1) = Some (rc, db)" "abs_db db = abs_db demo_db1" "db_wf db"
    "db_rows db = db_rows demo_db1" "dbFields db = dbFields demo_db1" "enabled (indexes db ! 1)"
    using demo_db1_ok(1) by blast
  then show "db_wf indexed_db" "db_rows indexed_db = db_rows demo_db1" "dbFields indexed_db = dbFields demo_db1"
    "enabled (indexes indexed_db ! 1)" "dbName indexed_db = ''t''"
    using demo_name by (simp_all add: indexed_db_def abs_db_def)
qed

lemma same_fields:
  "dbFields db = dbFields db0 \<Longrightarrow> find_field_index db n = find_field_index db0 n \<and> unknown_field db ns = unknown_field db0 ns \<and>
     matches db = matches db0 \<and> printable db ns rs = printable db0 ns rs"
  by (simp add: find_field_index_def [abs_def] unknown_field_def matches_def [abs_def] field_val_def [abs_def] printable_def
      table_size_def spec_line_width_def spec_widths_def spec_col_width_def [abs_def] columns_def)

theorem search_returns_exactly_the_matches_witness:
  "map_option code (execute_search demo_store demo_search) = Some 1 \<and>
   enabled (indexes indexed_db ! 1) \<and> map_option code (execute_search indexed_store indexed_search) = Some 1"
proof -
  have 1: "find_field_index demo_db1 (search_fieldName demo_search) = int 2"
    "\<not> unknown_field demo_db1 (search_returnFields demo_search)"
    "scalar_ok (search_type (fieldType (dbFields demo_db1 ! 2))) (search_value demo_search)"
    "\<not> enabled (indexes demo_db1 ! 2)"
    by code_simp+
  have 2: "filter (matches demo_db1 2 (search_value demo_search)) (db_rows demo_db1) = db_rows demo_db1" by code_simp
  have 3: "printable demo_db1 (search_returnFields demo_search) (db_rows demo_db1)" "length (db_rows demo_db1) = 1"
    by code_simp+
  have db: "find_db (storage demo_store) (search_dbName demo_search) = Some demo_db1"
    by (simp add: demo_search_def demo_store_ok)
  have 4: "find_field_index demo_db1 (search_fieldName indexed_search) = int 1"
    "\<not> unknown_field demo_db1 (search_returnFields indexed_search)"
    "scalar_ok (search_type (fieldType (dbFields demo_db1 ! 1))) (search_value indexed_search)"
    "\<not> is_array_type (fieldType (dbFields demo_db1 ! 1))"
    by code_simp+
  have 5: "filter (matches demo_db1 1 (search_value indexed_search)) (db_rows demo_db1) = db_rows demo_db1" by code_simp
  have 6: "printable demo_db1 (search_returnFields indexed_search) (db_rows demo_db1)" by code_simp
  have db': "find_db (storage indexed_store) (search_dbName indexed_search) = Some indexed_db"
    by (simp add: indexed_store_def indexed_search_def indexed_db_ok)
  have "db_safe indexed_db" "index_usable indexed_db 1"
    using indexed_db_ok 4(4) by (simp_all add: db_wf_def index_usable_def)
  with search_returns_exactly_the_matches [OF demo_db1_ok(2) db 1(1,2,3)] 1(4) 2 3
    search_returns_exactly_the_matches [OF _ db', of 1] 4 5 6 indexed_db_ok same_fields [OF indexed_db_ok(3)]
  show ?thesis by (simp add: ok_result_def)
qed

text \<open>
  C24. A well-typed ADD does to the table exactly what the specification of adding says, under the
  explicit key or, for an automatic or a negative one, under the key that the table's counter provides; the
  code of the result is the explicit key, also when it is negative and the row has another one, or the
  automatic one, or the error code together with a message. No other table and no access key changes.
\<close>

theorem add_request_refines_the_table:
  assumes "store_safe st" "find_db (storage st) (add_dbName d) = Some db"
    "row_ok (tl (dbFields db)) (add_values d)" "validate_value_types db (add_values d) = Some 0"
  shows "\<exists>r st' rc t'. execute_add now st d = Some (r, st') \<and>
    spec_add now (abs_db db) (if add_autoKey d then -1 else add_key d) (abs_vals (tl (dbFields db)) (add_values d)) = (rc, t') \<and>
    code r = (if rc \<noteq> 0 then rc else sint (if add_autoKey d then t_next t' - 1 else add_key d)) \<and>
    (message r = None \<longleftrightarrow> rc = 0) \<and> tables st' = (tables st)(add_dbName d \<mapsto> t') \<and>
    g_auth_store st' = g_auth_store st \<and> store_safe st' \<and> (store_wf st \<longrightarrow> store_wf st')"
  by (rule execute_add_refines [OF assms])

lemma demo_row: "row_ok (tl (dbFields demo_db1)) demo_values"
  using demo_values_ok by (simp add: demo_db1_ok demo_db_ok)

theorem add_request_refines_the_table_witness:
  "\<exists>r st'. execute_add 5 demo_store demo_add = Some (r, st') \<and> code r = 3 \<and> store_wf st' \<and>
     map_option t_count (tables st' ''t'') = Some 2"
proof -
  have db: "find_db (storage demo_store) (add_dbName demo_add) = Some demo_db1" by (simp add: demo_add_def demo_store_ok)
  have vs: "row_ok (tl (dbFields demo_db1)) (add_values demo_add)" using demo_row by (simp add: demo_add_def)
  have ok: "validate_value_types demo_db1 (add_values demo_add) = Some 0" by code_simp
  from add_request_refines_the_table [OF demo_store_ok(2) db vs ok, of 5] demo_store_ok(1)
  show ?thesis
    by (auto simp: demo_add_def spec_add_eq choose_key_def demo_db1_ok MAX_ROW_CAPACITY_def)
qed

text \<open>
  A well-typed UP does to the row what the specification of updating says: each field is kept,
  replaced or has one element appended. No other table and no access key changes; the indexes are up
  to date afterwards unless the update was stopped at a full array.
\<close>

theorem update_request_refines_the_table:
  assumes "store_safe st" "find_db (storage st) (up_dbName d) = Some db"
    "upd_ok (tl (dbFields db)) (flags_of (up_ignoreFlags d) (up_values d)) (up_values d)"
    "up_check (tl (dbFields db)) (flags_of (up_ignoreFlags d) (up_values d)) (up_values d) = Some None"
  shows "\<exists>r st' rc t'. execute_up now st d = Some (r, st') \<and>
    spec_update now (abs_db db) (up_key d)
      (abs_upds (tl (dbFields db)) (flags_of (up_ignoreFlags d) (up_values d)) (up_values d)) = (rc, t') \<and>
    code r = (if rc \<noteq> 0 then rc else sint (up_key d)) \<and> (message r = None \<longleftrightarrow> rc = 0) \<and>
    tables st' = (tables st)(up_dbName d \<mapsto> t') \<and> g_auth_store st' = g_auth_store st \<and>
    store_safe st' \<and> (store_wf st \<and> rc \<noteq> -5 \<longrightarrow> store_wf st')"
  by (rule execute_up_refines [OF assms])

definition demo_up :: UpdateData where
  "demo_up = \<lparr>up_dbName = ''t'', up_key = 7, up_values = demo_values, up_ignoreFlags = Some [True, False]\<rparr>"

theorem update_request_refines_the_table_witness:
  "\<exists>r st'. execute_up 200 demo_store demo_up = Some (r, st') \<and> code r = 7 \<and> store_wf st'"
proof -
  have db: "find_db (storage demo_store) (up_dbName demo_up) = Some demo_db1" by (simp add: demo_up_def demo_store_ok)
  have vs: "upd_ok (tl (dbFields demo_db1)) (flags_of (up_ignoreFlags demo_up) (up_values demo_up)) (up_values demo_up)"
    using demo_updates_ok by (simp add: demo_up_def)
  have ok: "up_check (tl (dbFields demo_db1)) (flags_of (up_ignoreFlags demo_up) (up_values demo_up)) (up_values demo_up) = Some None"
    by code_simp
  have up: "abs_upds (tl (dbFields demo_db1)) (flags_of (up_ignoreFlags demo_up) (up_values demo_up)) (up_values demo_up) =
      [Keep, Replace (A_array [A_int 7])]"
    by (simp add: demo_db1_ok demo_fields_def demo_values_def flags_of_def abs_upd_def append_request_def
        abs_val_def abs_scalar_def arr_list_def demo_up_def)
  show ?thesis
    using update_request_refines_the_table [OF demo_store_ok(2) db vs ok, of 200, unfolded up] demo_store_ok(1)
    by (auto simp: spec_update_def spec_field_def demo_db1_ok demo_up_def)
qed

text \<open>
  GET prints the row of the key with the fields asked for, or with all fields; the code of the
  result is the key.
\<close>

theorem get_prints_the_row:
  assumes "db_safe db" "find_db (storage st) (get_dbName d) = Some db" "find_row db (get_key d) = Some r"
    "\<not> unknown_field db (get_fields d)" "printable db (get_fields d) [r]"
  shows "execute_get st d = Some (ok_result (sint (get_key d)) (Text (print_rows db (get_fields d) [r])))"
  by (rule execute_get_ok [OF assms])

definition demo_get :: GetData where
  "demo_get = \<lparr>get_dbName = ''t'', get_key = 7, get_fields = [''tags'']\<rparr>"

theorem get_prints_the_row_witness:
  "\<exists>r. find_row demo_db1 7 = Some r \<and>
     execute_get demo_store demo_get = Some (ok_result 7 (Text (print_rows demo_db1 [''tags''] [r])))"
proof -
  have f: "find_row demo_db1 (get_key demo_get) = Some (hd (db_rows demo_db1))" by code_simp
  have ns: "\<not> unknown_field demo_db1 (get_fields demo_get)"
    and p: "printable demo_db1 (get_fields demo_get) [hd (db_rows demo_db1)]" by code_simp+
  have db: "find_db (storage demo_store) (get_dbName demo_get) = Some demo_db1" by (simp add: demo_get_def demo_store_ok)
  from get_prints_the_row [OF demo_db1_ok(2) db f ns p] f show ?thesis by (simp add: demo_get_def)
qed

text \<open>
  C34. GET_ALL of known fields prints every row of the table exactly once; the code of the result is their
  number. The printed table has to fit an \<open>int\<close>.
\<close>

theorem get_all_prints_every_row:
  assumes "db_safe db" "find_db (storage st) (get_all_dbName d) = Some db" "\<not> unknown_field db (get_all_fields d)"
    "printable db (get_all_fields d) (db_rows db)"
  shows "execute_get_all st d =
      Some (ok_result (int (length (db_rows db))) (Text (print_rows db (get_all_fields d) (db_rows db)))) \<and>
    (\<exists>kvs. db_rows db = map snd kvs \<and> distinct (map fst kvs) \<and> map_of kvs = find_row db)"
proof
  show "execute_get_all st d =
      Some (ok_result (int (length (db_rows db))) (Text (print_rows db (get_all_fields d) (db_rows db))))"
    by (rule execute_get_all_ok [OF assms])
  have wf: "hm_wf (rowMap db)" using assms(1) by (simp add: db_safe_def)
  show "\<exists>kvs. db_rows db = map snd kvs \<and> distinct (map fst kvs) \<and> map_of kvs = find_row db"
    using hm.rows_nodes [OF wf] hm.keys_distinct [OF wf] hm.find_nodes [OF wf]
    by (intro exI [of _ "hm_nodes (rowMap db)"]) (auto simp: db_rows_def find_row_def fun_eq_iff)
qed

theorem get_all_prints_every_row_witness:
  "map_option code (execute_get_all demo_store \<lparr>get_all_dbName = ''t'', get_all_fields = []\<rparr>) = Some 1"
proof -
  have p: "\<not> unknown_field demo_db1 []" "printable demo_db1 [] (db_rows demo_db1)" "length (db_rows demo_db1) = 1"
    by code_simp+
  from get_all_prints_every_row [OF demo_db1_ok(2), of demo_store "\<lparr>get_all_dbName = ''t'', get_all_fields = []\<rparr>"] p
    demo_store_ok(3)
  show ?thesis by (simp add: ok_result_def)
qed

text \<open>
  CREATE makes an empty table with the given name and fields, whose keys start at 1, unless the
  name is taken (-2) or there are 64 tables (-4), when nothing changes.
\<close>

theorem create_makes_an_empty_table:
  assumes "store_wf st" "create_fields d \<noteq> []" "length (create_fields d) \<le> MAX_FIELDS_PER_DB"
    "length (create_dbName d) < MAX_DB_NAME_LENGTH"
  shows "\<exists>r st'. execute_create st d = Some (r, st') \<and> store_wf st' \<and> g_auth_store st' = g_auth_store st \<and>
    (if tables st (create_dbName d) \<noteq> None then code r = -2 \<and> st' = st
     else if length (storage st) \<ge> MAX_DB_COUNT then code r = -4 \<and> st' = st
     else code r = int (length (create_fields d)) \<and> message r = None \<and>
       tables st' = (tables st)(create_dbName d \<mapsto>
         \<lparr>t_name = create_dbName d, t_fields = create_fields d, t_rows = (\<lambda>_. None), t_count = 0, t_next = 1\<rparr>))"
  by (rule execute_create_ok [OF assms(1) _ assms(2-4)])

theorem create_makes_an_empty_table_witness:
  "\<exists>r st'. execute_create demo_store \<lparr>create_dbName = ''u'', create_fields = demo_fields\<rparr> = Some (r, st') \<and> code r = 2 \<and>
     store_wf st' \<and> map_option t_count (tables st' ''u'') = Some 0"
proof -
  have "tables demo_store ''u'' = None" "length (storage demo_store) = 1"
    by (simp_all add: tables_def demo_store_def demo_name)
  with create_makes_an_empty_table [OF demo_store_ok(1), of "\<lparr>create_dbName = ''u'', create_fields = demo_fields\<rparr>"]
  show ?thesis by (auto simp: demo_fields_def limits)
qed

text \<open>DEL_TABLE removes the table with the name and no other, or reports that there is none.\<close>

theorem dropped_table_is_gone:
  assumes "store_safe st"
  shows "\<exists>r st'. execute_del_table st d = Some (r, st') \<and> store_safe st' \<and> g_auth_store st' = g_auth_store st \<and>
    tables st' = (tables st)(del_table_dbName d := None) \<and>
    code r = (if tables st (del_table_dbName d) = None then -1 else 1)"
  by (rule execute_del_table_ok [OF assms])

theorem dropped_table_is_gone_witness:
  "\<exists>r st'. execute_del_table demo_store \<lparr>del_table_dbName = ''t''\<rparr> = Some (r, st') \<and> code r = 1 \<and> tables st' ''t'' = None"
proof -
  have "tables demo_store ''t'' \<noteq> None" by (simp add: tables_def demo_store_ok)
  with dropped_table_is_gone [OF demo_store_ok(2), of "\<lparr>del_table_dbName = ''t''\<rparr>"] show ?thesis by auto
qed

text \<open>
  CREATE_INDEX changes no row of any table; when it succeeds, the field, which is not an array, has
  an index that is in use, and all indexes are up to date if they were before.
\<close>

theorem index_creation_changes_no_row:
  assumes "store_safe st" "find_db (storage st) (create_index_dbName d) = Some db"
  shows "\<exists>r st'. execute_create_index st d = Some (r, st') \<and> store_safe st' \<and> (store_wf st \<longrightarrow> store_wf st') \<and>
    tables st' = tables st \<and> g_auth_store st' = g_auth_store st \<and>
    (message r = None \<longrightarrow> (\<exists>i db'. find_db (storage st') (create_index_dbName d) = Some db' \<and>
       fieldName (dbFields db' ! i) = create_index_fieldName d \<and> enabled (indexes db' ! i) \<and> code r = int i \<and>
       \<not> is_array_type (fieldType (dbFields db' ! i)) \<and> db_rows db' = db_rows db))"
  by (rule execute_create_index_ok [OF assms])

theorem index_creation_changes_no_row_witness:
  "\<exists>r st'. execute_create_index demo_store \<lparr>create_index_dbName = ''t'', create_index_fieldName = ''name''\<rparr> = Some (r, st') \<and>
     store_wf st' \<and> tables st' = tables demo_store"
  using index_creation_changes_no_row [OF demo_store_ok(2), of "\<lparr>create_index_dbName = ''t'', create_index_fieldName = ''name''\<rparr>"]
    demo_store_ok(1,3) by auto

text \<open>
  LIST_KEYS prints one line for every access key, name and role, after a two-line header; the buffer
  is large enough for all 64 keys, so that nothing is cut off.
\<close>

theorem key_listing_is_complete:
  assumes "auth_wf (g_auth_store st)"
  shows "execute_list_keys st = ok_result (int (length (keys (g_auth_store st)))) (Text (key_listing (keys (g_auth_store st))))"
proof -
  let ?ks = "keys (g_auth_store st)" and ?h = "''| name | role |'' @ [CHR 0x0A] @ ''| - | - |'' @ [CHR 0x0A]"
  have big: "list_buf_size = 5184" by (simp add: list_buf_size_def auth_limits)
  have "list_keys_loop ?ks (length ?h, ?h) = (length ?h + length (concat (map key_line ?ks)), ?h @ concat (map key_line ?ks))"
    using assms by (intro list_keys_loop_ok) (auto simp: auth_wf_def auth_limits big)
  then show ?thesis
    by (simp add: execute_list_keys_def Let_def snprintf_at_def big key_listing_def)
qed

theorem key_listing_is_complete_witness:
  "execute_list_keys demo_store = ok_result 1 (Text (key_listing (keys demo_keys)))"
proof -
  have wf: "auth_wf (g_auth_store demo_store)" by (simp add: demo_store_def demo_keys_ok)
  have "length (keys (g_auth_store demo_store)) = 1" by code_simp
  with key_listing_is_complete [OF wf] show ?thesis by (simp add: demo_store_def)
qed

text \<open>
  C30. The check of a value against its field, for every value whose tag tells its contents: accepted are the
  values that fit (numbers, booleans and strings of the field's type, arrays and appended elements of the
  element type, and empty arrays) and, beyond them, arrays of integers and appended integers for any array
  field; a string above the length limit is told apart, and everything else is refused.
\<close>

theorem validation_outcome:
  assumes "tagged v"
  shows "validate_value t v =
    Some (if data_ok t v \<or> is_array_type t \<and> dsize v = -4 then (if too_long t v then -2 else 0) else -1)"
  by (rule validate_value_tagged [OF assms])

definition int_array :: Data where
  "int_array = Data (-4) (U_a (Some (Elements [Data (-2) (U_i 1)])))"

lemma int_array_ok: "tagged int_array" "array_tagged int_array"
  by (simp_all add: int_array_def tagged_def scalar_tagged_def array_tagged_def scalar_tag_def array_tag_def limits)

theorem validation_outcome_witness:
  "tagged int_array \<and> validate_value TYPE_INT_ARRAY int_array = Some 0 \<and> validate_value TYPE_BOOL_ARRAY int_array = Some 0 \<and>
   validate_value TYPE_INT int_array = Some (-1)"
proof -
  have "dsize int_array = -4" "\<not> data_ok TYPE_INT int_array" "\<not> too_long t int_array" for t
    by (simp_all add: int_array_def data_ok_def scalar_ok_def too_long_def limits)
  with validation_outcome [OF int_array_ok(1)] int_array_ok show ?thesis by simp
qed

text \<open>
  C31. What is accepted beyond the values that fit is stored and later read as something else: a non-empty
  array of integers, as any other kind of array, and a non-empty array of arrays, which has the tag of an
  array of strings, as such. Printing it then reads an integer or the address of an array as a double, a
  boolean or the address of a string.
\<close>

theorem integers_pass_as_any_array:
  assumes "is_array_type t" "es \<noteq> []" "length es \<le> MAX_ARRAY_LENGTH"
    "tag = -4 \<and> t \<noteq> TYPE_INT_ARRAY \<and> list_all (\<lambda>e. scalar_tagged e \<and> dsize e = -2) es \<or>
     tag = -7 \<and> t = TYPE_STRING_ARRAY \<and> list_all array_tagged es"
  shows "validate_value t (Data tag (U_a (Some (Elements es)))) = Some 0 \<and>
    \<not> data_ok t (Data tag (U_a (Some (Elements es)))) \<and>
    array_value_to_str (Data tag (U_a (Some (Elements es)))) t = None"
proof -
  obtain e es' where es: "es = e # es'" using assms(2) by (cases es) auto
  have "scalar_tagged e \<and> dsize e = -2 \<Longrightarrow> \<exists>i. dvalue e = U_i i"
    by (auto simp: scalar_tagged_def split: UnionVal.splits option.splits)
  moreover have "array_tagged e \<Longrightarrow> \<exists>a. dvalue e = U_a a"
    by (auto simp: array_tagged_def split: UnionVal.splits)
  ultimately have "\<not> scalar_ok (array_elem_type t) e" "write_elem (print_elem_type t) e b = None" for b
    using assms(1,4) unfolding es by (cases t; auto simp: scalar_ok_def write_elem_def)+
  with assms(1,3,4) show ?thesis
    unfolding es
    by (cases t) (auto simp: data_ok_def array_ok_def check_array_length_def array_value_to_str_def buf_write_def arr_list_def)
qed

definition nested_array :: Data where
  "nested_array = Data (-7) (U_a (Some (Elements [int_array])))"

theorem integers_pass_as_any_array_witness:
  "validate_value TYPE_DOUBLE_ARRAY int_array = Some 0 \<and> array_value_to_str int_array TYPE_DOUBLE_ARRAY = None \<and>
   validate_value TYPE_STRING_ARRAY nested_array = Some 0 \<and> array_value_to_str nested_array TYPE_STRING_ARRAY = None"
  using integers_pass_as_any_array [of TYPE_DOUBLE_ARRAY "[Data (-2) (U_i 1)]" "-4"]
    integers_pass_as_any_array [of TYPE_STRING_ARRAY "[int_array]" "-7"] int_array_ok(2)
  by (simp add: int_array_def nested_array_def scalar_tagged_def limits)

text \<open>
  C32. An update that meets a full array is not undone: the fields before it have their new values, without a
  new time of the update, the answer is -5, and no index is built anew. So for every index that was up to
  date, and every value that the row has since the update and had not before, a search through the index
  misses the row, while scanning the table finds it.
\<close>

theorem stopped_update_is_not_undone:
  assumes "db_wf db" "upd_ok (tl (dbFields db)) (flags_of fl vs) vs" "find_row db key = Some row"
    "spec_fields (a_vals (abs_row (dbFields db) row)) (abs_upds (tl (dbFields db)) (flags_of fl vs) vs) = (-5, ws)"
  shows "\<exists>db' row'. db_update_row now db key vs fl = Some (-5, db') \<and> find_row db' key = Some row' \<and>
    abs_row (dbFields db) row' = (abs_row (dbFields db) row)\<lparr>a_vals := ws\<rparr> \<and>
    (\<forall>i v. i < length (dbFields db) \<and> enabled (indexes db ! i) \<and> index_usable db i \<and>
       scalar_ok (search_type (fieldType (dbFields db ! i))) v \<and> \<not> matches db i v row \<and> matches db' i v row' \<longrightarrow>
       (\<exists>found scanned. db_index_collect_rows db' (int i) v = Some (0, found) \<and> row' \<notin> set found \<and>
          scan_rows db' i (fieldType (dbFields db ! i)) v = Some scanned \<and> row' \<in> set scanned))"
proof -
  have safe: "db_safe db" using assms(1) by (simp add: db_wf_def)
  obtain row' where row': "db_update_row now db key vs fl = Some (-5, set_row db key row')" "db_safe (set_row db key row')"
      "abs_row (dbFields db) row' = (abs_row (dbFields db) row)\<lparr>a_vals := ws\<rparr>" "row_key row' = key"
    using db_update_row_stops [OF safe assms(2-4), of now] by blast
  let ?db = "set_row db key row'"
  have find: "find_row ?db = (find_row db)(key \<mapsto> row')" by (rule find_set_row [OF safe assms(3)])
  have "\<exists>found scanned. db_index_collect_rows ?db (int i) v = Some (0, found) \<and> row' \<notin> set found \<and>
      scan_rows ?db i (fieldType (dbFields db ! i)) v = Some scanned \<and> row' \<in> set scanned"
    if i: "i < length (dbFields db)" "enabled (indexes db ! i)" "index_usable db i"
      and v: "scalar_ok (search_type (fieldType (dbFields db ! i))) v" and old: "\<not> matches db i v row" and new: "matches ?db i v row'"
    for i v
  proof -
    have "db_index_collect_rows ?db (int i) v =
        Some (0, List.map_filter (find_row ?db) (map row_key (filter (matches db i v) (db_rows db))))"
      by (rule search_index_keys [OF safe i(1,2) v i(3)]) simp_all
    moreover have "row' \<notin> set (List.map_filter (find_row ?db) (map row_key (filter (matches db i v) (db_rows db))))"
    proof
      assume "row' \<in> set (List.map_filter (find_row ?db) (map row_key (filter (matches db i v) (db_rows db))))"
      then obtain x where x: "x \<in> set (db_rows db)" "matches db i v x" "find_row ?db (row_key x) = Some row'"
        by (auto simp: List.map_filter_def split: if_splits)
      with find_row_key [OF row'(2)] row'(4) have "row_key x = key" by metis
      with x(1,2) old assms(3) rows_find [OF safe] show False by fastforce
    qed
    moreover have "scan_rows ?db i (fieldType (dbFields db ! i)) v = Some (filter (matches ?db i v) (db_rows ?db))"
      using scan_rows_ok [OF row'(2), of i v] i(1) v by simp
    moreover have "row' \<in> set (db_rows ?db)" using rows_find [OF row'(2)] find row'(4) by simp
    ultimately show ?thesis using new by auto
  qed
  with row'(1,3) find show ?thesis by auto
qed

text \<open>A table with an indexed boolean, and an array that is full.\<close>

definition full_db :: DB where
  "full_db = snd (the (db_create_index (snd (the (db_add_row 100
     (the (db_create ''f'' [\<lparr>fieldName = ''done'', fieldType = TYPE_BOOL\<rparr>, \<lparr>fieldName = ''tags'', fieldType = TYPE_INT_ARRAY\<rparr>]))
     1 [Data (-3) (U_b False), Data (-4) (U_a (Some (Elements (replicate MAX_ARRAY_LENGTH (Data (-2) (U_i 0))))))]))) 1))"

definition full_row :: Row where
  "full_row = the (find_row full_db 1)"

definition stopped_values :: "Data list" where
  "stopped_values = [Data (-3) (U_b True), Data (-4) (U_a (Some (AppendValue (Data (-2) (U_i 9)))))]"

definition stopped_db :: DB where
  "stopped_db = snd (the (db_update_row 200 full_db 1 stopped_values (Some [False, False])))"

lemma full_db_wf: "db_wf full_db"
proof -
  let ?fs = "[\<lparr>fieldName = ''done'', fieldType = TYPE_BOOL\<rparr>, \<lparr>fieldName = ''tags'', fieldType = TYPE_INT_ARRAY\<rparr>]"
  let ?vs = "[Data (-3) (U_b False), Data (-4) (U_a (Some (Elements (replicate MAX_ARRAY_LENGTH (Data (-2) (U_i 0))))))]"
  obtain db0 where db0: "db_create ''f'' ?fs = Some db0" "db_wf db0" "tl (dbFields db0) = ?fs"
    using db_create_ok [of ?fs "''f''"] by (auto simp: abs_db_def)
  then have "row_ok (tl (dbFields db0)) ?vs" "db_safe db0"
    by (auto simp: db_wf_def row_ok_def data_ok_def scalar_ok_def array_ok_def list_all_iff)
  from db_add_row_refines [OF this(2,1), of 100 1] db0(2) obtain rc db1 where
    db1: "db_add_row 100 db0 1 ?vs = Some (rc, db1)" "db_wf db1" "tl (dbFields db1) = tl (dbFields db0)"
    by (auto simp: spec_add_def abs_db_def Let_def split: if_splits)
  then have "1 < length (dbFields db1)" using db0(3) by (cases "dbFields db1") auto
  with db_create_index_ok [of db1 1] db1 db0 show ?thesis by (auto simp: full_db_def db_wf_def)
qed

lemma full_row_found: "find_row full_db 1 = Some full_row"
proof -
  have "find_row full_db 1 \<noteq> None" by code_simp
  then show ?thesis by (auto simp: full_row_def)
qed

theorem stopped_update_is_not_undone_witness:
  "\<exists>row' scanned found. db_update_row 200 full_db 1 stopped_values (Some [False, False]) = Some (-5, stopped_db) \<and>
     find_row stopped_db 1 = Some row' \<and>
     scan_rows stopped_db 1 TYPE_BOOL (Data (-3) (U_b True)) = Some scanned \<and> row' \<in> set scanned \<and>
     db_index_collect_rows stopped_db 1 (Data (-3) (U_b True)) = Some (0, found) \<and> row' \<notin> set found"
proof -
  let ?v = "Data (-3) (U_b True)" and ?fl = "Some [False, False]"
  have pre: "upd_ok (tl (dbFields full_db)) (flags_of ?fl stopped_values) stopped_values"
    "fst (spec_fields (a_vals (abs_row (dbFields full_db) full_row)) (abs_upds (tl (dbFields full_db)) (flags_of ?fl stopped_values) stopped_values)) = -5"
    by code_simp+
  have i: "1 < length (dbFields full_db) \<and> enabled (indexes full_db ! 1) \<and> fieldType (dbFields full_db ! 1) = TYPE_BOOL"
    "\<not> matches full_db 1 ?v full_row" "matches stopped_db 1 ?v (the (find_row stopped_db 1))"
    by code_simp+
  have "index_usable full_db 1" "scalar_ok (search_type (fieldType (dbFields full_db ! 1))) ?v"
    using full_db_wf i(1) by (simp_all add: index_usable_def db_wf_def search_type_def scalar_ok_def)
  moreover obtain ws where "spec_fields (a_vals (abs_row (dbFields full_db) full_row))
      (abs_upds (tl (dbFields full_db)) (flags_of ?fl stopped_values) stopped_values) = (-5, ws)"
    using pre(2) by (metis prod.collapse)
  moreover note stopped_update_is_not_undone [OF full_db_wf pre(1) full_row_found this, of 200]
  ultimately obtain db' row' where run: "db_update_row 200 full_db 1 stopped_values ?fl = Some (-5, db')" "find_row db' 1 = Some row'"
    "matches db' 1 ?v row' \<Longrightarrow> \<exists>found scanned. db_index_collect_rows db' (int 1) ?v = Some (0, found) \<and> row' \<notin> set found \<and>
       scan_rows db' 1 TYPE_BOOL ?v = Some scanned \<and> row' \<in> set scanned"
    using i(1,2) by metis
  have "db' = stopped_db" using run(1) by (simp add: stopped_db_def)
  with run i(3) show ?thesis by auto
qed

end
