(* ===== verification/Parser.thy ===== *)
theory Parser
  imports Command
begin

text \<open>
  The command parser, \<open>src/db/parser.c\<close>. A \<open>const char*\<close> into the input is the rest of the input from
  there on; a function that advances a pointer returns the rest behind what it consumed. A negative
  result code is an \<open>Inl\<close>. Text is classified as in the C locale.
\<close>

subsection \<open>Characters\<close>

definition isspace :: "char \<Rightarrow> bool" where
  "isspace c \<longleftrightarrow> c = CHR '' '' \<or> (9 \<le> (of_char c :: nat) \<and> (of_char c :: nat) \<le> 13)"

definition isdigit :: "char \<Rightarrow> bool" where
  "isdigit c \<longleftrightarrow> 48 \<le> (of_char c :: nat) \<and> (of_char c :: nat) \<le> 57"

definition isupper :: "char \<Rightarrow> bool" where
  "isupper c \<longleftrightarrow> 65 \<le> (of_char c :: nat) \<and> (of_char c :: nat) \<le> 90"

definition isalpha :: "char \<Rightarrow> bool" where
  "isalpha c \<longleftrightarrow> isupper c \<or> (97 \<le> (of_char c :: nat) \<and> (of_char c :: nat) \<le> 122)"

definition isalnum :: "char \<Rightarrow> bool" where
  "isalnum c \<longleftrightarrow> isalpha c \<or> isdigit c"

definition to_lower :: "char \<Rightarrow> char" where
  "to_lower c = (if isupper c then char_of ((of_char c :: nat) + 32) else c)"

definition strcasecmp_eq :: "string \<Rightarrow> string \<Rightarrow> bool" where
  "strcasecmp_eq s t \<longleftrightarrow> map to_lower s = map to_lower t"

definition strncasecmp_eq :: "string \<Rightarrow> string \<Rightarrow> nat \<Rightarrow> bool" where
  "strncasecmp_eq s t n \<longleftrightarrow> map to_lower (take n s) = map to_lower (take n t)"

text \<open>The character at an offset, \<open>None\<close> for the terminator.\<close>

definition peek :: "nat \<Rightarrow> string \<Rightarrow> char option" where
  "peek n s = (if n < length s then Some (s ! n) else None)"

definition ends_with :: "(char \<Rightarrow> bool) \<Rightarrow> char option \<Rightarrow> bool" where
  "ends_with p c = (case c of None \<Rightarrow> True | Some c \<Rightarrow> p c)"

subsection \<open>Errors\<close>

datatype ParseError =
    ER_INVALID_COMMAND | ER_INVALID_CREATE_FORMAT | ER_INVALID_ADD_FORMAT | ER_INVALID_UPDATE_FORMAT
  | ER_INVALID_GET_FORMAT | ER_INVALID_DELETE_FORMAT | ER_INVALID_SEARCH_FORMAT
  | ER_INVALID_COUNT_FORMAT | ER_INVALID_INDEX_FORMAT | ER_INVALID_AUTH_FORMAT
  | ER_INVALID_ADD_KEY_FORMAT | ER_INVALID_DEL_KEY_FORMAT | ER_INVALID_DEL_TABLE_FORMAT
  | ER_MISSING_ARGUMENT | ER_UNEXPECTED_ARGUMENT | ER_INVALID_IDENTIFIER | ER_INVALID_DATA_TYPE
  | ER_SYNTAX_ERROR | ER_LIMIT_EXCEEDED | ER_OTHER

definition MAX_ERROR_LENGTH :: nat where "MAX_ERROR_LENGTH = 128"

fun ERROR_MESSAGES :: "ParseError \<Rightarrow> string" where
  "ERROR_MESSAGES ER_INVALID_COMMAND = ''Command must be one of CREATE, ADD, UP, GET, DEL, GET_ALL, SEARCH, COUNT, CREATE_INDEX, AUTH, ADD_KEY, DEL_KEY, LIST_KEYS, WHOAMI, DEL_TABLE''"
| "ERROR_MESSAGES ER_INVALID_CREATE_FORMAT = ''Format must be CREATE <DB> (type field1, type field2, ...)''"
| "ERROR_MESSAGES ER_INVALID_ADD_FORMAT = ''Format must be ADD <DB> <KEY> (value1, value2, ...)''"
| "ERROR_MESSAGES ER_INVALID_UPDATE_FORMAT = ''Format must be UP <DB> <KEY> (value1, value2, ...)''"
| "ERROR_MESSAGES ER_INVALID_GET_FORMAT = ''Format must be GET <DB> <KEY> [field1, field2, ...]''"
| "ERROR_MESSAGES ER_INVALID_DELETE_FORMAT = ''Format must be DEL <DB> <KEY>''"
| "ERROR_MESSAGES ER_INVALID_SEARCH_FORMAT = ''Format must be SEARCH <DB> <FIELD> <VALUE> [field1, field2, ...]''"
| "ERROR_MESSAGES ER_INVALID_COUNT_FORMAT = ''Format must be COUNT <DB>''"
| "ERROR_MESSAGES ER_INVALID_INDEX_FORMAT = ''Format must be CREATE_INDEX <DB> <FIELD>''"
| "ERROR_MESSAGES ER_INVALID_AUTH_FORMAT = ''Format must be AUTH <token>''"
| "ERROR_MESSAGES ER_INVALID_ADD_KEY_FORMAT = ''Format must be ADD_KEY <name> admin|readonly''"
| "ERROR_MESSAGES ER_INVALID_DEL_KEY_FORMAT = ''Format must be DEL_KEY <name>''"
| "ERROR_MESSAGES ER_INVALID_DEL_TABLE_FORMAT = ''Format must be DEL_TABLE <DB>''"
| "ERROR_MESSAGES ER_MISSING_ARGUMENT = ''Missing required argument: %s''"
| "ERROR_MESSAGES ER_UNEXPECTED_ARGUMENT = ''Unexpected argument: %s''"
| "ERROR_MESSAGES ER_INVALID_IDENTIFIER = ''Invalid identifier '' @ [CHR 0x27] @ ''%s'' @ [CHR 0x27] @ '' (must follow naming rules)''"
| "ERROR_MESSAGES ER_INVALID_DATA_TYPE = ''Invalid or unsupported data type: %s''"
| "ERROR_MESSAGES ER_SYNTAX_ERROR = ''Syntax error: %s''"
| "ERROR_MESSAGES ER_LIMIT_EXCEEDED = ''Limit exceeded: %s''"
| "ERROR_MESSAGES ER_OTHER = ''Unknown error occured with the parser %s''"

text \<open>A \<open>printf\<close> template with one \<open>%s\<close>.\<close>

fun format_s :: "string \<Rightarrow> string \<Rightarrow> string" where
  "format_s [] d = []"
| "format_s [c] d = [c]"
| "format_s (c # c' # t) d =
     (if c = CHR ''%'' \<and> c' = CHR ''s'' then d @ t else c # format_s (c' # t) d)"

definition takes_detail :: "ParseError \<Rightarrow> bool" where
  "takes_detail e \<longleftrightarrow> e = ER_MISSING_ARGUMENT \<or> e = ER_UNEXPECTED_ARGUMENT \<or> e = ER_INVALID_IDENTIFIER \<or>
     e = ER_INVALID_DATA_TYPE \<or> e = ER_SYNTAX_ERROR"

definition parse_error :: "ParseError \<Rightarrow> string option \<Rightarrow> Command" where
  "parse_error e detail =
    OP_ERROR (case detail of
                Some d \<Rightarrow> if takes_detail e then snprintf_buf MAX_ERROR_LENGTH (format_s (ERROR_MESSAGES e) d)
                          else copy_name MAX_ERROR_LENGTH (ERROR_MESSAGES e)
              | None \<Rightarrow> copy_name MAX_ERROR_LENGTH (ERROR_MESSAGES e))"

subsection \<open>Tokens\<close>

definition skip_whitespace :: "string \<Rightarrow> string" where
  "skip_whitespace s = dropWhile (\<lambda>c. c = CHR '' '' \<or> c = CHR 0x09) s"

definition token :: "string \<Rightarrow> string" where
  "token s = takeWhile (\<lambda>c. \<not> isspace c) s"

definition after_token :: "string \<Rightarrow> string" where
  "after_token s = skip_whitespace (dropWhile (\<lambda>c. \<not> isspace c) s)"

fun is_valid_identifier :: "string \<Rightarrow> bool" where
  "is_valid_identifier [] = False"
| "is_valid_identifier (c # s) =
     ((isalpha c \<or> c = CHR ''_'') \<and> list_all (\<lambda>c. isalnum c \<or> c = CHR ''_'') s)"

definition tokenize_single_arg :: "string \<Rightarrow> string option" where
  "tokenize_single_arg s =
    (let p = skip_whitespace s in if p = [] \<or> token p = [] then None else Some (token p))"

datatype ArgError = MissingFirst | MissingSecond

definition tokenize_args :: "string \<Rightarrow> ArgError + (string \<times> string)" where
  "tokenize_args s =
    (let p = skip_whitespace s in
     if p = [] \<or> token p = [] then Inl MissingFirst
     else let q = after_token p in
       if q = [] \<or> token q = [] then Inl MissingSecond else Inr (token p, token q))"

text \<open>The text up to the parenthesis that closes the one at depth 1; quotes hide parentheses.\<close>

fun close_paren :: "char option \<Rightarrow> nat \<Rightarrow> bool \<Rightarrow> string \<Rightarrow> string option" where
  "close_paren prev depth in_string [] = None"
| "close_paren prev depth in_string (c # p) =
     (if c = CHR 0x22 \<and> prev \<noteq> Some CHR 0x5C
      then map_option ((#) c) (close_paren (Some c) depth (\<not> in_string) p)
      else if \<not> in_string \<and> c = CHR ''(''
      then map_option ((#) c) (close_paren (Some c) (depth + 1) in_string p)
      else if \<not> in_string \<and> c = CHR '')''
      then (if depth = 1 then Some []
            else map_option ((#) c) (close_paren (Some c) (depth - 1) in_string p))
      else map_option ((#) c) (close_paren (Some c) depth in_string p))"

datatype SplitError = Unmatched | NoParen

definition split_at_paren :: "string \<Rightarrow> SplitError + (string \<times> string)" where
  "split_at_paren input =
    (let ptr = skip_whitespace input in
     case dropWhile (\<lambda>c. c \<noteq> CHR ''('') ptr of
       [] \<Rightarrow> Inl NoParen
     | _ # p \<Rightarrow>
         (case close_paren None 1 False p of
            None \<Rightarrow> Inl Unmatched
          | Some inside \<Rightarrow> Inr (takeWhile (\<lambda>c. c \<noteq> CHR ''('') ptr, inside)))"

subsection \<open>Numbers and strings\<close>

fun digits_value :: "cint \<Rightarrow> string \<Rightarrow> cint" where
  "digits_value v [] = v"
| "digits_value v (c # s) = digits_value (v * 10 + (of_char c - 48)) s"

definition parse_int :: "string \<Rightarrow> (cint \<times> string) option" where
  "parse_int s =
    (let neg = (peek 0 s = Some CHR ''-'');
         p = (if neg \<or> peek 0 s = Some CHR ''+'' then tl s else s);
         ds = takeWhile isdigit p
     in if ds = [] then None
        else Some (if neg then - digits_value 0 ds else digits_value 0 ds, dropWhile isdigit p))"

text \<open>
  \<open>strtod\<close> on decimal input, the only form that reaches it: an optional sign, digits with an optional
  point, an optional exponent that counts only if it has digits. \<open>None\<close> when there is no digit.
\<close>

fun nat_of_digits :: "nat \<Rightarrow> string \<Rightarrow> nat" where
  "nat_of_digits v [] = v"
| "nat_of_digits v (c # s) = nat_of_digits (v * 10 + (of_char c - 48)) s"

definition scan_exponent :: "string \<Rightarrow> int \<times> string" where
  "scan_exponent s =
    (case s of
       c # t \<Rightarrow>
         if c = CHR ''e'' \<or> c = CHR ''E''
         then let neg = (peek 0 t = Some CHR ''-'');
                  p = (if neg \<or> peek 0 t = Some CHR ''+'' then tl t else t);
                  ds = takeWhile isdigit p
              in if ds = [] then (0, s)
                 else (if neg then - int (nat_of_digits 0 ds) else int (nat_of_digits 0 ds), dropWhile isdigit p)
         else (0, s)
     | [] \<Rightarrow> (0, s))"

definition strtod :: "string \<Rightarrow> (cdouble \<times> string) option" where
  "strtod s =
    (let neg = (peek 0 s = Some CHR ''-'');
         p = (if neg \<or> peek 0 s = Some CHR ''+'' then tl s else s);
         whole = takeWhile isdigit p;
         p1 = dropWhile isdigit p;
         point = (peek 0 p1 = Some CHR ''.'');
         frac = (if point then takeWhile isdigit (tl p1) else []);
         p2 = (if point then dropWhile isdigit (tl p1) else p1)
     in if whole = [] \<and> frac = [] then None
        else case scan_exponent p2 of (x, rest) \<Rightarrow>
          Some (dbl_signed neg (dbl_of_decimal (nat_of_digits 0 (whole @ frac)) (x - int (length frac))), rest))"

definition parse_double :: "string \<Rightarrow> (cdouble \<times> string) option" where
  "parse_double s = strtod s"

definition unescape :: "char \<Rightarrow> char" where
  "unescape c =
    (if c = CHR ''n'' then CHR 0x0A else if c = CHR ''t'' then CHR 0x09
     else if c = CHR ''r'' then CHR 0x0D else c)"

text \<open>The characters up to the closing quote, with escapes resolved, and the rest behind the quote.\<close>

fun string_body :: "string \<Rightarrow> (string \<times> string) option" where
  "string_body [] = None"
| "string_body [c] = (if c = CHR 0x22 then Some ([], []) else None)"
| "string_body (c # c' # p) =
     (if c = CHR 0x22 then Some ([], c' # p)
      else if c = CHR 0x5C then map_option (\<lambda>(s, q). (unescape c' # s, q)) (string_body p)
      else map_option (\<lambda>(s, q). (c # s, q)) (string_body (c' # p)))"

definition parse_string :: "string \<Rightarrow> (string \<times> string) option" where
  "parse_string s = (case s of c # p \<Rightarrow> if c = CHR 0x22 then string_body p else None | [] \<Rightarrow> None)"

subsection \<open>Values\<close>

definition value_end :: "char option \<Rightarrow> bool" where
  "value_end c = ends_with (\<lambda>c. c = CHR '','' \<or> c = CHR '')'' \<or> c = CHR '']'' \<or> isspace c) c"

text \<open>The scan that tells a double from an integer.\<close>

definition looks_double :: "string \<Rightarrow> bool" where
  "looks_double p =
    (let s = (if peek 0 p = Some CHR ''-'' \<or> peek 0 p = Some CHR ''+'' then tl p else p)
     in list_ex (\<lambda>c. c = CHR ''.'' \<or> c = CHR ''e'' \<or> c = CHR ''E'')
          (takeWhile (\<lambda>c. isdigit c \<or> c = CHR ''.'' \<or> c = CHR ''e'' \<or> c = CHR ''E'') s))"

definition parse_number :: "string \<Rightarrow> int + (Data \<times> string)" where
  "parse_number p =
    (if looks_double p
     then case parse_double p of None \<Rightarrow> Inl (-4) | Some (d, q) \<Rightarrow> Inr (Data (-1) (U_d d), q)
     else case parse_int p of None \<Rightarrow> Inl (-5) | Some (i, q) \<Rightarrow> Inr (Data (-2) (U_i i), q))"

definition parse_quoted :: "string \<Rightarrow> int + (Data \<times> string)" where
  "parse_quoted p =
    (case parse_string p of
       None \<Rightarrow> Inl (-3)
     | Some (s, q) \<Rightarrow>
         if int (length s) > MAX_STRING_VALUE_LENGTH then Inl (-8)
         else Inr (Data (int (length s)) (U_s (Some s)), q))"

text \<open>
  An array literal behind its opening bracket, and one round of the loop over its elements, given the
  functions for what is nested in them.
\<close>

type_synonym value_parser = "string \<Rightarrow> (int + (Data \<times> string)) option"
type_synonym elems_parser = "string \<Rightarrow> Data list \<Rightarrow> int \<Rightarrow> (int + (Data list \<times> int \<times> string)) option"

definition parse_array :: "value_parser \<Rightarrow> elems_parser \<Rightarrow> value_parser" where
  "parse_array pv pe t =
    (let q = skip_whitespace t in
     if take 4 q = ''...+''
     then (case pv (drop 4 q) of
             None \<Rightarrow> None
           | Some (Inl e) \<Rightarrow> Some (Inl (-6))
           | Some (Inr (v, r)) \<Rightarrow>
               (case skip_whitespace r of
                  c # r' \<Rightarrow>
                    if c = CHR '']''
                    then Some (Inr (Data (array_tag (scalar_tag v)) (U_a (Some (AppendValue v))), r'))
                    else Some (Inl (-6))
                | [] \<Rightarrow> Some (Inl (-6))))
     else if peek 0 q = Some CHR '']''
     then Some (Inr (Data (-4) (U_a (Some (Elements []))), tl q))
     else (case pe q [] (-100) of
             None \<Rightarrow> None
           | Some (Inl e) \<Rightarrow> Some (Inl e)
           | Some (Inr (es, tag, r)) \<Rightarrow> Some (Inr (Data (array_tag tag) (U_a (Some (Elements es))), r))))"

definition value_step :: "value_parser \<Rightarrow> elems_parser \<Rightarrow> value_parser" where
  "value_step pv pe s =
    (case skip_whitespace s of
       [] \<Rightarrow> Some (Inl (-6))
     | c # t \<Rightarrow>
         if c = CHR 0x22 then Some (parse_quoted (c # t))
         else if strncasecmp_eq (c # t) ''true'' 4 \<and> value_end (peek 4 (c # t))
         then Some (Inr (Data (-3) (U_b True), drop 4 (c # t)))
         else if strncasecmp_eq (c # t) ''false'' 5 \<and> value_end (peek 5 (c # t))
         then Some (Inr (Data (-3) (U_b False), drop 5 (c # t)))
         else if c = CHR ''-'' \<or> c = CHR ''+'' \<or> isdigit c then Some (parse_number (c # t))
         else if c = CHR ''['' then parse_array pv pe t
         else Some (Inl (-6)))"

definition elems_step :: "value_parser \<Rightarrow> elems_parser \<Rightarrow> elems_parser" where
  "elems_step pv pe p es first_tag =
    (if length es \<ge> MAX_ARRAY_LENGTH then Some (Inl (-6))
     else case pv (skip_whitespace p) of
            None \<Rightarrow> None
          | Some (Inl e) \<Rightarrow> Some (Inl (-6))
          | Some (Inr (v, q)) \<Rightarrow>
              let first = (if first_tag = -100 then scalar_tag v else first_tag)
              in if first \<noteq> scalar_tag v then Some (Inl (-6))
                 else (case skip_whitespace q of
                         c # r \<Rightarrow>
                           if c = CHR '','' then pe r (es @ [v]) first
                           else if c = CHR '']'' then Some (Inr (es @ [v], first, r))
                           else Some (Inl (-6))
                       | [] \<Rightarrow> Some (Inl (-6))))"

text \<open>
  The recursion of \<open>parse_single_value\<close>, which calls itself for the elements, and its loop. The fuel
  bounds both; the result is \<open>None\<close> if it runs out, which \<open>parse_single_value\<close> excludes by its choice.
\<close>

fun parse_value :: "nat \<Rightarrow> value_parser" and parse_elems :: "nat \<Rightarrow> elems_parser"
where
  "parse_value 0 s = None"
| "parse_value (Suc n) s = value_step (\<lambda>s. parse_value n s) (\<lambda>p es tag. parse_elems n p es tag) s"
| "parse_elems 0 p es tag = None"
| "parse_elems (Suc n) p es tag = elems_step (\<lambda>s. parse_value n s) (\<lambda>p es tag. parse_elems n p es tag) p es tag"

definition value_fuel :: "string \<Rightarrow> nat" where
  "value_fuel s = 2 * length s + 2"

definition parse_single_value :: "string \<Rightarrow> int + (Data \<times> string)" where
  "parse_single_value s = (case parse_value (value_fuel s) s of Some r \<Rightarrow> r | None \<Rightarrow> Inl (-6))"

text \<open>How many values the text seems to hold; the quotes inside strings are not told apart.\<close>

fun count_values :: "bool \<Rightarrow> nat \<Rightarrow> bool \<Rightarrow> nat \<Rightarrow> string \<Rightarrow> nat" where
  "count_values inString inBracket hasContent cnt [] = (if hasContent then cnt + 1 else cnt)"
| "count_values inString inBracket hasContent cnt (c # p) =
     (if c = CHR 0x22 then count_values (\<not> inString) inBracket True cnt p
      else if \<not> inString then
        (if c = CHR ''['' then count_values inString (inBracket + 1) True cnt p
         else if c = CHR '']'' then count_values inString (inBracket - 1) True cnt p
         else if c = CHR '','' \<and> inBracket = 0 then count_values inString inBracket hasContent (cnt + 1) p
         else if \<not> isspace c then count_values inString inBracket True cnt p
         else count_values inString inBracket hasContent cnt p)
      else count_values inString inBracket True cnt p)"

fun values_loop :: "nat \<Rightarrow> string \<Rightarrow> int + Data list" where
  "values_loop 0 p = Inr []"
| "values_loop (Suc n) p =
    (case parse_single_value (skip_whitespace p) of
       Inl e \<Rightarrow> Inl e
     | Inr (v, q) \<Rightarrow>
         (case skip_whitespace q of
            [] \<Rightarrow> Inr [v]
          | c # r \<Rightarrow>
              if c = CHR '','' then (case values_loop n r of Inl e \<Rightarrow> Inl e | Inr vs \<Rightarrow> Inr (v # vs))
              else Inl (-7)))"

text \<open>The values that were counted but not parsed keep what they were initialised with.\<close>

definition pad_to :: "nat \<Rightarrow> 'a \<Rightarrow> 'a list \<Rightarrow> 'a list" where
  "pad_to n x xs = xs @ replicate (n - length xs) x"

definition tokenize_values :: "string \<Rightarrow> int + Data list" where
  "tokenize_values s =
    (let count = count_values False 0 False 0 s in
     if count = 0 then Inl (-2)
     else case values_loop count s of Inl e \<Rightarrow> Inl e | Inr vs \<Rightarrow> Inr (pad_to count (Data 0 (U_i 0)) vs))"

definition parse_update_value :: "string \<Rightarrow> int + ((Data \<times> bool) \<times> string)" where
  "parse_update_value s =
    (let p = skip_whitespace s in
     if peek 0 p = Some CHR ''_'' \<and>
        ends_with (\<lambda>c. c = CHR '','' \<or> c = CHR '')'' \<or> isspace c) (peek 1 p)
     then Inr ((Data 0 U_zero, True), tl p)
     else case parse_single_value p of Inl e \<Rightarrow> Inl e | Inr (v, q) \<Rightarrow> Inr ((v, False), q))"

fun update_values_loop :: "nat \<Rightarrow> string \<Rightarrow> int + (Data \<times> bool) list" where
  "update_values_loop 0 p = Inr []"
| "update_values_loop (Suc n) p =
    (case parse_update_value (skip_whitespace p) of
       Inl e \<Rightarrow> Inl e
     | Inr (v, q) \<Rightarrow>
         (case skip_whitespace q of
            [] \<Rightarrow> Inr [v]
          | c # r \<Rightarrow>
              if c = CHR '','' then (case update_values_loop n r of Inl e \<Rightarrow> Inl e | Inr vs \<Rightarrow> Inr (v # vs))
              else Inl (-7)))"

definition tokenize_update_values :: "string \<Rightarrow> int + (Data \<times> bool) list" where
  "tokenize_update_values s =
    (let count = count_values False 0 False 0 s in
     if count = 0 then Inl (-2)
     else case update_values_loop count s of
            Inl e \<Rightarrow> Inl e
          | Inr vs \<Rightarrow> Inr (pad_to count (Data 0 U_zero, False) vs))"

subsection \<open>Field definitions\<close>

definition parse_field_type :: "string \<Rightarrow> FieldType option" where
  "parse_field_type s =
    (if strcasecmp_eq s ''int'' then Some TYPE_INT
     else if strcasecmp_eq s ''double'' then Some TYPE_DOUBLE
     else if strcasecmp_eq s ''bool'' then Some TYPE_BOOL
     else if strcasecmp_eq s ''string'' then Some TYPE_STRING
     else if strcasecmp_eq s ''int[]'' then Some TYPE_INT_ARRAY
     else if strcasecmp_eq s ''double[]'' then Some TYPE_DOUBLE_ARRAY
     else if strcasecmp_eq s ''bool[]'' then Some TYPE_BOOL_ARRAY
     else if strcasecmp_eq s ''string[]'' then Some TYPE_STRING_ARRAY
     else None)"

definition TYPE_STR_LENGTH :: nat where "TYPE_STR_LENGTH = 32"

text \<open>A word of a field definition, cut at the size of the buffer it is copied to.\<close>

definition field_word :: "nat \<Rightarrow> string \<Rightarrow> string" where
  "field_word n p = take (n - 1) (takeWhile (\<lambda>c. \<not> isspace c \<and> c \<noteq> CHR '','' \<and> c \<noteq> CHR '')'') p)"

definition parse_single_field :: "string \<Rightarrow> int + (Field \<times> string)" where
  "parse_single_field s =
    (let p = skip_whitespace s; typeStr = field_word TYPE_STR_LENGTH p in
     if typeStr = [] then Inl (-3)
     else case parse_field_type typeStr of
            None \<Rightarrow> Inl (-4)
          | Some t \<Rightarrow>
              let q = skip_whitespace (drop (length typeStr) p);
                  name = field_word MAX_FIELD_NAME_LENGTH q
              in if name = [] then Inl (-5)
                 else if \<not> is_valid_identifier name then Inl (-6)
                 else Inr (\<lparr>fieldName = name, fieldType = t\<rparr>, drop (length name) q))"

definition count_fields :: "string \<Rightarrow> nat" where
  "count_fields s =
    length (filter (\<lambda>c. c = CHR '','') s) + (if list_ex (\<lambda>c. c \<noteq> CHR '','' \<and> \<not> isspace c) s then 1 else 0)"

fun fields_loop :: "nat \<Rightarrow> string \<Rightarrow> int + Field list" where
  "fields_loop 0 p = Inr []"
| "fields_loop (Suc n) p =
    (case parse_single_field (skip_whitespace p) of
       Inl e \<Rightarrow> Inl e
     | Inr (f, q) \<Rightarrow>
         (case skip_whitespace q of
            [] \<Rightarrow> Inr [f]
          | c # r \<Rightarrow>
              if c = CHR '','' then (case fields_loop n r of Inl e \<Rightarrow> Inl e | Inr fs \<Rightarrow> Inr (f # fs))
              else Inl (-7)))"

text \<open>\<open>None\<close>: the array would be returned with fields that were never written.\<close>

definition tokenize_fields :: "string \<Rightarrow> (int + Field list) run" where
  "tokenize_fields s =
    (let count = count_fields s in
     if count = 0 then Some (Inl (-2))
     else case fields_loop count s of
            Inl e \<Rightarrow> Some (Inl e)
          | Inr fs \<Rightarrow> if length fs = count then Some (Inr fs) else None)"

datatype NameError = NameMissing | NameInvalid

fun names_loop :: "nat \<Rightarrow> string \<Rightarrow> NameError + string list" where
  "names_loop 0 p = Inr []"
| "names_loop (Suc n) p0 =
    (let p = skip_whitespace p0;
         name = takeWhile (\<lambda>c. c \<noteq> CHR '','' \<and> \<not> isspace c) p;
         q = skip_whitespace (dropWhile (\<lambda>c. c \<noteq> CHR '','' \<and> \<not> isspace c) p)
     in if name = [] then Inl NameMissing
        else if \<not> is_valid_identifier name then Inl NameInvalid
        else case names_loop n (if peek 0 q = Some CHR '','' then tl q else q) of
               Inl e \<Rightarrow> Inl e
             | Inr ns \<Rightarrow> Inr (name # ns))"

text \<open>The names inside the parentheses of \<open>GET\<close>, \<open>GET_ALL\<close> and \<open>SEARCH\<close>; none for empty parentheses.\<close>

definition parse_names :: "string \<Rightarrow> NameError + string list" where
  "parse_names inside =
    (let p = skip_whitespace inside in
     if p = [] then Inr [] else names_loop (length (filter (\<lambda>c. c = CHR '','') p) + 1) p)"

subsection \<open>Commands\<close>

definition parse_auth :: "string \<Rightarrow> Command" where
  "parse_auth input =
    (let p = skip_whitespace input;
         tok = takeWhile (\<lambda>c. c \<noteq> CHR '' '' \<and> c \<noteq> CHR 0x09 \<and> c \<noteq> CHR 0x0A) p
     in if p = [] then parse_error ER_INVALID_AUTH_FORMAT None
        else if tok = [] \<or> length tok \<ge> AUTH_TOKEN_BUF_SIZE then parse_error ER_INVALID_AUTH_FORMAT None
        else if skip_whitespace (drop (length tok) p) \<noteq> [] then parse_error ER_INVALID_AUTH_FORMAT None
        else OP_AUTH \<lparr>auth_token = tok\<rparr>)"

definition blank_end :: "char option \<Rightarrow> bool" where
  "blank_end c = ends_with (\<lambda>c. c = CHR '' '' \<or> c = CHR 0x09) c"

definition key_name :: "string \<Rightarrow> string" where
  "key_name p = takeWhile (\<lambda>c. c \<noteq> CHR '' '' \<and> c \<noteq> CHR 0x09) p"

definition parse_role :: "string \<Rightarrow> (KeyRole \<times> string) option" where
  "parse_role p =
    (if strncasecmp_eq p ''admin'' 5 \<and> blank_end (peek 5 p) then Some (ROLE_ADMIN, drop 5 p)
     else if strncasecmp_eq p ''readonly'' 8 \<and> blank_end (peek 8 p) then Some (ROLE_READONLY, drop 8 p)
     else None)"

definition parse_add_key :: "string \<Rightarrow> Command" where
  "parse_add_key input =
    (let p = skip_whitespace input; name = key_name p; q = skip_whitespace (drop (length name) p) in
     if p = [] then parse_error ER_INVALID_ADD_KEY_FORMAT None
     else if name = [] \<or> length name \<ge> AUTH_KEY_NAME_MAX then parse_error ER_INVALID_ADD_KEY_FORMAT None
     else if q = [] then parse_error ER_INVALID_ADD_KEY_FORMAT None
     else case parse_role q of
            None \<Rightarrow> parse_error ER_INVALID_ADD_KEY_FORMAT None
          | Some (role, r) \<Rightarrow>
              if skip_whitespace r \<noteq> [] then parse_error ER_INVALID_ADD_KEY_FORMAT None
              else OP_ADD_KEY \<lparr>add_key_name = name, add_key_role = role\<rparr>)"

definition parse_del_key :: "string \<Rightarrow> Command" where
  "parse_del_key input =
    (let p = skip_whitespace input; name = key_name p in
     if p = [] then parse_error ER_INVALID_DEL_KEY_FORMAT None
     else if name = [] \<or> length name \<ge> AUTH_KEY_NAME_MAX then parse_error ER_INVALID_DEL_KEY_FORMAT None
     else if skip_whitespace (drop (length name) p) \<noteq> [] then parse_error ER_INVALID_DEL_KEY_FORMAT None
     else OP_DEL_KEY \<lparr>del_key_name = name\<rparr>)"

text \<open>A database or field name that has to be an identifier, cut to the size of its buffer.\<close>

definition with_name :: "nat \<Rightarrow> string \<Rightarrow> (string \<Rightarrow> Command) \<Rightarrow> Command" where
  "with_name n s k =
    (if is_valid_identifier s then k (copy_name n s) else parse_error ER_INVALID_IDENTIFIER (Some s))"

definition with_key :: "string \<Rightarrow> string \<Rightarrow> (cint \<Rightarrow> Command) \<Rightarrow> Command" where
  "with_key s msg k =
    (case parse_int s of
       Some (i, []) \<Rightarrow> k i
     | _ \<Rightarrow> parse_error ER_SYNTAX_ERROR (Some msg))"

definition fields_error :: "int \<Rightarrow> Command" where
  "fields_error e =
    (if e = -2 then parse_error ER_MISSING_ARGUMENT (Some ''field definitions'')
     else if e = -3 then parse_error ER_MISSING_ARGUMENT (Some ''field type'')
     else if e = -4 then parse_error ER_INVALID_DATA_TYPE (Some ''unknown type'')
     else if e = -5 then parse_error ER_MISSING_ARGUMENT (Some ''field name'')
     else if e = -6 then parse_error ER_INVALID_IDENTIFIER (Some ''invalid field name'')
     else parse_error ER_SYNTAX_ERROR (Some (''expected '' @ [CHR 0x27] @ '','' @ [CHR 0x27] @ '' or end of fields'')))"

definition parse_create :: "string \<Rightarrow> Command run" where
  "parse_create input =
    (case split_at_paren input of
       Inl Unmatched \<Rightarrow> Some (parse_error ER_SYNTAX_ERROR (Some ''unmatched parenthesis''))
     | Inl NoParen \<Rightarrow> Some (parse_error ER_INVALID_CREATE_FORMAT None)
     | Inr (before_paren, inside_paren) \<Rightarrow>
         (case tokenize_single_arg before_paren of
            None \<Rightarrow> Some (parse_error ER_MISSING_ARGUMENT (Some ''database name''))
          | Some name \<Rightarrow>
              if \<not> is_valid_identifier name then Some (parse_error ER_INVALID_IDENTIFIER (Some name))
              else do {
                res \<leftarrow> tokenize_fields inside_paren;
                Some (case res of
                        Inl e \<Rightarrow> fields_error e
                      | Inr fs \<Rightarrow>
                          if list_ex (\<lambda>f. strcasecmp_eq (fieldName f) ''key'') fs
                          then parse_error ER_INVALID_IDENTIFIER
                                 (Some ([CHR 0x27] @ ''key'' @ [CHR 0x27] @ '' is a reserved field name''))
                          else if length fs > MAX_FIELDS_PER_DB
                          then parse_error ER_LIMIT_EXCEEDED (Some ''too many fields'')
                          else OP_CREATE \<lparr>create_dbName = copy_name MAX_DB_NAME_LENGTH name,
                                          create_fields = fs\<rparr>) }))"

definition values_error :: "int \<Rightarrow> Command" where
  "values_error e =
    (if e = -2 then parse_error ER_MISSING_ARGUMENT (Some ''values'')
     else if e = -3 then parse_error ER_SYNTAX_ERROR (Some ''unterminated string'')
     else if e = -4 then parse_error ER_SYNTAX_ERROR (Some ''invalid double value'')
     else if e = -5 then parse_error ER_SYNTAX_ERROR (Some ''invalid integer value'')
     else if e = -6 then parse_error ER_SYNTAX_ERROR (Some ''invalid value'')
     else if e = -7 then parse_error ER_SYNTAX_ERROR
       (Some (''expected '' @ [CHR 0x27] @ '','' @ [CHR 0x27] @ '' or '' @ [CHR 0x27] @ '')'' @ [CHR 0x27]))
     else parse_error ER_LIMIT_EXCEEDED (Some ''string value too long''))"

definition args_error :: "string \<Rightarrow> ArgError \<Rightarrow> Command" where
  "args_error second e =
    parse_error ER_MISSING_ARGUMENT (Some (case e of MissingFirst \<Rightarrow> ''database name'' | MissingSecond \<Rightarrow> second))"

definition split_error :: "ParseError \<Rightarrow> SplitError \<Rightarrow> Command" where
  "split_error fmt e =
    (case e of Unmatched \<Rightarrow> parse_error ER_SYNTAX_ERROR (Some ''unmatched parenthesis'')
             | NoParen \<Rightarrow> parse_error fmt None)"

definition parse_add :: "string \<Rightarrow> Command" where
  "parse_add args =
    (case split_at_paren args of
       Inl e \<Rightarrow> split_error ER_INVALID_ADD_FORMAT e
     | Inr (before_paren, inside_paren) \<Rightarrow>
         (case tokenize_args before_paren of
            Inl e \<Rightarrow> args_error ''key'' e
          | Inr (name, key_str) \<Rightarrow>
              with_name MAX_DB_NAME_LENGTH name (\<lambda>db.
                let finish = (\<lambda>key auto.
                      case tokenize_values inside_paren of
                        Inl e \<Rightarrow> values_error e
                      | Inr vs \<Rightarrow> OP_ADD \<lparr>add_dbName = db, add_key = key, add_values = vs, add_autoKey = auto\<rparr>)
                in if key_str = ''*'' then finish 0 True
                   else with_key key_str (''key must be an integer or '' @ [CHR 0x27] @ ''*'' @ [CHR 0x27])
                          (\<lambda>key. finish key False))))"

definition parse_up :: "string \<Rightarrow> Command" where
  "parse_up args =
    (case split_at_paren args of
       Inl e \<Rightarrow> split_error ER_INVALID_UPDATE_FORMAT e
     | Inr (before_paren, inside_paren) \<Rightarrow>
         (case tokenize_args before_paren of
            Inl e \<Rightarrow> args_error ''key'' e
          | Inr (name, key_str) \<Rightarrow>
              with_name MAX_DB_NAME_LENGTH name (\<lambda>db.
                with_key key_str ''key must be an integer'' (\<lambda>key.
                  case tokenize_update_values inside_paren of
                    Inl e \<Rightarrow> values_error e
                  | Inr vs \<Rightarrow> OP_UP \<lparr>up_dbName = db, up_key = key, up_values = map fst vs,
                                    up_ignoreFlags = Some (map snd vs)\<rparr>))))"

definition names_error :: "string \<Rightarrow> string \<Rightarrow> NameError \<Rightarrow> Command" where
  "names_error missing invalid e =
    (case e of NameMissing \<Rightarrow> parse_error ER_MISSING_ARGUMENT (Some missing)
             | NameInvalid \<Rightarrow> parse_error ER_INVALID_IDENTIFIER (Some invalid))"

text \<open>The two forms of \<open>GET\<close>: with parentheses, and without.\<close>

definition parse_get_fields :: "string \<Rightarrow> Command" where
  "parse_get_fields args =
    (case split_at_paren args of
       Inl e \<Rightarrow> split_error ER_INVALID_GET_FORMAT e
     | Inr (before_paren, inside_paren) \<Rightarrow>
         (case tokenize_args before_paren of
            Inl e \<Rightarrow> args_error ''key'' e
          | Inr (name, key_str) \<Rightarrow>
              with_name MAX_DB_NAME_LENGTH name (\<lambda>db.
                with_key key_str ''key must be an integer'' (\<lambda>key.
                  case parse_names inside_paren of
                    Inl e \<Rightarrow> names_error ''field name'' ''invalid field name'' e
                  | Inr ns \<Rightarrow> OP_GET \<lparr>get_dbName = db, get_key = key, get_fields = ns\<rparr>))))"

definition parse_get_row :: "string \<Rightarrow> Command" where
  "parse_get_row args =
    (if CHR '')'' \<in> set args then parse_error ER_SYNTAX_ERROR (Some ''unmatched parenthesis'')
     else case tokenize_args args of
            Inl e \<Rightarrow> args_error ''key'' e
          | Inr (name, key_str) \<Rightarrow>
              with_name MAX_DB_NAME_LENGTH name (\<lambda>db.
                with_key key_str ''key must be an integer'' (\<lambda>key.
                  if after_token (after_token (skip_whitespace args)) \<noteq> []
                  then parse_error ER_SYNTAX_ERROR (Some ''unexpected arguments after key'')
                  else OP_GET \<lparr>get_dbName = db, get_key = key, get_fields = []\<rparr>)))"

definition parse_get :: "string \<Rightarrow> Command" where
  "parse_get args = (if CHR ''('' \<in> set args then parse_get_fields args else parse_get_row args)"

definition parse_del :: "string \<Rightarrow> Command" where
  "parse_del input =
    (case tokenize_args input of
       Inl e \<Rightarrow> args_error ''key'' e
     | Inr (name, key_str) \<Rightarrow>
         with_name MAX_DB_NAME_LENGTH name (\<lambda>db.
           with_key key_str ''key must be an integer'' (\<lambda>key.
             if after_token (after_token (skip_whitespace input)) \<noteq> []
             then parse_error ER_SYNTAX_ERROR (Some ''unexpected arguments after key'')
             else OP_DEL \<lparr>del_dbName = db, del_key = key\<rparr>)))"

definition parse_get_all_fields :: "string \<Rightarrow> Command" where
  "parse_get_all_fields input =
    (case split_at_paren input of
       Inl e \<Rightarrow> split_error ER_INVALID_GET_FORMAT e
     | Inr (before_paren, inside_paren) \<Rightarrow>
         (case tokenize_single_arg before_paren of
            None \<Rightarrow> parse_error ER_MISSING_ARGUMENT (Some ''database name'')
          | Some name \<Rightarrow>
              with_name MAX_DB_NAME_LENGTH name (\<lambda>db.
                case parse_names inside_paren of
                  Inl e \<Rightarrow> names_error ''field name'' ''invalid field name'' e
                | Inr ns \<Rightarrow> OP_GET_ALL \<lparr>get_all_dbName = db, get_all_fields = ns\<rparr>)))"

definition parse_get_all_rows :: "string \<Rightarrow> Command" where
  "parse_get_all_rows input =
    (if CHR '')'' \<in> set input then parse_error ER_SYNTAX_ERROR (Some ''unmatched parenthesis'')
     else case tokenize_single_arg input of
            None \<Rightarrow> parse_error ER_MISSING_ARGUMENT (Some ''database name'')
          | Some name \<Rightarrow>
              with_name MAX_DB_NAME_LENGTH name (\<lambda>db.
                if after_token (skip_whitespace input) \<noteq> []
                then parse_error ER_SYNTAX_ERROR (Some ''unexpected arguments after database name'')
                else OP_GET_ALL \<lparr>get_all_dbName = db, get_all_fields = []\<rparr>))"

definition parse_get_all :: "string \<Rightarrow> Command" where
  "parse_get_all input = (if CHR ''('' \<in> set input then parse_get_all_fields input else parse_get_all_rows input)"

text \<open>The three parts of a search in front of the parentheses; the value is the rest.\<close>

definition search_parts :: "string \<Rightarrow> string + (string \<times> string \<times> string)" where
  "search_parts s =
    (let p = skip_whitespace s; q = after_token p; r = after_token q in
     if token p = [] then Inl ''database name''
     else if q = [] \<or> token q = [] then Inl ''field name''
     else if r = [] then Inl ''search value''
     else Inr (token p, token q, r))"

text \<open>
  The end of \<open>parse_search\<close>: on an error \<open>parse_single_value\<close> leaves the pointer at the start of the
  value, so that the check for trailing text overrides the error code.
\<close>

definition search_code :: "string \<Rightarrow> int \<times> Data" where
  "search_code value_str =
    (case parse_single_value value_str of
       Inl e \<Rightarrow> (if skip_whitespace value_str \<noteq> [] then -6 else e, Data 0 (U_i 0))
     | Inr (v, q) \<Rightarrow> (if skip_whitespace q \<noteq> [] then -6 else 0, v))"

definition finish_search :: "string \<Rightarrow> string \<Rightarrow> string \<Rightarrow> string list \<Rightarrow> Command" where
  "finish_search name field value_str ns =
    with_name MAX_DB_NAME_LENGTH name (\<lambda>db.
      with_name MAX_FIELD_NAME_LENGTH field (\<lambda>fld.
        case search_code value_str of (result, v) \<Rightarrow>
          if result = 0
          then OP_SEARCH \<lparr>search_dbName = db, search_fieldName = fld, search_value = v, search_returnFields = ns\<rparr>
          else if result = -3 then parse_error ER_SYNTAX_ERROR (Some ''unterminated string in search value'')
          else if result = -4 then parse_error ER_SYNTAX_ERROR (Some ''invalid double value'')
          else if result = -5 then parse_error ER_SYNTAX_ERROR (Some ''invalid integer value'')
          else if result = -8 then parse_error ER_LIMIT_EXCEEDED (Some ''string value too long'')
          else parse_error ER_SYNTAX_ERROR (Some ''invalid search value'')))"

definition parse_search :: "string \<Rightarrow> Command" where
  "parse_search input =
    (if CHR ''('' \<in> set input
     then case split_at_paren input of
            Inl e \<Rightarrow> split_error ER_INVALID_SEARCH_FORMAT e
          | Inr (before_paren, inside_paren) \<Rightarrow>
              (case search_parts before_paren of
                 Inl m \<Rightarrow> parse_error ER_MISSING_ARGUMENT (Some m)
               | Inr (name, field, value_str) \<Rightarrow>
                   (case parse_names inside_paren of
                      Inl e \<Rightarrow> names_error ''return field name'' ''invalid return field name'' e
                    | Inr ns \<Rightarrow> finish_search name field value_str ns))
     else if CHR '')'' \<in> set input then parse_error ER_SYNTAX_ERROR (Some ''unmatched parenthesis'')
     else case search_parts input of
            Inl m \<Rightarrow> parse_error ER_MISSING_ARGUMENT (Some m)
          | Inr (name, field, value_str) \<Rightarrow> finish_search name field value_str [])"

definition parse_count :: "string \<Rightarrow> Command" where
  "parse_count input =
    (case tokenize_single_arg input of
       None \<Rightarrow> parse_error ER_MISSING_ARGUMENT (Some ''database name'')
     | Some name \<Rightarrow>
         with_name MAX_DB_NAME_LENGTH name (\<lambda>db.
           if after_token (skip_whitespace input) \<noteq> []
           then parse_error ER_SYNTAX_ERROR (Some ''unexpected arguments after database name'')
           else OP_COUNT \<lparr>count_dbName = db\<rparr>))"

definition parse_create_index :: "string \<Rightarrow> Command" where
  "parse_create_index input =
    (case tokenize_args input of
       Inl e \<Rightarrow> args_error ''field name'' e
     | Inr (name, field) \<Rightarrow>
         with_name MAX_DB_NAME_LENGTH name (\<lambda>db.
           with_name MAX_FIELD_NAME_LENGTH field (\<lambda>fld.
             if after_token (after_token (skip_whitespace input)) \<noteq> []
             then parse_error ER_SYNTAX_ERROR (Some ''unexpected arguments after field name'')
             else OP_CREATE_INDEX \<lparr>create_index_dbName = db, create_index_fieldName = fld\<rparr>)))"

definition parse_del_table :: "string \<Rightarrow> Command" where
  "parse_del_table input =
    (case tokenize_single_arg input of
       None \<Rightarrow> parse_error ER_MISSING_ARGUMENT (Some ''database name'')
     | Some name \<Rightarrow>
         with_name MAX_DB_NAME_LENGTH name (\<lambda>db.
           if after_token (skip_whitespace input) \<noteq> []
           then parse_error ER_SYNTAX_ERROR (Some ''unexpected arguments after database name'')
           else OP_DEL_TABLE \<lparr>del_table_dbName = db\<rparr>))"

definition parse_list_keys :: Command where
  "parse_list_keys = OP_LIST_KEYS"

definition parse_whoami :: Command where
  "parse_whoami = OP_WHOAMI \<lparr>whoami_name = []\<rparr>"

definition COMMAND_STRINGS :: "string list" where
  "COMMAND_STRINGS = [''CREATE'', ''ADD'', ''UP'', ''GET'', ''DEL'', ''GET_ALL'', ''SEARCH'', ''COUNT'',
     ''CREATE_INDEX'', ''AUTH'', ''ADD_KEY'', ''DEL_KEY'', ''LIST_KEYS'', ''WHOAMI'', ''DEL_TABLE'']"

definition starts_command :: "string \<Rightarrow> string \<Rightarrow> bool" where
  "starts_command input c \<longleftrightarrow> length input \<ge> length c \<and> strncasecmp_eq input c (length c) \<and> blank_end (peek (length c) input)"

text \<open>The position of the command in \<open>COMMAND_STRINGS\<close>, which is its value in the enumeration \<open>Operation\<close>.\<close>

definition determine_operation :: "string \<Rightarrow> nat option" where
  "determine_operation input =
    find (\<lambda>i. starts_command (skip_whitespace input) (COMMAND_STRINGS ! i)) [0..<length COMMAND_STRINGS]"

definition parse_args :: "nat \<Rightarrow> string \<Rightarrow> Command run" where
  "parse_args op args =
    (if op = 0 then parse_create args
     else if op = 1 then Some (parse_add args)
     else if op = 2 then Some (parse_up args)
     else if op = 3 then Some (parse_get args)
     else if op = 4 then Some (parse_del args)
     else if op = 5 then Some (parse_get_all args)
     else if op = 6 then Some (parse_search args)
     else if op = 7 then Some (parse_count args)
     else if op = 8 then Some (parse_create_index args)
     else if op = 9 then Some (parse_auth args)
     else if op = 10 then Some (parse_add_key args)
     else if op = 11 then Some (parse_del_key args)
     else if op = 12 then Some parse_list_keys
     else if op = 13 then Some parse_whoami
     else if op = 14 then Some (parse_del_table args)
     else Some (parse_error ER_INVALID_COMMAND None))"

definition parse_command :: "string \<Rightarrow> Command run" where
  "parse_command s =
    (if s = [] then Some (parse_error ER_INVALID_COMMAND None)
     else let input = skip_whitespace s in
       if input = [] then Some (parse_error ER_INVALID_COMMAND None)
       else case determine_operation input of
              None \<Rightarrow> Some (parse_error ER_INVALID_COMMAND None)
            | Some op \<Rightarrow> parse_args op (drop (length (COMMAND_STRINGS ! op)) input))"

text \<open>For evaluation: lowering a letter sets its sixth bit.\<close>

lemma to_lower_bits [code]:
  "to_lower (Char a b c d e f g h) =
    (if isupper (Char a b c d e f g h) then Char a b c d e True g h else Char a b c d e f g h)"
  by (cases a; cases b; cases c; cases d; cases e; cases f; cases g; cases h)
    (simp_all add: to_lower_def isupper_def char_of_def bit_numeral_rec bit_0)

end
