(* ===== verification/Parser_Facts.thy ===== *)
theory Parser_Facts
  imports Parser "HOL-Library.Sublist"
begin

text \<open>
  What the parser guarantees: it ends on every input, what it consumed is gone, its values carry the
  tags the handlers rely on, names fit their buffers, and text printed from values is read back.
\<close>

subsection \<open>Progress\<close>

named_theorems shorter \<open>what is left is not longer than the input\<close>

lemma skip_whitespace_shorter [shorter]: "length (skip_whitespace s) \<le> length s"
  by (simp add: skip_whitespace_def length_dropWhile_le)

lemma skip_whitespace_idem [simp]: "skip_whitespace (skip_whitespace s) = skip_whitespace s"
  by (simp add: skip_whitespace_def)

lemma dropWhile_shorter [shorter]: "length (dropWhile P s) \<le> length s"
  by (rule length_dropWhile_le)

lemma dropWhile_takeWhile_shorter: "takeWhile P s \<noteq> [] \<Longrightarrow> length (dropWhile P s) < length s"
  by (cases s) (auto simp: le_imp_less_Suc dropWhile_shorter split: if_splits)

lemma parse_int_shorter:
  assumes "parse_int s = Some (i, q)"
  shows "length q < length s"
proof -
  define p where "p = (if peek 0 s = Some CHR ''-'' \<or> peek 0 s = Some CHR ''+'' then tl s else s)"
  have "takeWhile isdigit p \<noteq> []" "q = dropWhile isdigit p"
    using assms by (auto simp: parse_int_def p_def Let_def split: if_splits)
  moreover have "length p \<le> length s" by (simp add: p_def)
  ultimately show ?thesis using dropWhile_takeWhile_shorter [of isdigit p] by simp
qed

lemma scan_exponent_shorter: "scan_exponent s = (x, q) \<Longrightarrow> length q \<le> length s"
  by (auto simp: scan_exponent_def Let_def dropWhile_shorter le_SucI le_trans [OF dropWhile_shorter]
      split: list.splits if_splits)

lemma strtod_shorter:
  assumes "strtod s = Some (d, q)"
  shows "length q < length s"
proof -
  define p where "p = (if peek 0 s = Some CHR ''-'' \<or> peek 0 s = Some CHR ''+'' then tl s else s)"
  define p1 where "p1 = dropWhile isdigit p"
  define pt where "pt \<longleftrightarrow> peek 0 p1 = Some CHR ''.''"
  define f where "f = (if pt then takeWhile isdigit (tl p1) else [])"
  define p2 where "p2 = (if pt then dropWhile isdigit (tl p1) else p1)"
  from assms have ne: "takeWhile isdigit p \<noteq> [] \<or> f \<noteq> []" and q: "q = snd (scan_exponent p2)"
    by (auto simp: strtod_def Let_def p_def [symmetric] p1_def [symmetric] pt_def [symmetric] f_def p2_def
        split: if_splits prod.splits)
  have "length p \<le> length s" by (simp add: p_def)
  moreover have le: "length p2 \<le> length p1" by (simp add: p2_def le_trans [OF dropWhile_shorter])
  have "length p2 < length p"
  proof (cases "takeWhile isdigit p = []")
    case False
    with dropWhile_takeWhile_shorter [OF False] le show ?thesis by (simp add: p1_def)
  next
    case True
    with ne have "takeWhile isdigit (tl p1) \<noteq> []" pt by (auto simp: f_def split: if_splits)
    with dropWhile_takeWhile_shorter [of isdigit "tl p1"] dropWhile_shorter [of isdigit p] show ?thesis
      by (simp add: p2_def p1_def)
  qed
  moreover have "length q \<le> length p2"
    using q scan_exponent_shorter [of p2] by (metis prod.collapse)
  ultimately show ?thesis by linarith
qed

lemma string_body_shorter: "string_body p = Some (s, q) \<Longrightarrow> length q < length p"
  by (induction p arbitrary: s q rule: string_body.induct) (fastforce split: if_splits)+

lemma parse_number_shorter: "parse_number p = Inr (v, q) \<Longrightarrow> length q < length p"
  by (auto simp: parse_number_def parse_double_def strtod_shorter parse_int_shorter split: if_splits option.splits)

lemma parse_quoted_shorter: "parse_quoted p = Inr (v, q) \<Longrightarrow> length q < length p"
  by (auto simp: parse_quoted_def parse_string_def less_SucI string_body_shorter split: if_splits option.splits list.splits)

subsection \<open>Parsing a value ends\<close>

lemma parse_array_shorter:
  assumes "parse_array pv pe t = Some (Inr (v, q))"
    and "\<And>s v q. pv s = Some (Inr (v, q)) \<Longrightarrow> length q < length s"
    and "\<And>s es t es' t' q. pe s es t = Some (Inr (es', t', q)) \<Longrightarrow> length q < length s"
  shows "length q \<le> length t"
proof -
  consider (append) w r r' where "pv (drop 4 (skip_whitespace t)) = Some (Inr (w, r))" "skip_whitespace r = CHR '']'' # r'" "q = r'"
    | (empty) "q = tl (skip_whitespace t)"
    | (elems) es tag where "pe (skip_whitespace t) [] (-100) = Some (Inr (es, tag, q))"
    using assms(1) by (auto simp: parse_array_def Let_def split: if_splits option.splits sum.splits list.splits)
  then show ?thesis
  proof cases
    case append
    with assms(2) [OF append(1)] skip_whitespace_shorter [of r] skip_whitespace_shorter [of t] show ?thesis by simp
  next
    case empty
    with skip_whitespace_shorter [of t] show ?thesis by simp
  next
    case elems
    with assms(3) [OF elems] skip_whitespace_shorter [of t] show ?thesis by simp
  qed
qed

lemma value_step_shorter:
  assumes "value_step pv pe s = Some (Inr (v, q))"
    and pv: "\<And>s v q. pv s = Some (Inr (v, q)) \<Longrightarrow> length q < length s"
    and pe: "\<And>s es t es' t' q. pe s es t = Some (Inr (es', t', q)) \<Longrightarrow> length q < length s"
  shows "length q < length s"
proof -
  obtain c t where ct: "skip_whitespace s = c # t"
    using assms(1) by (auto simp: value_step_def split: list.splits)
  have "parse_array pv pe t = Some (Inr (v, q)) \<Longrightarrow> length q \<le> length t"
    by (erule parse_array_shorter) (blast intro: pv pe)+
  then have "length q < length (c # t)"
    using assms(1) ct parse_quoted_shorter [of "c # t" v q] parse_number_shorter [of "c # t" v q]
    by (auto simp: value_step_def split: if_splits)
  with ct skip_whitespace_shorter [of s] show ?thesis by simp
qed

lemma elems_step_shorter:
  assumes "elems_step pv pe s es t = Some (Inr (es', t', q))"
    and pv: "\<And>s v q. pv s = Some (Inr (v, q)) \<Longrightarrow> length q < length s"
    and pe: "\<And>s es t es' t' q. pe s es t = Some (Inr (es', t', q)) \<Longrightarrow> length q < length s"
  shows "length q < length s"
proof -
  obtain v q' c r where v: "pv (skip_whitespace s) = Some (Inr (v, q'))" "skip_whitespace q' = c # r"
    and rest: "(\<exists>es0 t0. pe r es0 t0 = Some (Inr (es', t', q))) \<or> q = r"
    using assms(1)
    by (fastforce simp: elems_step_def Let_def split: if_splits option.splits sum.splits list.splits)
  from rest have "length q \<le> length r" using pe by (auto intro: less_imp_le)
  with v pv [OF v(1)] skip_whitespace_shorter [of q'] skip_whitespace_shorter [of s] show ?thesis by simp
qed

lemma parse_value_shorter:
  "parse_value n s = Some (Inr (v, q)) \<Longrightarrow> length q < length s"
  "parse_elems n s es t = Some (Inr (es', t', q)) \<Longrightarrow> length q < length s"
proof (induction n arbitrary: s v q es t es' t')
  case (Suc n)
  { case 1 then show ?case by (simp only: parse_value.simps) (erule value_step_shorter; fact Suc) }
  { case 2 then show ?case by (simp only: parse_elems.simps) (erule elems_step_shorter; fact Suc) }
qed simp_all

lemma parse_array_total:
  assumes "\<And>s. length s < length t \<Longrightarrow> pv s \<noteq> None" "\<And>s es tag. length s \<le> length t \<Longrightarrow> pe s es tag \<noteq> None"
  shows "parse_array pv pe t \<noteq> None"
proof -
  have "take 4 (skip_whitespace t) = ''...+'' \<Longrightarrow> pv (drop 4 (skip_whitespace t)) \<noteq> None"
    using skip_whitespace_shorter [of t] by (intro assms(1)) (cases "skip_whitespace t"; auto)
  moreover have "pe (skip_whitespace t) [] (-100) \<noteq> None" by (intro assms(2) skip_whitespace_shorter)
  ultimately show ?thesis
    by (auto simp: parse_array_def Let_def split: option.splits sum.splits list.splits)
qed

lemma parse_value_enough:
  "2 * length s + 2 \<le> n \<Longrightarrow> parse_value n s \<noteq> None"
  "2 * length s + 3 \<le> n \<Longrightarrow> parse_elems n s es t \<noteq> None"
proof (induction n arbitrary: s es t)
  case (Suc n)
  { case 1
    have "parse_array (\<lambda>s. parse_value n s) (\<lambda>p es tag. parse_elems n p es tag) t \<noteq> None"
      if "skip_whitespace s = c # t" for c t
      using that skip_whitespace_shorter [of s] 1 Suc.IH by (intro parse_array_total) simp_all
    then show ?case by (auto simp: value_step_def split: list.splits) }
  { case 2
    have v: "parse_value n (skip_whitespace s) \<noteq> None"
      using 2 skip_whitespace_shorter [of s] by (intro Suc.IH(1)) simp
    have e: "parse_elems n r es' t' \<noteq> None"
      if "parse_value n (skip_whitespace s) = Some (Inr (v, q))" "skip_whitespace q = c # r" for v q c r es' t'
      using 2 that parse_value_shorter(1) [OF that(1)] skip_whitespace_shorter [of q] skip_whitespace_shorter [of s]
      by (intro Suc.IH(2)) simp
    show ?case using v e by (auto simp: elems_step_def Let_def split: option.splits sum.splits list.splits) }
qed simp_all

lemma parse_single_value_fuel: "parse_value (value_fuel s) s = Some (parse_single_value s)"
  using parse_value_enough(1) [of s "value_fuel s"] by (auto simp: value_fuel_def parse_single_value_def)

subsection \<open>Parsed values are tagged\<close>

text \<open>An array of arrays, or the request to append an array; the parser tags it as an array of strings.\<close>

definition nested :: "Data \<Rightarrow> bool" where
  "nested v \<longleftrightarrow> dsize v = -7 \<and>
    (case dvalue v of
       U_a (Some (AppendValue e)) \<Rightarrow> dsize e \<le> -4
     | U_a (Some (Elements (e # es))) \<Rightarrow> list_all (\<lambda>x. dsize x \<le> -4) (e # es)
     | _ \<Rightarrow> False)"

definition parsed :: "Data \<Rightarrow> bool" where
  "parsed v \<longleftrightarrow> tagged v \<or> nested v"

lemma array_tagged_size: "array_tagged v \<Longrightarrow> dsize v \<le> -4"
  by (auto simp: array_tagged_def array_tag_def split: UnionVal.splits option.splits ArrayData.splits list.splits)

lemma parsed_scalar: "parsed v \<Longrightarrow> dsize v > -4 \<Longrightarrow> scalar_tagged v"
  using array_tagged_size [of v] by (auto simp: parsed_def tagged_def nested_def)

lemma scalar_tagged_size: "scalar_tagged v \<Longrightarrow> dsize v > -4"
  by (auto simp: scalar_tagged_def split: UnionVal.splits option.splits)

lemma scalar_tag_cases: "scalar_tag e > -4 \<longleftrightarrow> dsize e > -4"
  by (simp add: scalar_tag_def)

lemma array_tag_deep: "t \<le> -4 \<Longrightarrow> array_tag t = -7"
  by (simp add: array_tag_def)

lemma parsed_append: "parsed e \<Longrightarrow> parsed (Data (array_tag (scalar_tag e)) (U_a (Some (AppendValue e))))"
  by (cases "dsize e > -4")
    (auto simp: parsed_def [of "Data _ _"] tagged_def array_tagged_def nested_def parsed_scalar scalar_tag_def array_tag_deep)

lemma parsed_elements:
  assumes "es \<noteq> []" "length es \<le> MAX_ARRAY_LENGTH" "list_all parsed es" "list_all (\<lambda>e. scalar_tag e = t) es"
  shows "parsed (Data (array_tag t) (U_a (Some (Elements es))))"
proof -
  from assms(1) obtain e es' where es: "es = e # es'" by (cases es) auto
  show ?thesis
  proof (cases "dsize e > -4")
    case True
    with assms es have "list_all scalar_tagged es"
      using parsed_scalar scalar_tag_cases by (auto simp: list_all_iff) metis
    with assms es show ?thesis
      by (auto simp: parsed_def tagged_def array_tagged_def list_all_iff)
  next
    case False
    with assms es show ?thesis by (auto simp: parsed_def nested_def scalar_tag_def array_tag_deep list_all_iff split: if_splits)
  qed
qed

lemma parse_number_tagged: "parse_number p = Inr (v, q) \<Longrightarrow> scalar_tagged v"
  by (auto simp: parse_number_def scalar_tagged_def split: if_splits option.splits)

lemma parse_quoted_tagged: "parse_quoted p = Inr (v, q) \<Longrightarrow> scalar_tagged v \<and> dsize v \<le> MAX_STRING_VALUE_LENGTH"
  by (auto simp: parse_quoted_def scalar_tagged_def split: if_splits option.splits)

definition elems_inv :: "Data list \<Rightarrow> int \<Rightarrow> bool" where
  "elems_inv es t \<longleftrightarrow> (if es = [] then t = -100
     else list_all parsed es \<and> list_all (\<lambda>e. scalar_tag e = t) es \<and> length es \<le> MAX_ARRAY_LENGTH)"

lemma parsed_not_sentinel: "parsed v \<Longrightarrow> scalar_tag v \<noteq> -100"
  using array_tagged_size [of v]
  by (auto simp: parsed_def tagged_def nested_def scalar_tag_def scalar_tagged_def array_tagged_def array_tag_def
      split: UnionVal.splits option.splits ArrayData.splits list.splits if_splits)

lemma parse_array_parsed:
  assumes "parse_array pv pe t = Some (Inr (v, q))"
    and "\<And>s v q. pv s = Some (Inr (v, q)) \<Longrightarrow> parsed v"
    and "\<And>s es t es' t' q. pe s es t = Some (Inr (es', t', q)) \<Longrightarrow> elems_inv es t \<Longrightarrow> elems_inv es' t' \<and> es' \<noteq> []"
  shows "parsed v"
proof -
  consider (append) w s r where "pv s = Some (Inr (w, r))" "v = Data (array_tag (scalar_tag w)) (U_a (Some (AppendValue w)))"
    | (empty) "v = Data (-4) (U_a (Some (Elements [])))"
    | (elems) es tag where "pe (skip_whitespace t) [] (-100) = Some (Inr (es, tag, q))"
        "v = Data (array_tag tag) (U_a (Some (Elements es)))"
    using assms(1) by (auto simp: parse_array_def Let_def split: if_splits option.splits sum.splits list.splits)
  then show ?thesis
  proof cases
    case append
    with assms(2) show ?thesis by (auto intro: parsed_append)
  next
    case empty
    then show ?thesis by (simp add: parsed_def tagged_def array_tagged_def)
  next
    case elems
    with assms(3) [OF elems(1)] show ?thesis by (auto simp: elems_inv_def intro: parsed_elements)
  qed
qed

lemma value_step_parsed:
  assumes "value_step pv pe s = Some (Inr (v, q))"
    and pv: "\<And>s v q. pv s = Some (Inr (v, q)) \<Longrightarrow> parsed v"
    and pe: "\<And>s es t es' t' q. pe s es t = Some (Inr (es', t', q)) \<Longrightarrow> elems_inv es t \<Longrightarrow> elems_inv es' t' \<and> es' \<noteq> []"
  shows "parsed v"
proof -
  have "parse_array pv pe t = Some (Inr (v, q)) \<Longrightarrow> parsed v" for t
    by (erule parse_array_parsed) (blast intro: pv, use pe in blast)
  then show ?thesis
    using assms(1) parse_quoted_tagged [of _ v q] parse_number_tagged [of _ v q]
    by (auto simp: value_step_def parsed_def tagged_def scalar_tagged_def [of "Data _ _"] split: if_splits list.splits)
qed

lemma elems_step_parsed:
  assumes "elems_step pv pe s es t = Some (Inr (es', t', q))" "elems_inv es t"
    and pv: "\<And>s v q. pv s = Some (Inr (v, q)) \<Longrightarrow> parsed v"
    and pe: "\<And>s es t es' t' q. pe s es t = Some (Inr (es', t', q)) \<Longrightarrow> elems_inv es t \<Longrightarrow> elems_inv es' t' \<and> es' \<noteq> []"
  shows "elems_inv es' t' \<and> es' \<noteq> []"
proof -
  from assms(1) obtain v q' c r where len: "length es < MAX_ARRAY_LENGTH"
    and v: "pv (skip_whitespace s) = Some (Inr (v, q'))"
    and first: "(if t = -100 then scalar_tag v else t) = scalar_tag v"
    and rest: "pe r (es @ [v]) (scalar_tag v) = Some (Inr (es', t', q)) \<or> es' = es @ [v] \<and> t' = scalar_tag v"
    by (fastforce simp: elems_step_def Let_def split: if_splits option.splits sum.splits list.splits)
  have "parsed v" by (rule pv [OF v])
  with assms(2) len first parsed_not_sentinel have inv: "elems_inv (es @ [v]) (scalar_tag v)"
    by (auto simp: elems_inv_def list_all_iff split: if_splits)
  from rest show ?thesis using pe [OF _ inv, of r es' t' q] inv by (elim disjE) simp_all
qed

lemma parse_value_parsed:
  "parse_value n s = Some (Inr (v, q)) \<Longrightarrow> parsed v"
  "parse_elems n s es t = Some (Inr (es', t', q)) \<Longrightarrow> elems_inv es t \<Longrightarrow> elems_inv es' t' \<and> es' \<noteq> []"
proof (induction n arbitrary: s v q es t es' t')
  case (Suc n)
  { case 1 then show ?case by (simp only: parse_value.simps) (erule value_step_parsed; rule Suc; assumption) }
  { case 2 then show ?case by (simp only: parse_elems.simps) (erule elems_step_parsed; (rule Suc)?; assumption) }
qed simp_all

lemma parse_single_value_parsed: "parse_single_value s = Inr (v, q) \<Longrightarrow> parsed v"
  using parse_value_parsed(1) [of "value_fuel s" s v q] parse_single_value_fuel [of s] by simp

subsection \<open>Field definitions\<close>

abbreviation commas :: "string \<Rightarrow> nat" where
  "commas s \<equiv> length (filter (\<lambda>c. c = CHR '','') s)"

lemma commas_skip [simp]: "commas (skip_whitespace s) = commas s"
  unfolding skip_whitespace_def by (induction s) auto

lemma field_word_prefix: "p = field_word n p @ drop (length (field_word n p)) p"
proof -
  have "prefix (field_word n p) p" unfolding prefix_def field_word_def
    by (metis append.assoc append_take_drop_id takeWhile_dropWhile_id)
  then show ?thesis by (metis append_eq_conv_conj prefixE)
qed

lemma field_word_commas: "commas (drop (length (field_word n p)) p) = commas p"
proof -
  have "commas (field_word n p) = 0"
    by (auto simp: field_word_def filter_empty_conv dest!: in_set_takeD set_takeWhileD)
  then show ?thesis
    by (subst (2) field_word_prefix [of p n]) simp
qed

definition field_named_ok :: "Field \<Rightarrow> bool" where
  "field_named_ok f \<longleftrightarrow> is_valid_identifier (fieldName f) \<and> length (fieldName f) < MAX_FIELD_NAME_LENGTH"

lemma field_word_length: "length (field_word MAX_FIELD_NAME_LENGTH p) < MAX_FIELD_NAME_LENGTH"
  by (simp add: field_word_def limits)

lemma parse_single_field_ok:
  assumes "parse_single_field s = Inr (f, q)"
  shows "commas q = commas s" "field_named_ok f"
  using assms
  by (auto simp: parse_single_field_def Let_def field_word_commas field_named_ok_def field_word_length
      split: if_splits option.splits)

lemma fields_loop_ok:
  assumes "fields_loop n p = Inr fs" "n = commas p + 1"
  shows "length fs = n \<and> list_all field_named_ok fs"
  using assms
proof (induction n p arbitrary: fs rule: fields_loop.induct)
  case (2 n p)
  then obtain f q where f: "parse_single_field (skip_whitespace p) = Inr (f, q)"
    by (auto split: sum.splits)
  note ok = parse_single_field_ok [OF f]
  show ?case
  proof (cases "skip_whitespace q")
    case Nil
    with commas_skip [of q] have "commas q = 0" by simp
    with "2.prems" f Nil ok show ?thesis by auto
  next
    case (Cons c r)
    with "2.prems" f obtain fs' where r: "c = CHR '',''" "fields_loop n r = Inr fs'" "fs = f # fs'"
      by (auto split: if_splits sum.splits)
    have "commas q = Suc (commas r)" using commas_skip [of q] Cons r(1) by simp
    with "2.IH" [OF f refl Cons r(1) r(2)] "2.prems"(2) ok r(3) show ?thesis by simp
  qed
qed simp

lemma no_content_fails:
  assumes "\<forall>c \<in> set s. c = CHR '','' \<or> isspace c"
  shows "parse_single_field s = Inl (-3)"
proof -
  have "set (skip_whitespace s) \<subseteq> set s" by (auto simp: skip_whitespace_def dest: set_dropWhileD)
  then have "field_word TYPE_STR_LENGTH (skip_whitespace s) = []"
    using assms by (cases "skip_whitespace s") (auto simp: field_word_def)
  then show ?thesis by (simp add: parse_single_field_def)
qed

lemma tokenize_fields_ok:
  "\<exists>r. tokenize_fields s = Some r \<and> (\<forall>fs. r = Inr fs \<longrightarrow> fs \<noteq> [] \<and> list_all field_named_ok fs)"
proof (cases "list_ex (\<lambda>c. c \<noteq> CHR '','' \<and> \<not> isspace c) s")
  case True
  then have n: "count_fields s = commas s + 1" by (simp add: count_fields_def)
  show ?thesis
  proof (cases "fields_loop (count_fields s) s")
    case (Inl e)
    with n show ?thesis by (simp add: tokenize_fields_def)
  next
    case (Inr fs)
    from fields_loop_ok [OF Inr n] n Inr show ?thesis by (auto simp: tokenize_fields_def)
  qed
next
  case False
  then have "\<forall>c \<in> set (skip_whitespace s). c = CHR '','' \<or> isspace c"
    by (auto simp: list_ex_iff skip_whitespace_def dest!: set_dropWhileD)
  from no_content_fails [OF this] have "fields_loop (Suc n) s = Inl (-3)" for n by simp
  then show ?thesis by (cases "count_fields s") (simp_all add: tokenize_fields_def)
qed

lemma names_loop_ok: "names_loop n p = Inr ns \<Longrightarrow> list_all is_valid_identifier ns \<and> length ns = n"
  by (induction n p arbitrary: ns rule: names_loop.induct) (auto simp: Let_def split: if_splits sum.splits)

lemma parse_names_ok: "parse_names p = Inr ns \<Longrightarrow> list_all is_valid_identifier ns"
  using names_loop_ok [of "commas (skip_whitespace p) + 1" "skip_whitespace p" ns]
  by (auto simp: parse_names_def Let_def simp del: names_loop.simps split: if_splits)

subsection \<open>Commands\<close>

text \<open>The values of \<open>ADD\<close>: parsed, or the initial value of one that was counted but not found.\<close>

definition add_value_ok :: "Data \<Rightarrow> bool" where
  "add_value_ok v \<longleftrightarrow> parsed v \<or> v = Data 0 (U_i 0)"

definition update_value_ok :: "Data \<Rightarrow> bool" where
  "update_value_ok v \<longleftrightarrow> parsed v \<or> v = Data 0 U_zero"

lemma values_loop_parsed: "values_loop n p = Inr vs \<Longrightarrow> list_all parsed vs \<and> length vs \<le> n"
proof (induction n p arbitrary: vs rule: values_loop.induct)
  case (2 n p)
  then show ?case
    using parse_single_value_parsed [of "skip_whitespace p"]
    by (fastforce split: sum.splits list.splits if_splits)
qed simp

lemma tokenize_values_ok: "tokenize_values s = Inr vs \<Longrightarrow> list_all add_value_ok vs \<and> vs \<noteq> []"
  using values_loop_parsed [of "count_values False 0 False 0 s" s]
  by (auto simp: tokenize_values_def Let_def pad_to_def add_value_ok_def list_all_iff split: if_splits sum.splits)

lemma parse_update_value_ok: "parse_update_value p = Inr (v, q) \<Longrightarrow> update_value_ok (fst v)"
  by (auto simp: parse_update_value_def update_value_ok_def Let_def parse_single_value_parsed split: if_splits sum.splits)

lemma update_values_loop_ok: "update_values_loop n p = Inr vs \<Longrightarrow> list_all (\<lambda>v. update_value_ok (fst v)) vs"
proof (induction n p arbitrary: vs rule: update_values_loop.induct)
  case (2 n p)
  then show ?case
    using parse_update_value_ok [of "skip_whitespace p"]
    by (fastforce split: sum.splits list.splits if_splits)
qed simp

lemma tokenize_update_values_ok: "tokenize_update_values s = Inr vs \<Longrightarrow> list_all (\<lambda>v. update_value_ok (fst v)) vs"
  using update_values_loop_ok [of "count_values False 0 False 0 s" s]
  by (auto simp: tokenize_update_values_def Let_def pad_to_def update_value_ok_def list_all_iff split: if_splits sum.splits)

definition names_ok :: "string list \<Rightarrow> bool" where
  "names_ok ns \<longleftrightarrow> list_all is_valid_identifier ns"

definition db_named :: "string \<Rightarrow> bool" where
  "db_named s \<longleftrightarrow> is_valid_identifier s \<and> length s < MAX_DB_NAME_LENGTH"

fun command_ok :: "Command \<Rightarrow> bool" where
  "command_ok (OP_CREATE d) = (db_named (create_dbName d) \<and> create_fields d \<noteq> [] \<and>
     length (create_fields d) \<le> MAX_FIELDS_PER_DB \<and> list_all field_named_ok (create_fields d) \<and>
     \<not> list_ex (\<lambda>f. strcasecmp_eq (fieldName f) ''key'') (create_fields d))"
| "command_ok (OP_ADD d) = (db_named (add_dbName d) \<and> list_all add_value_ok (add_values d))"
| "command_ok (OP_UP d) = (db_named (up_dbName d) \<and> list_all update_value_ok (up_values d) \<and>
     (\<exists>fl. up_ignoreFlags d = Some fl \<and> length fl = length (up_values d)))"
| "command_ok (OP_GET d) = (db_named (get_dbName d) \<and> names_ok (get_fields d))"
| "command_ok (OP_DEL d) = db_named (del_dbName d)"
| "command_ok (OP_GET_ALL d) = (db_named (get_all_dbName d) \<and> names_ok (get_all_fields d))"
| "command_ok (OP_SEARCH d) = (db_named (search_dbName d) \<and> db_named (search_fieldName d) \<and>
     parsed (search_value d) \<and> names_ok (search_returnFields d))"
| "command_ok (OP_COUNT d) = db_named (count_dbName d)"
| "command_ok (OP_CREATE_INDEX d) = (db_named (create_index_dbName d) \<and> db_named (create_index_fieldName d))"
| "command_ok (OP_AUTH d) = (auth_token d \<noteq> [] \<and> length (auth_token d) < AUTH_TOKEN_BUF_SIZE)"
| "command_ok (OP_ADD_KEY d) = (add_key_name d \<noteq> [] \<and> length (add_key_name d) < AUTH_KEY_NAME_MAX \<and>
     add_key_role d \<in> {ROLE_READONLY, ROLE_ADMIN})"
| "command_ok (OP_DEL_KEY d) = (del_key_name d \<noteq> [] \<and> length (del_key_name d) < AUTH_KEY_NAME_MAX)"
| "command_ok OP_LIST_KEYS = True"
| "command_ok (OP_WHOAMI d) = (whoami_name d = [])"
| "command_ok (OP_DEL_TABLE d) = db_named (del_table_dbName d)"
| "command_ok (OP_ERROR e) = (length e < MAX_ERROR_LENGTH)"

lemma parse_error_ok [simp]: "command_ok (parse_error e d)"
  by (auto simp: parse_error_def MAX_ERROR_LENGTH_def copy_name_def snprintf_buf_def split: option.splits)

lemma identifier_take: "is_valid_identifier s \<Longrightarrow> 0 < n \<Longrightarrow> is_valid_identifier (take n s)"
  by (cases s; cases n) (auto simp: list_all_iff dest: in_set_takeD)

lemma db_named_copy: "is_valid_identifier s \<Longrightarrow> db_named (copy_name MAX_DB_NAME_LENGTH s) \<and> db_named (copy_name MAX_FIELD_NAME_LENGTH s)"
  by (simp add: db_named_def copy_name_def identifier_take limits)

lemma with_name_ok:
  "(\<And>m. db_named m \<Longrightarrow> command_ok (k m)) \<Longrightarrow> command_ok (with_name MAX_DB_NAME_LENGTH s k)"
  "(\<And>m. db_named m \<Longrightarrow> command_ok (k m)) \<Longrightarrow> command_ok (with_name MAX_FIELD_NAME_LENGTH s k)"
  by (simp_all add: with_name_def db_named_copy)

lemma with_key_ok: "(\<And>i. command_ok (k i)) \<Longrightarrow> command_ok (with_key s m k)"
  by (auto simp: with_key_def split: option.splits list.splits)

lemma error_commands_ok [simp]:
  "command_ok (fields_error i)" "command_ok (values_error i)" "command_ok (args_error m a)"
  "command_ok (split_error p x)" "command_ok (names_error m n ne)"
  by (simp_all add: fields_error_def values_error_def args_error_def split_error_def names_error_def
      split: SplitError.splits NameError.splits)

lemma parse_create_ok: "\<exists>cmd. parse_create s = Some cmd \<and> command_ok cmd"
proof -
  have "\<exists>cmd. tokenize_fields p \<bind> (\<lambda>r. Some (F r)) = Some cmd \<and> command_ok cmd"
    if "\<And>fs. fs \<noteq> [] \<Longrightarrow> list_all field_named_ok fs \<Longrightarrow> command_ok (F (Inr fs))" "\<And>e. command_ok (F (Inl e))" for p F
    using tokenize_fields_ok [of p] that by (auto, metis old.sum.exhaust)
  then show ?thesis
    by (auto simp: parse_create_def db_named_copy split: sum.splits SplitError.splits option.splits)
qed

lemma parse_add_ok: "command_ok (parse_add s)"
  unfolding parse_add_def
  by (auto simp: Let_def tokenize_values_ok [THEN conjunct1] intro!: with_name_ok(1) with_key_ok split: sum.splits)

lemma parse_up_ok: "command_ok (parse_up s)"
proof -
  have "list_all update_value_ok (map fst vs)" if "tokenize_update_values p = Inr vs" for p and vs :: "(Data \<times> bool) list"
    using tokenize_update_values_ok [OF that] by (auto simp: list_all_iff)
  then show ?thesis
    unfolding parse_up_def by (auto intro!: with_name_ok(1) with_key_ok split: sum.splits)
qed

lemma parse_get_ok: "command_ok (parse_get s)"
  unfolding parse_get_def parse_get_fields_def parse_get_row_def
  by (auto simp: names_ok_def parse_names_ok intro!: with_name_ok(1) with_key_ok split: sum.splits)

lemma parse_get_all_ok: "command_ok (parse_get_all s)"
  unfolding parse_get_all_def parse_get_all_fields_def parse_get_all_rows_def
  by (auto simp: names_ok_def parse_names_ok intro!: with_name_ok(1) split: sum.splits option.splits)

lemma search_code_ok: "search_code s = (0, v) \<Longrightarrow> s \<noteq> [] \<Longrightarrow> skip_whitespace s = s \<Longrightarrow> parsed v"
  by (auto simp: search_code_def parse_single_value_parsed split: sum.splits if_splits)

lemma finish_search_ok:
  assumes "s \<noteq> []" "skip_whitespace s = s" "names_ok ns"
  shows "command_ok (finish_search n f s ns)"
  unfolding finish_search_def
  using assms search_code_ok [OF _ assms(1,2)]
  by (auto intro!: with_name_ok split: prod.splits)

lemma search_parts_value: "search_parts s = Inr (n, f, v) \<Longrightarrow> v \<noteq> [] \<and> skip_whitespace v = v"
  by (auto simp: search_parts_def Let_def after_token_def split: if_splits)

lemma parse_search_ok: "command_ok (parse_search s)"
  unfolding parse_search_def
  by (auto simp: names_ok_def parse_names_ok dest: search_parts_value intro!: finish_search_ok split: sum.splits)

lemma parse_rest_ok:
  "command_ok (parse_del s)" "command_ok (parse_count s)" "command_ok (parse_create_index s)" "command_ok (parse_del_table s)"
  unfolding parse_del_def parse_count_def parse_create_index_def parse_del_table_def
  by (auto intro!: with_name_ok with_key_ok split: sum.splits option.splits)

lemma parse_keys_ok:
  "command_ok (parse_auth s)" "command_ok (parse_add_key s)" "command_ok (parse_del_key s)"
  by (auto simp: parse_auth_def parse_add_key_def parse_del_key_def parse_role_def Let_def split: option.splits if_splits)

lemma parse_args_ok: "\<exists>cmd. parse_args op s = Some cmd \<and> command_ok cmd"
  using parse_create_ok [of s]
  by (simp add: parse_args_def parse_add_ok parse_up_ok parse_get_ok parse_get_all_ok parse_search_ok
      parse_rest_ok parse_keys_ok parse_list_keys_def parse_whoami_def)

lemma parse_command_ok: "\<exists>cmd. parse_command s = Some cmd \<and> command_ok cmd"
  using parse_args_ok by (auto simp: parse_command_def Let_def split: option.splits)

subsection \<open>Reading back what is printed\<close>

lemma of_digit_char: "d < 10 \<Longrightarrow> (of_char (digit_char d) :: nat) = 48 + d"
  by (simp add: digit_char_def)

lemma isdigit_digit_char: "d < 10 \<Longrightarrow> isdigit (digit_char d)"
  by (simp add: isdigit_def of_digit_char)

lemma nat_str_digits: "list_all isdigit (nat_str n)"
proof (induction n rule: nat_str.induct)
  case (1 n)
  then show ?case
    by (cases "n < 10") (subst nat_str.simps; simp add: isdigit_digit_char)+
qed

lemma digits_value_append: "digits_value v (s @ t) = digits_value (digits_value v s) t"
  by (induction s arbitrary: v) simp_all

lemma digits_value_nat_str: "digits_value 0 (nat_str n) = of_nat n"
proof (induction n rule: nat_str.induct)
  case (1 n)
  have d: "(of_char (digit_char d) :: cint) - 48 = of_nat d" if "d < 10" for d
  proof -
    have "(of_char (digit_char d) :: cint) = of_nat (of_char (digit_char d))"
      by (simp only: of_nat_of_char)
    with that show ?thesis by (simp add: of_digit_char)
  qed
  show ?case
  proof (cases "n < 10")
    case True
    then show ?thesis by (subst nat_str.simps) (simp add: d)
  next
    case False
    have "(of_nat n :: cint) = of_nat (n div 10 * 10 + n mod 10)" by simp
    also have "\<dots> = of_nat (n div 10) * 10 + of_nat (n mod 10)" by (simp only: of_nat_add of_nat_mult) simp
    finally show ?thesis
      using 1 False by (subst nat_str.simps) (simp add: digits_value_append d)
  qed
qed

text \<open>An integer that is printed with \<open>%d\<close> is read back, whatever follows it but a digit.\<close>

definition not_digit_next :: "string \<Rightarrow> bool" where
  "not_digit_next s \<longleftrightarrow> (case s of [] \<Rightarrow> True | c # _ \<Rightarrow> \<not> isdigit c)"

lemma span_digits:
  assumes "list_all isdigit ds" "not_digit_next rest"
  shows "takeWhile isdigit (ds @ rest) = ds" "dropWhile isdigit (ds @ rest) = rest"
  using assms by (cases rest; simp add: not_digit_next_def list_all_iff takeWhile_append2 dropWhile_append2)+

lemma nat_str_head: "nat_str n \<noteq> [] \<and> isdigit (hd (nat_str n))"
  using nat_str_digits [of n] nat_str_nonempty [of n] by (cases "nat_str n") auto

text \<open>A string literal as a client has to write it.\<close>

definition escape :: "char \<Rightarrow> string" where
  "escape c =
    (if c = CHR 0x22 \<or> c = CHR 0x5C then [CHR 0x5C, c]
     else if c = CHR 0x0A then [CHR 0x5C, CHR ''n''] else if c = CHR 0x09 then [CHR 0x5C, CHR ''t'']
     else if c = CHR 0x0D then [CHR 0x5C, CHR ''r''] else [c])"

definition quote :: "string \<Rightarrow> string" where
  "quote s = CHR 0x22 # concat (map escape s) @ [CHR 0x22]"

lemma string_body_plain: "c \<noteq> CHR 0x22 \<Longrightarrow> c \<noteq> CHR 0x5C \<Longrightarrow> p \<noteq> [] \<Longrightarrow>
    string_body (c # p) = map_option (\<lambda>(s, q). (c # s, q)) (string_body p)"
  by (cases p) auto

lemma string_body_print: "string_body (concat (map escape s) @ CHR 0x22 # rest) = Some (s, rest)"
proof (induction s)
  case Nil
  then show ?case by (cases rest) simp_all
next
  case (Cons c s)
  then show ?case by (auto simp: escape_def unescape_def string_body_plain)
qed

subsection \<open>Properties\<close>

text \<open>
  C14. The parser is total: every line gives a command or an error message, without undefined behaviour, and
  what it gives is within bounds. Names are identifiers that fit their buffers, a new table has between one
  and the largest number of fields, none of them called key, the ignore flags of an update have one entry for
  each value, and messages fit their buffer. A value that was read has the tag of its contents, or is an
  array that holds an array, with the tag of an array of strings; an \<open>ADD\<close> may end in values that were
  counted but not read, with the size 0 of an empty string over an integer, and an update has zeros there.
\<close>

theorem every_line_parses: "\<exists>cmd. parse_command s = Some cmd \<and> command_ok cmd"
  using parse_args_ok by (auto simp: parse_command_def Let_def split: option.splits)

text \<open>
  C40. Reading a value always ends: with two steps for each character of the input and two more, the
  mutually recursive reader of values and array elements has its result.
\<close>

theorem reading_a_value_terminates:
  "2 * length s + 2 \<le> n \<Longrightarrow> parse_value n s \<noteq> None \<and> parse_value (value_fuel s) s = Some (parse_single_value s)"
  using parse_value_enough parse_single_value_fuel by blast

theorem reading_a_value_terminates_witness:
  "parse_value 18 ''[1,[2]]'' \<noteq> None"
  using reading_a_value_terminates [of "''[1,[2]]''" 18] by simp

text \<open>
  Reading back a printed \<open>int\<close> gives the same number and stops right after it, for all 32-bit
  values, the smallest one included.
\<close>

theorem int_round_trip:
  assumes "not_digit_next rest"
  shows "parse_int (int_str (sint i) @ rest) = Some (i, rest)"
proof -
  obtain d ds where ds: "nat_str n = d # ds" "isdigit d" if "n = nat \<bar>sint i\<bar>" for n
    using nat_str_head by (metis list.exhaust_sel)
  note D = ds [OF refl]
  have sp: "takeWhile isdigit (nat_str (nat \<bar>sint i\<bar>) @ rest) = nat_str (nat \<bar>sint i\<bar>)"
    "dropWhile isdigit (nat_str (nat \<bar>sint i\<bar>) @ rest) = rest"
    using span_digits [OF nat_str_digits assms] by blast+
  have ne: "d \<noteq> CHR ''-''" "d \<noteq> CHR ''+''" using D(2) by (auto simp: isdigit_def)
  show ?thesis
  proof (cases "sint i < 0")
    case True
    then have "int_str (sint i) = CHR ''-'' # nat_str (nat \<bar>sint i\<bar>)" by (simp add: int_str_def)
    moreover have "- (of_nat (nat \<bar>sint i\<bar>) :: cint) = i"
    proof -
      have "(of_nat (nat \<bar>sint i\<bar>) :: cint) = of_int (- sint i)" using True by (simp add: of_nat_nat)
      then show ?thesis by simp
    qed
    ultimately show ?thesis
      using sp nat_str_nonempty by (simp add: parse_int_def peek_def digits_value_nat_str Let_def)
  next
    case False
    then have s: "int_str (sint i) = nat_str (nat \<bar>sint i\<bar>)" by (simp add: int_str_def)
    have "(of_nat (nat \<bar>sint i\<bar>) :: cint) = of_int (sint i)" using False by (simp add: of_nat_nat)
    then have "(of_nat (nat \<bar>sint i\<bar>) :: cint) = i" by simp
    then show ?thesis
      using sp s ne D(1) nat_str_nonempty
      by (simp add: parse_int_def peek_def digits_value_nat_str [symmetric] Let_def)
  qed
qed

theorem int_round_trip_witness: "parse_int (''-2147483648'' @ '', 5)'') = Some (2 ^ 31, '', 5)'')"
proof -
  have "not_digit_next '', 5)''" by code_simp
  moreover have "int_str (sint (2 ^ 31 :: cint)) = ''-2147483648''"
    by (simp add: int_str_def nat_str.simps digit_char_def) code_simp
  ultimately show ?thesis using int_round_trip [of "'', 5)''" "2 ^ 31"] by simp
qed

text \<open>
  Quoting a string, with a backslash before quotes and backslashes and the usual letters for
  newline, tab and carriage return, and reading it back gives the string and what follows it.
\<close>

theorem string_round_trip: "parse_string (quote s @ rest) = Some (s, rest)"
  using string_body_print [of s rest] by (simp add: parse_string_def quote_def)

text \<open>
  The values of an ADD are counted by commas outside quotes, but the count does not know about
  escaped quotes: a single string \<open>a",b\<close> is counted as two values, so a placeholder that no one wrote
  follows it, and \<open>a"b\<close> followed by 5 and 6 is counted as one, so the numbers are dropped.
\<close>

theorem escaped_quote_miscounts_values:
  "tokenize_values (quote ''a'' @ '', 5'') = Inr [Data 1 (U_s (Some ''a'')), Data (-2) (U_i 5)] \<and>
   tokenize_values (quote [CHR ''a'', CHR 0x22, CHR '','', CHR ''b'']) =
     Inr [Data 4 (U_s (Some [CHR ''a'', CHR 0x22, CHR '','', CHR ''b''])), Data 0 (U_i 0)] \<and>
   tokenize_values (quote [CHR ''a'', CHR 0x22, CHR ''b''] @ '', 5, 6'') =
     Inr [Data 3 (U_s (Some [CHR ''a'', CHR 0x22, CHR ''b'']))]"
  by code_simp

end
