(* ===== verification/Ownership.thy ===== *)
theory Ownership
  imports Parser_Facts
begin

text \<open>
  Who releases the memory of a request: \<open>free_command\<close> and its helpers of \<open>src/db/parser.c\<close>. A release is
  undefined when it reads another member of the union than the one stored; otherwise its result is the
  number of blocks it gave back, to be compared with the number the parser allocated.
\<close>

subsection \<open>Releasing\<close>

definition free_string :: "Data \<Rightarrow> nat run" where
  "free_string v =
    (if dsize v \<ge> 0 then do { s \<leftarrow> read_s (dvalue v); Some (case s of None \<Rightarrow> 0 | Some _ \<Rightarrow> 1) } else Some 0)"

text \<open>An array without elements, as the parser makes it, has no block for them.\<close>

fun free_array_data :: "ArrayData \<Rightarrow> nat run" where
  "free_array_data (AppendValue v) = do { n \<leftarrow> free_string v; Some (n + 1) }"
| "free_array_data (Elements es) =
    do { ns \<leftarrow> run_map free_string es; Some (sum_list ns + (if es = [] then 0 else 1) + 1) }"

definition free_value :: "Data \<Rightarrow> nat run" where
  "free_value v =
    (if dsize v \<ge> 0 then free_string v
     else if dsize v \<le> -4
     then do { a \<leftarrow> read_a (dvalue v); (case a of None \<Rightarrow> Some 0 | Some arr \<Rightarrow> free_array_data arr) }
     else Some 0)"

definition free_values_array :: "Data list \<Rightarrow> nat run" where
  "free_values_array vs = do { ns \<leftarrow> run_map free_value vs; Some (sum_list ns) }"

text \<open>An array that is \<open>NULL\<close> when it has no entries, and the names in it.\<close>

definition array_block :: "'a list \<Rightarrow> nat" where
  "array_block xs = (if xs = [] then 0 else 1)"

definition names_blocks :: "string list \<Rightarrow> nat" where
  "names_blocks ns = length ns + array_block ns"

definition free_command :: "Command \<Rightarrow> bool \<Rightarrow> nat run" where
  "free_command cmd strings_transferred =
    (case cmd of
       OP_CREATE d \<Rightarrow> Some (array_block (create_fields d) + 1)
     | OP_ADD d \<Rightarrow>
         do { n \<leftarrow> (if strings_transferred then Some 0 else free_values_array (add_values d));
              Some (n + array_block (add_values d) + 1) }
     | OP_UP d \<Rightarrow>
         do { n \<leftarrow> (if strings_transferred then Some 0 else free_values_array (up_values d));
              Some (n + array_block (up_values d) + (case up_ignoreFlags d of None \<Rightarrow> 0 | Some _ \<Rightarrow> 1) + 1) }
     | OP_GET d \<Rightarrow> Some (names_blocks (get_fields d) + 1)
     | OP_GET_ALL d \<Rightarrow> Some (names_blocks (get_all_fields d) + 1)
     | OP_SEARCH d \<Rightarrow>
         do { n \<leftarrow> (if strings_transferred then Some 0 else free_value (search_value d));
              Some (names_blocks (search_returnFields d) + n + 1) }
     | _ \<Rightarrow> Some 1)"

subsection \<open>Owning\<close>

text \<open>The blocks that the parser allocates for a value, nested arrays included, and for a command.\<close>

fun union_blocks :: "UnionVal \<Rightarrow> nat" and array_blocks :: "ArrayData \<Rightarrow> nat" and data_blocks :: "Data \<Rightarrow> nat" where
  "union_blocks (U_s (Some s)) = 1"
| "union_blocks (U_a (Some a)) = array_blocks a"
| "union_blocks _ = 0"
| "array_blocks (AppendValue v) = data_blocks v + 1"
| "array_blocks (Elements es) = sum_list (map data_blocks es) + (if es = [] then 0 else 1) + 1"
| "data_blocks (Data n u) = union_blocks u"

definition command_values :: "Command \<Rightarrow> Data list" where
  "command_values cmd =
    (case cmd of OP_ADD d \<Rightarrow> add_values d | OP_UP d \<Rightarrow> up_values d | OP_SEARCH d \<Rightarrow> [search_value d] | _ \<Rightarrow> [])"

definition command_blocks :: "Command \<Rightarrow> nat" where
  "command_blocks cmd =
    sum_list (map data_blocks (command_values cmd)) + 1 +
    (case cmd of
       OP_CREATE d \<Rightarrow> array_block (create_fields d)
     | OP_ADD d \<Rightarrow> array_block (add_values d)
     | OP_UP d \<Rightarrow> array_block (up_values d) + (case up_ignoreFlags d of None \<Rightarrow> 0 | Some _ \<Rightarrow> 1)
     | OP_GET d \<Rightarrow> names_blocks (get_fields d)
     | OP_GET_ALL d \<Rightarrow> names_blocks (get_all_fields d)
     | OP_SEARCH d \<Rightarrow> names_blocks (search_returnFields d)
     | _ \<Rightarrow> 0)"

text \<open>
  A value of \<open>ADD\<close> that was counted but not found has the tag of a string and only its first four bytes set.
\<close>

definition unfilled :: Data where
  "unfilled = Data 0 (U_i 0)"

definition releasable :: "Command \<Rightarrow> bool" where
  "releasable cmd \<longleftrightarrow> unfilled \<notin> set (command_values cmd)"

subsection \<open>Releasing what was parsed\<close>

lemma parsed_filled: "\<not> parsed unfilled"
  by (simp add: unfilled_def parsed_def tagged_def scalar_tagged_def array_tagged_def nested_def)

lemma unfilled_only_by_add: "command_ok cmd \<Longrightarrow> unfilled \<in> set (command_values cmd) \<Longrightarrow> \<exists>d. cmd = OP_ADD d"
  using parsed_filled
  by (cases cmd) (auto simp: command_values_def update_value_ok_def list_all_iff unfilled_def)

lemma data_blocks_union: "data_blocks v = union_blocks (dvalue v)"
  by (cases v) simp

lemma free_string_scalar: "scalar_tagged v \<Longrightarrow> free_string v = Some (data_blocks v)"
  by (auto simp: free_string_def scalar_tagged_def data_blocks_union split: UnionVal.splits option.splits)

lemma free_string_skips: "dsize v < 0 \<Longrightarrow> free_string v = Some 0"
  by (simp add: free_string_def)

lemma free_strings: "list_all scalar_tagged es \<Longrightarrow> run_map free_string es = Some (map data_blocks es)"
  by (intro run_map_Some) (simp add: free_string_scalar list_all_iff)

lemma free_value_tagged:
  assumes "tagged v"
  shows "free_value v = Some (data_blocks v)"
proof (cases "scalar_tagged v")
  case True
  then show ?thesis
    using scalar_tagged_size [OF True] free_string_scalar [OF True] by (auto simp: free_value_def free_string_def)
next
  case False
  with assms have "array_tagged v" "dsize v \<le> -4" by (auto simp: tagged_def array_tagged_size)
  then show ?thesis
    by (auto simp: free_value_def array_tagged_def data_blocks_union free_string_scalar free_strings
        split: UnionVal.splits option.splits ArrayData.splits list.splits)
qed

text \<open>Of nested arrays only the outer one is given back.\<close>

lemma free_strings_skip: "list_all (\<lambda>x. dsize x \<le> -4) es \<Longrightarrow> run_map free_string es = Some (map (\<lambda>_. 0) es)"
  by (intro run_map_Some) (auto simp: free_string_skips list_all_iff)

lemma free_value_nested:
  assumes "nested v"
  shows "\<exists>n. free_value v = Some n \<and> n \<le> data_blocks v"
proof -
  have size: "dsize v = -7" using assms by (simp add: nested_def)
  from assms consider e where "dvalue v = U_a (Some (AppendValue e))" "dsize e \<le> -4"
    | e es where "dvalue v = U_a (Some (Elements (e # es)))" "list_all (\<lambda>x. dsize x \<le> -4) (e # es)"
    unfolding nested_def by (auto split: UnionVal.splits option.splits ArrayData.splits list.splits)
  then show ?thesis
  proof cases
    case (2 e es)
    with free_strings_skip [OF 2(2)] size show ?thesis by (simp add: free_value_def data_blocks_union del: run_map.simps)
  qed (use size in \<open>simp add: free_value_def data_blocks_union free_string_skips\<close>)
qed

lemma free_value_parsed:
  assumes "parsed v \<or> v = Data 0 U_zero"
  shows "\<exists>n. free_value v = Some n \<and> n \<le> data_blocks v \<and> (\<not> nested v \<longrightarrow> n = data_blocks v)"
  using assms free_value_tagged [of v] free_value_nested [of v]
  by (auto simp: parsed_def free_value_def free_string_def)

lemma free_values_parsed:
  assumes "list_all (\<lambda>v. parsed v \<or> v = Data 0 U_zero) vs"
  shows "\<exists>n. free_values_array vs = Some n \<and> n \<le> sum_list (map data_blocks vs) \<and>
    (list_all (\<lambda>v. \<not> nested v) vs \<longrightarrow> n = sum_list (map data_blocks vs))"
  using assms
proof (induction vs)
  case (Cons v vs)
  then obtain m where m: "free_values_array vs = Some m" "m \<le> sum_list (map data_blocks vs)"
    "list_all (\<lambda>v. \<not> nested v) vs \<Longrightarrow> m = sum_list (map data_blocks vs)" by auto
  from Cons.prems obtain n where "free_value v = Some n" "n \<le> data_blocks v" "\<not> nested v \<Longrightarrow> n = data_blocks v"
    using free_value_parsed [of v] by auto
  with m show ?case by (auto simp: free_values_array_def split: bind_splits)
qed (simp add: free_values_array_def)

lemma free_values_unfilled:
  assumes "unfilled \<in> set vs"
  shows "free_values_array vs = None"
proof -
  have "free_value unfilled = None" by (simp add: free_value_def free_string_def unfilled_def)
  with assms have "run_map free_value vs = None" by (induction vs) (auto split: bind_splits)
  then show ?thesis by (simp add: free_values_array_def)
qed

lemma command_values_ok:
  assumes "command_ok cmd" "releasable cmd"
  shows "list_all (\<lambda>v. parsed v \<or> v = Data 0 U_zero) (command_values cmd)"
  using assms
  by (cases cmd) (auto simp: command_values_def releasable_def unfilled_def add_value_ok_def update_value_ok_def list_all_iff)

lemma free_command_ok:
  assumes "command_ok cmd" "releasable cmd"
  shows "\<exists>n. free_command cmd False = Some n \<and> n \<le> command_blocks cmd \<and>
    (list_all (\<lambda>v. \<not> nested v) (command_values cmd) \<longrightarrow> n = command_blocks cmd)"
  using free_values_parsed [OF command_values_ok [OF assms]]
  by (cases cmd) (auto simp: free_command_def command_blocks_def command_values_def free_values_array_def split: bind_splits)

lemma free_command_transferred: "\<exists>n. free_command cmd True = Some n"
  by (cases cmd) (simp_all add: free_command_def)

subsection \<open>Properties\<close>

text \<open>
  C19. The release of a request that is refused, for every line a client can send: it is undefined exactly if a
  value of the request was counted but not filled, which only \<open>ADD\<close> can have. Otherwise it gives back what the
  parser allocated for the request, all of it unless an array is nested in another.
\<close>

theorem refused_request_is_released:
  assumes "parse_command line = Some cmd"
  shows "(free_command cmd False = None \<longleftrightarrow> (\<exists>d. cmd = OP_ADD d \<and> unfilled \<in> set (add_values d))) \<and>
    (\<forall>n. free_command cmd False = Some n \<longrightarrow> n \<le> command_blocks cmd \<and>
       (list_all (\<lambda>v. \<not> nested v) (command_values cmd) \<longrightarrow> n = command_blocks cmd))"
proof -
  have ok: "command_ok cmd" using parse_command_ok [of line] assms by auto
  show ?thesis
  proof (cases "releasable cmd")
    case True
    then have "\<not> (\<exists>d. cmd = OP_ADD d \<and> unfilled \<in> set (add_values d))" by (auto simp: releasable_def command_values_def)
    with free_command_ok [OF ok True] show ?thesis by auto
  next
    case False
    with unfilled_only_by_add [OF ok] obtain d where d: "cmd = OP_ADD d" "unfilled \<in> set (add_values d)"
      by (auto simp: releasable_def command_values_def)
    then have "free_command cmd False = None" using free_values_unfilled [OF d(2)] by (simp add: free_command_def)
    with d show ?thesis by auto
  qed
qed

text \<open>Two strings in an array, and an array of arrays of integers.\<close>

definition flat_line :: string where
  "flat_line = ''ADD t 1 (['' @ quote ''a'' @ '', '' @ quote ''b'' @ ''], 5)''"

definition nested_line :: string where
  "nested_line = ''ADD t 1 ([[1], [2]])''"

definition flat_command :: Command where
  "flat_command = OP_ADD \<lparr>add_dbName = ''t'', add_key = 1, add_values = [Data (-7) (U_a (Some (Elements
     [Data 1 (U_s (Some ''a'')), Data 1 (U_s (Some ''b''))]))), Data (-2) (U_i 5)], add_autoKey = False\<rparr>"

lemma flat_line_parses: "parse_command flat_line = Some flat_command"
  by code_simp

theorem refused_request_is_released_witness:
  "parse_command flat_line = Some flat_command \<and> free_command flat_command False = Some 6"
proof -
  have "list_all (\<lambda>v. \<not> nested v) (command_values flat_command)" "command_blocks flat_command = 6"
    "\<not> (\<exists>d. flat_command = OP_ADD d \<and> unfilled \<in> set (add_values d))"
    by (simp_all add: flat_command_def command_values_def unfilled_def nested_def command_blocks_def array_block_def)
  with refused_request_is_released [OF flat_line_parses] flat_line_parses show ?thesis by auto
qed

text \<open>Of an array of arrays the inner ones are never given back: half of the blocks of this request are lost.\<close>

lemma nested_arrays_leak:
  "map_option (\<lambda>cmd. (free_command cmd False, command_blocks cmd)) (parse_command nested_line) = Some (Some 4, 8)"
  by code_simp

text \<open>
  After a request that was executed the strings of \<open>ADD\<close> and \<open>UP\<close> count as the table's; whether the table took
  them is not looked at, and \<open>UP\<close>, which copies, never takes them.
\<close>

lemma executed_update_keeps_its_values:
  "up_values d \<noteq> [] \<Longrightarrow> up_ignoreFlags d = Some fl \<Longrightarrow>
     free_command (OP_UP d) True = Some 3 \<and> command_blocks (OP_UP d) = sum_list (map data_blocks (up_values d)) + 3"
  by (simp add: free_command_def command_blocks_def command_values_def array_block_def)

end
