(* ===== verification/Connection_Manager.thy ===== *)
theory Connection_Manager
  imports Auth
begin

text \<open>
  The table of connected clients of \<open>src/connection_manager.c\<close>: three arrays of \<open>max_clients\<close> slots of
  which the first \<open>client_count\<close> are in use. The answers of the kernel (\<open>epoll_create1\<close>, \<open>epoll_ctl\<close>)
  are arguments. The arrays are shown to stay in step: together they implement one finite map from
  file descriptors to the level and the key name of the session, which is the interface
  \<open>session_table\<close> that the server loop relies on.
\<close>

subsection \<open>State and operations\<close>

record ConnectionManager =
  epollfd :: int
  clients :: "int list"
  client_auth :: "AuthLevel list"
  client_names :: "string list"
  client_count :: nat
  max_clients :: nat

definition init_connection_manager :: "int \<Rightarrow> int \<Rightarrow> ConnectionManager \<Rightarrow> int \<times> ConnectionManager" where
  "init_connection_manager epfd maxClients cm =
    (if maxClients \<le> 0 then (-1, cm)
     else if epfd = -1 then (-1, cm\<lparr>epollfd := -1, client_count := 0, max_clients := nat maxClients\<rparr>)
     else (0, \<lparr>epollfd = epfd, clients = replicate (nat maxClients) (-1),
               client_auth = replicate (nat maxClients) AUTH_NONE,
               client_names = replicate (nat maxClients) [],
               client_count = 0, max_clients = nat maxClients\<rparr>))"

definition add_client :: "bool \<Rightarrow> ConnectionManager \<Rightarrow> int \<Rightarrow> int \<times> ConnectionManager" where
  "add_client epoll_ok cm clientfd =
    (let n = client_count cm in
     if n \<ge> max_clients cm then (-1, cm)
     else if \<not> epoll_ok then (-1, cm)
     else (0, cm\<lparr>client_auth := (client_auth cm)[n := AUTH_NONE],
                 client_names := (client_names cm)[n := []],
                 clients := (clients cm)[n := clientfd],
                 client_count := n + 1\<rparr>))"

text \<open>The scan for a descriptor, common to the functions below, and the loop that closes the gap.\<close>

definition find_client :: "ConnectionManager \<Rightarrow> int \<Rightarrow> nat option" where
  "find_client cm fd = find (\<lambda>i. clients cm ! i = fd) [0..<client_count cm]"

definition shift_left :: "nat \<Rightarrow> nat \<Rightarrow> 'a list \<Rightarrow> 'a list" where
  "shift_left i n xs = fold (\<lambda>j ys. ys[j := ys ! (j + 1)]) [i..<n - 1] xs"

definition remove_client :: "ConnectionManager \<Rightarrow> int \<Rightarrow> int \<times> ConnectionManager" where
  "remove_client cm clientfd =
    (case find_client cm clientfd of
       None \<Rightarrow> (-1, cm)
     | Some i \<Rightarrow>
         let n = client_count cm in
         (0, cm\<lparr>clients := (shift_left i n (clients cm))[n - 1 := -1],
                client_auth := (shift_left i n (client_auth cm))[n - 1 := AUTH_NONE],
                client_names := (shift_left i n (client_names cm))[n - 1 := []],
                client_count := n - 1\<rparr>))"

definition is_client :: "ConnectionManager \<Rightarrow> int \<Rightarrow> bool" where
  "is_client cm fd \<longleftrightarrow> find_client cm fd \<noteq> None"

definition get_client_auth :: "ConnectionManager \<Rightarrow> int \<Rightarrow> AuthLevel" where
  "get_client_auth cm fd =
    (case find_client cm fd of None \<Rightarrow> AUTH_NONE | Some i \<Rightarrow> client_auth cm ! i)"

definition set_client_auth :: "ConnectionManager \<Rightarrow> int \<Rightarrow> AuthLevel \<Rightarrow> ConnectionManager" where
  "set_client_auth cm fd level =
    (case find_client cm fd of
       None \<Rightarrow> cm
     | Some i \<Rightarrow> cm\<lparr>client_auth := (client_auth cm)[i := level]\<rparr>)"

definition get_client_name :: "ConnectionManager \<Rightarrow> int \<Rightarrow> string" where
  "get_client_name cm fd =
    (case find_client cm fd of
       None \<Rightarrow> []
     | Some i \<Rightarrow> copy_name AUTH_KEY_NAME_MAX (client_names cm ! i))"

definition set_client_name :: "ConnectionManager \<Rightarrow> int \<Rightarrow> string \<Rightarrow> ConnectionManager" where
  "set_client_name cm fd name =
    (case find_client cm fd of
       None \<Rightarrow> cm
     | Some i \<Rightarrow> cm\<lparr>client_names := (client_names cm)[i := copy_name AUTH_KEY_NAME_MAX name]\<rparr>)"

definition close_all_clients :: "ConnectionManager \<Rightarrow> ConnectionManager" where
  "close_all_clients cm =
    (fold (\<lambda>i c. c\<lparr>clients := (clients c)[i := -1], client_auth := (client_auth c)[i := AUTH_NONE],
                  client_names := (client_names c)[i := []]\<rparr>)
       [0..<client_count cm] cm)\<lparr>client_count := 0\<rparr>"

definition destroy_connection_manager :: "ConnectionManager \<Rightarrow> ConnectionManager" where
  "destroy_connection_manager cm =
    (close_all_clients cm)\<lparr>epollfd := -1, clients := [], client_auth := [], client_names := [],
       max_clients := 0\<rparr>"

subsection \<open>Invariant\<close>

definition slots :: "ConnectionManager \<Rightarrow> (int \<times> AuthLevel \<times> string) list" where
  "slots cm = take (client_count cm) (zip (clients cm) (zip (client_auth cm) (client_names cm)))"

definition cm_wf :: "ConnectionManager \<Rightarrow> bool" where
  "cm_wf cm \<longleftrightarrow> client_count cm \<le> max_clients cm \<and>
     length (clients cm) = max_clients cm \<and> length (client_auth cm) = max_clients cm \<and>
     length (client_names cm) = max_clients cm \<and>
     distinct (take (client_count cm) (clients cm)) \<and>
     (\<forall>s \<in> set (take (client_count cm) (client_names cm)). length s < AUTH_KEY_NAME_MAX)"

definition sessions :: "ConnectionManager \<Rightarrow> int \<Rightarrow> (AuthLevel \<times> string) option" where
  "sessions cm = map_of (slots cm)"

lemma find_upt_None: "find P [0..<n] = None \<longleftrightarrow> (\<forall>i < n. \<not> P i)"
  by (auto simp: find_None_iff)

lemma find_upt_Some:
  assumes "find P [0..<n] = Some i"
  shows "i < n \<and> P i"
  using assms by (auto simp: find_Some_iff)

lemma fst_slots: "cm_wf cm \<Longrightarrow> map fst (slots cm) = take (client_count cm) (clients cm)"
  by (simp add: slots_def cm_wf_def take_map [symmetric])

lemma distinct_slots: "cm_wf cm \<Longrightarrow> distinct (map fst (slots cm))"
  by (simp add: fst_slots) (simp add: cm_wf_def)

lemma nth_slots:
  "cm_wf cm \<Longrightarrow> i < client_count cm \<Longrightarrow> slots cm ! i = (clients cm ! i, client_auth cm ! i, client_names cm ! i)"
  by (simp add: slots_def cm_wf_def)

lemma length_slots: "cm_wf cm \<Longrightarrow> length (slots cm) = client_count cm"
  by (simp add: slots_def cm_wf_def)

lemma find_client_sessions:
  assumes "cm_wf cm"
  shows "sessions cm fd =
    (case find_client cm fd of None \<Rightarrow> None | Some i \<Rightarrow> Some (client_auth cm ! i, client_names cm ! i))"
proof (cases "find_client cm fd")
  case None
  then have "fd \<notin> set (take (client_count cm) (clients cm))"
    using assms by (auto simp: find_client_def find_upt_None in_set_conv_nth cm_wf_def)
  with assms have "sessions cm fd = None"
    by (metis fst_slots list.set_map map_of_eq_None_iff sessions_def)
  with None show ?thesis by simp
next
  case (Some i)
  then have i: "i < client_count cm" "clients cm ! i = fd"
    using find_upt_Some unfolding find_client_def by blast+
  then have "(fd, client_auth cm ! i, client_names cm ! i) \<in> set (slots cm)"
    using nth_slots [OF assms i(1)] length_slots [OF assms] by (metis nth_mem)
  then show ?thesis
    using distinct_slots [OF assms] Some by (simp add: sessions_def)
qed

subsection \<open>The gap closes\<close>

lemma shift_left_nth:
  assumes "i < n" "n \<le> length xs"
  shows "length (shift_left i n xs) = length xs \<and>
    (\<forall>k < length xs. shift_left i n xs ! k = (if i \<le> k \<and> k < n - 1 then xs ! Suc k else xs ! k))"
proof -
  have "i \<le> m \<Longrightarrow> m < length xs \<Longrightarrow>
    length (fold (\<lambda>j ys. ys[j := ys ! (j + 1)]) [i..<m] xs) = length xs \<and>
    (\<forall>k < length xs. fold (\<lambda>j ys. ys[j := ys ! (j + 1)]) [i..<m] xs ! k =
       (if i \<le> k \<and> k < m then xs ! Suc k else xs ! k))" for m
  proof (induction m rule: dec_induct)
    case (step m)
    then show ?case by (auto simp: nth_list_update)
  qed auto
  from this [of "n - 1"] assms show ?thesis by (auto simp: shift_left_def)
qed

lemma take_shift_left:
  assumes "i < n" "n \<le> length xs"
  shows "take (n - Suc 0) (shift_left i n xs) = take i xs @ drop (Suc i) (take n xs)"
  using assms shift_left_nth [OF assms] by (intro nth_equalityI) (auto simp: nth_append min_def split: if_splits)

lemma length_shift_left [simp]: "i < n \<Longrightarrow> n \<le> length xs \<Longrightarrow> length (shift_left i n xs) = length xs"
  using shift_left_nth [of i n xs] by simp

lemma take_zip_slots:
  "slots cm = zip (take (client_count cm) (clients cm))
     (zip (take (client_count cm) (client_auth cm)) (take (client_count cm) (client_names cm)))"
  by (simp add: slots_def take_zip)

lemma map_of_drop_nth:
  "distinct (map fst ps) \<Longrightarrow> i < length ps \<Longrightarrow>
     map_of (take i ps @ drop (Suc i) ps) = (map_of ps)(fst (ps ! i) := None)"
proof (induction ps arbitrary: i)
  case (Cons p ps)
  show ?case
  proof (cases i)
    case 0
    then show ?thesis using Cons.prems(1) by (auto simp: fun_eq_iff map_of_eq_None_iff)
  next
    case (Suc j)
    with Cons.prems have "fst p \<noteq> fst (ps ! j)" by (auto dest: nth_mem)
    with Cons Suc show ?thesis by (auto simp: fun_eq_iff)
  qed
qed simp

lemma map_of_update_nth:
  "distinct (map fst ps) \<Longrightarrow> i < length ps \<Longrightarrow> ps ! i = (k, w) \<Longrightarrow>
     map_of (ps[i := (k, v)]) = (map_of ps)(k \<mapsto> v)"
proof (induction ps arbitrary: i)
  case (Cons p ps)
  show ?case
  proof (cases i)
    case (Suc j)
    with Cons.prems have "fst p \<noteq> k" by (auto dest!: nth_mem intro: rev_image_eqI)
    with Cons Suc show ?thesis by (auto simp: fun_eq_iff)
  qed (use Cons.prems in \<open>auto simp: fun_eq_iff\<close>)
qed simp

lemma find_clientD:
  "find_client cm fd = Some i \<Longrightarrow> i < client_count cm \<and> clients cm ! i = fd"
  unfolding find_client_def by (rule find_upt_Some)

subsection \<open>The operations on the map of sessions\<close>

lemma init_connection_manager_ok:
  assumes "0 < n" "epfd \<noteq> -1"
  shows "fst (init_connection_manager epfd n cm) = 0"
    "cm_wf (snd (init_connection_manager epfd n cm))"
    "sessions (snd (init_connection_manager epfd n cm)) = Map.empty"
  using assms by (simp_all add: init_connection_manager_def cm_wf_def sessions_def slots_def)

lemma find_client_None: "cm_wf cm \<Longrightarrow> find_client cm fd = None \<longleftrightarrow> sessions cm fd = None"
  by (simp add: find_client_sessions split: option.splits)

lemma session_name_short:
  assumes "cm_wf cm" "sessions cm fd = Some (l, s)"
  shows "length s < AUTH_KEY_NAME_MAX"
proof -
  from assms obtain i where "find_client cm fd = Some i" "s = client_names cm ! i"
    by (auto simp: find_client_sessions split: option.splits)
  moreover from this have "client_names cm ! i \<in> set (take (client_count cm) (client_names cm))"
    using assms(1) find_clientD [of cm fd i] by (auto simp: in_set_conv_nth cm_wf_def)
  ultimately show ?thesis using assms(1) by (simp add: cm_wf_def)
qed

lemma add_client_refused: "\<not> ok \<or> client_count cm \<ge> max_clients cm \<Longrightarrow> add_client ok cm fd = (-1, cm)"
  by (auto simp: add_client_def Let_def)

lemma take_Suc_update: "n < length xs \<Longrightarrow> take (Suc n) (xs[n := x]) = take n xs @ [x]"
  by (simp add: take_Suc_conv_app_nth)

lemma add_client_ok:
  assumes "cm_wf cm" "sessions cm fd = None" "client_count cm < max_clients cm"
  shows "fst (add_client True cm fd) = 0" "cm_wf (snd (add_client True cm fd))"
    "sessions (snd (add_client True cm fd)) = (sessions cm)(fd \<mapsto> (AUTH_NONE, []))"
proof -
  have "fd \<notin> set (take (client_count cm) (clients cm))"
    using assms by (metis fst_slots list.set_map map_of_eq_None_iff sessions_def)
  then show "cm_wf (snd (add_client True cm fd))"
    using assms by (auto simp: cm_wf_def add_client_def Let_def take_Suc_update auth_limits)
  have "slots (snd (add_client True cm fd)) = slots cm @ [(fd, AUTH_NONE, [])]"
    using assms by (simp add: take_zip_slots add_client_def Let_def take_Suc_update cm_wf_def)
  with assms(2) show "sessions (snd (add_client True cm fd)) = (sessions cm)(fd \<mapsto> (AUTH_NONE, []))"
    by (auto simp: sessions_def fun_eq_iff map_add_def split: option.splits)
  show "fst (add_client True cm fd) = 0" using assms by (simp add: add_client_def Let_def)
qed

lemma remove_client_slots:
  assumes "cm_wf cm" "find_client cm fd = Some i"
  shows "cm_wf (snd (remove_client cm fd)) \<and>
    slots (snd (remove_client cm fd)) = take i (slots cm) @ drop (Suc i) (slots cm)"
proof -
  have i: "i < client_count cm" using find_clientD [OF assms(2)] by simp
  have le: "client_count cm \<le> length (clients cm)" "client_count cm \<le> length (client_auth cm)"
    "client_count cm \<le> length (client_names cm)" using assms(1) by (simp_all add: cm_wf_def)
  have sl: "slots (snd (remove_client cm fd)) = take i (slots cm) @ drop (Suc i) (slots cm)"
    using i le assms(2) assms(1)
    by (simp add: remove_client_def Let_def take_zip_slots take_shift_left zip_append take_zip drop_zip cm_wf_def)
  let ?rest = "\<lambda>xs. take i (take (client_count cm) xs) @ drop (Suc i) (take (client_count cm) xs)"
  have "distinct (?rest (clients cm))"
    using assms(1) by (simp only: cm_wf_def distinct_append distinct_take distinct_drop)
      (simp add: set_take_disj_set_drop_if_distinct del: take_take)
  moreover have "set (?rest (client_names cm)) \<subseteq> set (take (client_count cm) (client_names cm))"
    using set_take_subset set_drop_subset by (metis Un_least set_append)
  ultimately have "cm_wf (snd (remove_client cm fd))"
    using i le assms by (auto simp: cm_wf_def remove_client_def Let_def take_shift_left min_def)
  with sl show ?thesis by simp
qed

lemma remove_client_ok:
  assumes "cm_wf cm"
  shows "cm_wf (snd (remove_client cm fd))"
    "sessions (snd (remove_client cm fd)) = (sessions cm)(fd := None)"
    "fst (remove_client cm fd) = (if sessions cm fd = None then -1 else 0)"
proof -
  show "fst (remove_client cm fd) = (if sessions cm fd = None then -1 else 0)"
    using find_client_None [OF assms, of fd] by (auto simp: remove_client_def Let_def split: option.splits)
  show "cm_wf (snd (remove_client cm fd))"
    using assms remove_client_slots by (cases "find_client cm fd") (auto simp: remove_client_def)
  show "sessions (snd (remove_client cm fd)) = (sessions cm)(fd := None)"
  proof (cases "find_client cm fd")
    case None
    with find_client_None [OF assms, of fd] show ?thesis by (auto simp: remove_client_def fun_eq_iff)
  next
    case (Some i)
    with find_clientD have i: "i < length (slots cm)" "fst (slots cm ! i) = fd"
      using assms by (auto simp: length_slots nth_slots)
    with remove_client_slots [OF assms Some] distinct_slots [OF assms] show ?thesis
      by (simp add: sessions_def map_of_drop_nth del: map_of_append)
  qed
qed

lemma take_list_update_in: "i < n \<Longrightarrow> take n (xs[i := x]) = (take n xs)[i := x]"
  by (simp add: take_update_swap)

lemma zip_update1: "i < length as \<Longrightarrow> length as = length bs \<Longrightarrow> zip (as[i := a]) bs = (zip as bs)[i := (a, bs ! i)]"
  using update_zip [of as bs i "(a, bs ! i)"] by simp

lemma zip_update2: "i < length as \<Longrightarrow> length as = length bs \<Longrightarrow> zip as (bs[i := b]) = (zip as bs)[i := (as ! i, b)]"
  using update_zip [of as bs i "(as ! i, b)"] by simp

lemma set_client_auth_ok:
  assumes "cm_wf cm"
  shows "cm_wf (set_client_auth cm fd l)"
    "sessions (set_client_auth cm fd l) =
       (case sessions cm fd of None \<Rightarrow> sessions cm | Some (_, s) \<Rightarrow> (sessions cm)(fd \<mapsto> (l, s)))"
proof -
  show "cm_wf (set_client_auth cm fd l)"
    using assms by (auto simp: cm_wf_def set_client_auth_def split: option.splits)
  show "sessions (set_client_auth cm fd l) =
       (case sessions cm fd of None \<Rightarrow> sessions cm | Some (_, s) \<Rightarrow> (sessions cm)(fd \<mapsto> (l, s)))"
  proof (cases "find_client cm fd")
    case None
    with find_client_None [OF assms, of fd] show ?thesis by (simp add: set_client_auth_def)
  next
    case (Some i)
    from find_clientD [OF this] have i: "i < client_count cm" "clients cm ! i = fd" by simp_all
    with assms Some have "slots (set_client_auth cm fd l) = (slots cm)[i := (fd, l, client_names cm ! i)]"
      by (simp add: set_client_auth_def take_zip_slots cm_wf_def take_list_update_in zip_update1 zip_update2)
    with i assms Some show ?thesis
      by (simp add: find_client_sessions [OF assms, of fd])
        (simp add: sessions_def map_of_update_nth distinct_slots nth_slots length_slots)
  qed
qed

lemma set_client_name_ok:
  assumes "cm_wf cm"
  shows "cm_wf (set_client_name cm fd s)"
    "sessions (set_client_name cm fd s) =
       (case sessions cm fd of None \<Rightarrow> sessions cm
        | Some (l, _) \<Rightarrow> (sessions cm)(fd \<mapsto> (l, copy_name AUTH_KEY_NAME_MAX s)))"
proof -
  show "cm_wf (set_client_name cm fd s)"
    using assms length_copy_name [of AUTH_KEY_NAME_MAX s]
    by (auto simp: cm_wf_def set_client_name_def take_update_swap auth_limits dest!: set_update_subset_insert [THEN subsetD] split: option.splits)
  show "sessions (set_client_name cm fd s) =
       (case sessions cm fd of None \<Rightarrow> sessions cm
        | Some (l, _) \<Rightarrow> (sessions cm)(fd \<mapsto> (l, copy_name AUTH_KEY_NAME_MAX s)))"
  proof (cases "find_client cm fd")
    case None
    with find_client_None [OF assms, of fd] show ?thesis by (simp add: set_client_name_def)
  next
    case (Some i)
    from find_clientD [OF this] have i: "i < client_count cm" "clients cm ! i = fd" by simp_all
    with assms Some have "slots (set_client_name cm fd s) =
        (slots cm)[i := (fd, client_auth cm ! i, copy_name AUTH_KEY_NAME_MAX s)]"
      by (simp add: set_client_name_def take_zip_slots cm_wf_def take_list_update_in zip_update1 zip_update2)
    with i assms Some show ?thesis
      by (simp add: find_client_sessions [OF assms, of fd])
        (simp add: sessions_def map_of_update_nth distinct_slots nth_slots length_slots)
  qed
qed

lemma get_client_auth_sessions:
  "cm_wf cm \<Longrightarrow> get_client_auth cm fd = (case sessions cm fd of None \<Rightarrow> AUTH_NONE | Some (l, _) \<Rightarrow> l)"
  by (simp add: get_client_auth_def find_client_sessions split: option.splits)

lemma get_client_name_sessions:
  assumes "cm_wf cm"
  shows "get_client_name cm fd = (case sessions cm fd of None \<Rightarrow> [] | Some (_, s) \<Rightarrow> s)"
  using session_name_short [OF assms, of fd] assms
  by (auto simp: get_client_name_def find_client_sessions split: option.splits)

lemma is_client_sessions: "cm_wf cm \<Longrightarrow> is_client cm fd \<longleftrightarrow> sessions cm fd \<noteq> None"
  by (simp add: is_client_def find_client_None)

lemma close_all_clients_fields:
  "fold (\<lambda>i c. c\<lparr>clients := (clients c)[i := -1], client_auth := (client_auth c)[i := AUTH_NONE],
                  client_names := (client_names c)[i := []]\<rparr>) is cm =
   cm\<lparr>clients := fold (\<lambda>i xs. xs[i := -1]) is (clients cm),
      client_auth := fold (\<lambda>i xs. xs[i := AUTH_NONE]) is (client_auth cm),
      client_names := fold (\<lambda>i xs. xs[i := []]) is (client_names cm)\<rparr>"
  by (induction "is" arbitrary: cm) simp_all

lemma length_fold_update [simp]: "length (fold (\<lambda>i xs. xs[i := y]) is xs) = length xs"
  by (induction "is" arbitrary: xs) simp_all

lemma close_all_clients_ok:
  assumes "cm_wf cm"
  shows "cm_wf (close_all_clients cm)" "sessions (close_all_clients cm) = Map.empty"
    "max_clients (close_all_clients cm) = max_clients cm"
  using assms
  by (simp_all add: close_all_clients_def close_all_clients_fields cm_wf_def sessions_def slots_def)

subsection \<open>The interface to the server loop\<close>

text \<open>A table of sessions: a new connection starts without any right, whatever its descriptor was used for.\<close>

locale session_table =
  fixes inv :: "'s \<Rightarrow> bool"
    and sess :: "'s \<Rightarrow> int \<Rightarrow> (AuthLevel \<times> string) option"
    and new :: "'s \<Rightarrow> int \<Rightarrow> int \<times> 's"
    and rem :: "'s \<Rightarrow> int \<Rightarrow> int \<times> 's"
    and set_level :: "'s \<Rightarrow> int \<Rightarrow> AuthLevel \<Rightarrow> 's"
    and set_name :: "'s \<Rightarrow> int \<Rightarrow> string \<Rightarrow> 's"
    and level :: "'s \<Rightarrow> int \<Rightarrow> AuthLevel"
  assumes new_ok: "inv s \<Longrightarrow> sess s fd = None \<Longrightarrow> new s fd = (0, s') \<Longrightarrow>
      inv s' \<and> sess s' = (sess s)(fd \<mapsto> (AUTH_NONE, []))"
    and new_fail: "new s fd = (c, s') \<Longrightarrow> c \<noteq> 0 \<Longrightarrow> s' = s"
    and rem_ok: "inv s \<Longrightarrow> inv (snd (rem s fd)) \<and> sess (snd (rem s fd)) = (sess s)(fd := None)"
    and level_ok: "inv s \<Longrightarrow> inv (set_level s fd l) \<and>
      sess (set_level s fd l) = (case sess s fd of None \<Rightarrow> sess s | Some (_, n) \<Rightarrow> (sess s)(fd \<mapsto> (l, n)))"
    and name_ok: "inv s \<Longrightarrow> inv (set_name s fd n) \<and>
      sess (set_name s fd n) =
        (case sess s fd of None \<Rightarrow> sess s | Some (l, _) \<Rightarrow> (sess s)(fd \<mapsto> (l, copy_name AUTH_KEY_NAME_MAX n)))"
    and level_get: "inv s \<Longrightarrow> level s fd = (case sess s fd of None \<Rightarrow> AUTH_NONE | Some (l, _) \<Rightarrow> l)"
begin

text \<open>Logging in: what the server does after a token has been verified.\<close>

lemma login:
  assumes "inv s" "sess s fd = Some x" "length n < AUTH_KEY_NAME_MAX"
  shows "inv (set_name (set_level s fd l) fd n)"
    and "sess (set_name (set_level s fd l) fd n) = (sess s)(fd \<mapsto> (l, n))"
  using assms level_ok [of s fd l] name_ok [of "set_level s fd l" fd n]
  by (auto split: option.splits prod.splits)

lemma login_level:
  assumes "inv s" "sess s fd = Some x" "length n < AUTH_KEY_NAME_MAX"
  shows "level (set_name (set_level s fd l) fd n) fd' = (if fd' = fd then l else level s fd')"
  using login [OF assms, of l] by (simp add: level_get assms(1))

lemma reused_descriptor:
  assumes "inv s" "new (snd (rem s fd)) fd = (0, s')"
  shows "level s' fd = AUTH_NONE" and "fd' \<noteq> fd \<Longrightarrow> level s' fd' = level s fd'"
proof -
  have "inv (snd (rem s fd))" and r: "sess (snd (rem s fd)) = (sess s)(fd := None)" using rem_ok [OF assms(1)] by auto
  then have "inv s'" "sess s' = ((sess s)(fd := None))(fd \<mapsto> (AUTH_NONE, []))"
    using new_ok [of "snd (rem s fd)" fd s'] assms(2) by auto
  then show "level s' fd = AUTH_NONE" and "fd' \<noteq> fd \<Longrightarrow> level s' fd' = level s fd'"
    by (simp_all add: level_get assms(1))
qed

end

lemma add_client_cases:
  assumes "cm_wf cm" "sessions cm fd = None" "add_client ok cm fd = (0, cm')"
  shows "cm_wf cm' \<and> sessions cm' = (sessions cm)(fd \<mapsto> (AUTH_NONE, []))"
proof -
  have *: "ok \<and> client_count cm < max_clients cm"
    using assms(3) add_client_refused [of ok cm fd] by (cases "ok \<and> client_count cm < max_clients cm") auto
  then have ok: "ok = True" by simp
  with * assms(3) have "cm' = snd (add_client True cm fd)" by simp
  with * assms(1,2) show ?thesis by (simp add: add_client_ok)
qed

lemma add_client_fail: "add_client ok cm fd = (c, cm') \<Longrightarrow> c \<noteq> 0 \<Longrightarrow> cm' = cm"
  by (auto simp: add_client_def Let_def split: if_splits)

interpretation ct: session_table cm_wf sessions "add_client ok" remove_client set_client_auth set_client_name get_client_auth for ok
proof (unfold_locales, goal_cases)
  case (1 s fd s')
  then show ?case by (rule add_client_cases)
next
  case (2 s fd c s')
  then show ?case by (rule add_client_fail)
qed (simp_all add: remove_client_ok set_client_auth_ok set_client_name_ok get_client_auth_sessions)

subsection \<open>Properties\<close>

text \<open>
  Removing a client closes the gap in all three arrays alike: the descriptor is gone and every
  other session keeps its level and its name. An unknown descriptor is refused and nothing changes.
\<close>

theorem removing_a_client_keeps_the_others:
  assumes "cm_wf cm"
  shows "cm_wf (snd (remove_client cm fd)) \<and> sessions (snd (remove_client cm fd)) = (sessions cm)(fd := None) \<and>
    fst (remove_client cm fd) = (if sessions cm fd = None then -1 else 0)"
  using remove_client_ok [OF assms] by simp

text \<open>A table of two clients, the first of which is logged in.\<close>

definition demo_cm :: ConnectionManager where
  "demo_cm = \<lparr>epollfd = 4, clients = [5, 6, 0], client_auth = [AUTH_ADMIN, AUTH_READONLY, AUTH_NONE],
     client_names = [''admin'', ''bob'', []], client_count = 2, max_clients = 3\<rparr>"

lemma demo_cm_ok: "cm_wf demo_cm" "sessions demo_cm = [5 \<mapsto> (AUTH_ADMIN, ''admin''), 6 \<mapsto> (AUTH_READONLY, ''bob'')]"
  by (auto simp: demo_cm_def cm_wf_def sessions_def slots_def AUTH_KEY_NAME_MAX_def numeral_nat)

theorem removing_a_client_keeps_the_others_witness:
  "cm_wf demo_cm \<and> sessions (snd (remove_client demo_cm 5)) = [6 \<mapsto> (AUTH_READONLY, ''bob'')]"
  using removing_a_client_keeps_the_others [OF demo_cm_ok(1), of 5] demo_cm_ok by (auto simp: fun_eq_iff)

text \<open>
  A descriptor that is closed and handed out again by the kernel starts without any right,
  whatever it was logged in as before, and no other session changes its level.
\<close>

theorem reused_descriptor_has_no_rights:
  assumes "cm_wf cm" "add_client ok (snd (remove_client cm fd)) fd = (0, cm')"
  shows "get_client_auth cm' fd = AUTH_NONE \<and> (\<forall>fd'. fd' \<noteq> fd \<longrightarrow> get_client_auth cm' fd' = get_client_auth cm fd')"
  using ct.reused_descriptor [OF assms] by blast

theorem reused_descriptor_has_no_rights_witness:
  "cm_wf demo_cm \<and> get_client_auth demo_cm 5 = AUTH_ADMIN \<and>
   (\<exists>cm'. add_client True (snd (remove_client demo_cm 5)) 5 = (0, cm') \<and>
     get_client_auth cm' 5 = AUTH_NONE \<and> get_client_auth cm' 6 = AUTH_READONLY)"
proof -
  have "fst (add_client True (snd (remove_client demo_cm 5)) 5) = 0" by code_simp
  then obtain cm' where add: "add_client True (snd (remove_client demo_cm 5)) 5 = (0, cm')" by (metis prod.collapse)
  from reused_descriptor_has_no_rights [OF demo_cm_ok(1) add] add demo_cm_ok
  show ?thesis by (simp add: get_client_auth_sessions)
qed

end
