(* ===== verification/Net.thy ===== *)
theory Net
  imports C_Prelude Float64
begin

text \<open>
  Receiving a request line and sending a reply, \<open>src/net.c\<close>. The network is the list of chunks that
  arrive on the connection: a \<open>read\<close> returns at most as many bytes of the first chunk as it was asked
  for, an empty chunk stands for end of stream or an error. A \<open>write\<close> is the number it returns.
\<close>

definition INITIAL_RECIEVE_BUFFER_SIZE :: nat where "INITIAL_RECIEVE_BUFFER_SIZE = 1024"
definition MAX_RECIEVE_SIZE :: nat where "MAX_RECIEVE_SIZE = 65536"

lemmas net_limits = INITIAL_RECIEVE_BUFFER_SIZE_def MAX_RECIEVE_SIZE_def

text \<open>A request line, \<open>NULL\<close> (the connection is to be dropped), or still blocked in \<open>read\<close>.\<close>

datatype Received = Line string | Dropped | Waiting

definition newline :: char where "newline = CHR 0x0A"

text \<open>What \<open>strchr\<close> sees of the buffer: the characters up to the first NUL.\<close>

definition c_string :: "string \<Rightarrow> string" where
  "c_string s = takeWhile (\<lambda>c. c \<noteq> CHR 0x00) s"

function receive_loop :: "nat \<Rightarrow> string \<Rightarrow> string list \<Rightarrow> Received" where
  "receive_loop total_size buffer chunks =
    (let new_size = (if length buffer \<ge> total_size - 1 then total_size * 2 else total_size) in
     if length buffer \<ge> total_size - 1 \<and> new_size > MAX_RECIEVE_SIZE then Dropped
     else case chunks of
            [] \<Rightarrow> Waiting
          | c # cs \<Rightarrow>
              let n = new_size - length buffer - 1; got = take n c; buf = buffer @ got in
              if got = [] then Dropped
              else if newline \<in> set (c_string buf) then Line (takeWhile (\<lambda>c. c \<noteq> newline) (c_string buf))
              else receive_loop new_size buf (if drop n c = [] then cs else drop n c # cs))"
  by pat_completeness auto
termination
  by (relation "measure (\<lambda>(t, b, cs). sum_list (map length cs))") (auto simp: Let_def min_def)

declare receive_loop.simps [simp del]

definition receive_data :: "string list \<Rightarrow> Received" where
  "receive_data chunks = receive_loop INITIAL_RECIEVE_BUFFER_SIZE [] chunks"

text \<open>
  What \<open>write(fd, buf, len)\<close> does to the bytes that have gone out: a positive result is the number of bytes
  taken from the front of the buffer, never more than \<open>len\<close>. The result of the call is given.
\<close>

definition sys_write :: "string \<Rightarrow> nat \<Rightarrow> int \<Rightarrow> string \<Rightarrow> int \<times> string" where
  "sys_write buf len w wire = (let n = min w (int len) in (n, if n > 0 then wire @ take (nat n) buf else wire))"

fun send_loop :: "string \<Rightarrow> nat \<Rightarrow> string \<Rightarrow> int list \<Rightarrow> (int \<times> string) option" where
  "send_loop data bytes_sent wire writes =
    (if bytes_sent \<ge> length data then Some (int bytes_sent, wire)
     else case writes of
            [] \<Rightarrow> None
          | w # ws \<Rightarrow>
              (case sys_write (drop bytes_sent data) (length data - bytes_sent) w wire of (result, wire') \<Rightarrow>
                 if result \<le> 0 then Some (-1, wire')
                 else send_loop data (bytes_sent + nat result) wire' ws))"

declare send_loop.simps [simp del]

definition send_data :: "string \<Rightarrow> int list \<Rightarrow> (int \<times> string) option" where
  "send_data data writes = send_loop data 0 [] writes"

definition send_int_text :: "int \<Rightarrow> string" where
  "send_int_text v = int_str v @ [newline]"

definition send_int :: "int \<Rightarrow> int list \<Rightarrow> (int \<times> string) option" where
  "send_int v writes =
    (if length (send_int_text v) \<ge> 32 then Some (-1, []) else send_data (send_int_text v) writes)"

subsection \<open>Receiving\<close>

lemma c_string_append_clean: "CHR 0x00 \<notin> set s \<Longrightarrow> c_string (s @ t) = s @ c_string t"
  by (induction s) (auto simp: c_string_def)

lemma receive_loop_line:
  "receive_loop total_size buffer chunks = Line l \<Longrightarrow>
     newline \<notin> set l \<and> CHR 0x00 \<notin> set l"
proof (induction total_size buffer chunks rule: receive_loop.induct)
  case (1 total_size buffer chunks)
  then show ?case
    by (subst (asm) receive_loop.simps)
      (auto simp: Let_def c_string_def dest!: set_takeWhileD split: if_splits list.splits)
qed

text \<open>A size of the buffer that occurs: a power of two between the initial and the maximal size.\<close>

definition buffer_size :: "nat \<Rightarrow> bool" where
  "buffer_size n \<longleftrightarrow> n \<in> {1024, 2048, 4096, 8192, 16384, 32768, 65536}"

lemma buffer_size_grow: "buffer_size n \<Longrightarrow> n < 65536 \<Longrightarrow> buffer_size (n * 2)"
  by (auto simp: buffer_size_def)

lemma takeWhile_line: "newline \<notin> set l \<Longrightarrow> takeWhile (\<lambda>c. c \<noteq> newline) (l @ newline # r) = l"
  by (induction l) auto

lemma take_drop_concat: "take k c @ drop k c @ r = c @ r"
  by (metis append_assoc append_take_drop_id)

lemma append_longer: "b @ x = l @ y \<Longrightarrow> length b \<le> length l \<Longrightarrow> \<exists>l2. l = b @ l2"
  by (auto simp: append_eq_append_conv2)

lemma append_shorter: "b @ x = l @ c # y \<Longrightarrow> \<not> length b \<le> length l \<Longrightarrow> \<exists>r. b = l @ c # r"
proof -
  assume "b @ x = l @ c # y" "\<not> length b \<le> length l"
  then obtain us where "b = l @ us" "us @ x = c # y" "us \<noteq> []" by (auto simp: append_eq_append_conv2)
  then show ?thesis by (cases us) auto
qed

lemma set_c_string: "set (c_string s) \<subseteq> set s"
  by (auto simp: c_string_def dest: set_takeWhileD)

lemma receive_loop_finds:
  assumes "buffer @ concat chunks = l @ newline # rest" "newline \<notin> set l" "CHR 0x00 \<notin> set l" "length l \<le> 65534"
    "length buffer \<le> length l" "buffer_size total_size" "length buffer \<le> total_size - 1" "\<forall>c \<in> set chunks. c \<noteq> []"
  shows "receive_loop total_size buffer chunks = Line l"
  using assms
proof (induction total_size buffer chunks rule: receive_loop.induct)
  case (1 total_size buffer chunks)
  let ?n = "if length buffer \<ge> total_size - 1 then total_size * 2 else total_size"
  have le: "?n \<le> 65536" and size: "buffer_size ?n" and room: "length buffer < ?n - 1"
    using "1.prems"(4-7) buffer_size_grow [of total_size] by (auto simp: buffer_size_def)
  obtain c cs where cs: "chunks = c # cs" "c \<noteq> []"
    using "1.prems"(1,5,8) by (cases chunks) auto
  let ?k = "?n - length buffer - 1"
  let ?buf = "buffer @ take ?k c" and ?cs = "if drop ?k c = [] then cs else drop ?k c # cs"
  have got: "take ?k c \<noteq> []" using room cs(2) by simp
  have all: "?buf @ concat ?cs = l @ newline # rest" using "1.prems"(1) cs(1) by (auto simp: take_drop_concat)
  have step: "receive_loop total_size buffer chunks =
    (if newline \<in> set (c_string ?buf) then Line (takeWhile (\<lambda>c. c \<noteq> newline) (c_string ?buf))
     else receive_loop ?n ?buf ?cs)"
    using le got cs(1) by (subst receive_loop.simps) (simp add: Let_def net_limits)
  show ?case
  proof (cases "length ?buf \<le> length l")
    case True
    from append_longer [OF all True] obtain l2 where l: "l = ?buf @ l2" by blast
    have "set (c_string ?buf) \<subseteq> set ?buf" by (rule set_c_string)
    also have "\<dots> \<subseteq> set l" by (subst l, subst set_append) (rule Un_upper1)
    finally have "newline \<notin> set (c_string ?buf)" using "1.prems"(2) by blast
    moreover have "receive_loop ?n ?buf ?cs = Line l"
      by (rule "1.IH" [OF refl _ cs(1) refl refl refl got _ all])
        (use le "1.prems" True size cs room calculation in \<open>auto simp: net_limits\<close>)
    ultimately show ?thesis using step by simp
  next
    case False
    from append_shorter [OF all False] obtain r2 where b: "?buf = l @ newline # r2" by blast
    have "c_string ?buf = l @ newline # c_string r2"
      unfolding b using c_string_append_clean [OF "1.prems"(3)] by (simp add: c_string_def newline_def)
    with step takeWhile_line [OF "1.prems"(2)] show ?thesis by simp
  qed
qed

subsection \<open>Sending\<close>

lemma sys_write_slice:
  assumes "sent < length data" "0 < w"
  shows "sys_write (drop sent data) (length data - sent) w (take sent data) =
    (min w (int (length data - sent)), take (sent + nat (min w (int (length data - sent)))) data)"
  using assms by (simp add: sys_write_def Let_def take_add)

lemma send_loop_step:
  assumes "sent < length data" "0 < w"
  obtains n where "0 < n" "sent + n \<le> length data"
    "send_loop data sent (take sent data) (w # ws) = send_loop data (sent + n) (take (sent + n) data) ws"
proof (rule that [of "nat (min w (int (length data - sent)))"])
  show "send_loop data sent (take sent data) (w # ws) =
      send_loop data (sent + nat (min w (int (length data - sent)))) (take (sent + nat (min w (int (length data - sent)))) data) ws"
    using assms by (subst send_loop.simps) (simp add: sys_write_slice min_le_iff_disj)
qed (use assms in auto)

lemma send_loop_stop: "sent < length data \<Longrightarrow> w \<le> 0 \<Longrightarrow> send_loop data sent wire (w # ws) = Some (-1, wire)"
  by (subst send_loop.simps) (simp add: sys_write_def Let_def)

lemma send_loop_done: "length data \<le> sent \<Longrightarrow> send_loop data sent wire ws = Some (int sent, wire)"
  by (subst send_loop.simps) simp

lemma send_loop_blocked: "sent < length data \<Longrightarrow> send_loop data sent wire [] = None"
  by (subst send_loop.simps) simp

lemma send_loop_complete:
  assumes "\<forall>w \<in> set ws. 0 < w" "length data \<le> sent + length ws" "sent \<le> length data"
  shows "send_loop data sent (take sent data) ws = Some (int (length data), data)"
  using assms
proof (induction ws arbitrary: sent)
  case (Cons w ws)
  show ?case
  proof (cases "sent = length data")
    case False
    with Cons.prems have "sent < length data" "0 < w" by simp_all
    then obtain n where "0 < n" "sent + n \<le> length data"
      "send_loop data sent (take sent data) (w # ws) = send_loop data (sent + n) (take (sent + n) data) ws"
      by (rule send_loop_step)
    with Cons.IH [of "sent + n"] Cons.prems show ?thesis by simp
  qed (simp add: send_loop_done)
qed (simp add: send_loop_done)

lemma send_loop_prefix:
  "send_loop data sent (take sent data) ws = Some (r, out) \<Longrightarrow> sent \<le> length data \<Longrightarrow>
     (r = -1 \<or> (r = int (length data) \<and> out = data)) \<and> (\<exists>n. out = take n data)"
proof (induction ws arbitrary: sent)
  case Nil
  then show ?case by (cases "sent = length data") (auto simp: send_loop_done send_loop_blocked intro: exI [of _ "length data"])
next
  case (Cons w ws)
  consider "sent = length data" | "sent < length data" "w \<le> 0" | "sent < length data" "0 < w" using Cons.prems(2) by linarith
  then show ?case
  proof cases
    case 1
    with Cons.prems show ?thesis by (auto simp: send_loop_done intro: exI [of _ "length data"])
  next
    case 2
    with Cons.prems show ?thesis by (auto simp: send_loop_stop)
  next
    case 3
    then obtain n where "0 < n" "sent + n \<le> length data"
      "send_loop data sent (take sent data) (w # ws) = send_loop data (sent + n) (take (sent + n) data) ws"
      by (rule send_loop_step)
    with Cons.IH [of "sent + n"] Cons.prems show ?thesis by simp
  qed
qed

subsection \<open>Properties\<close>

text \<open>
  C38. However the kernel cuts the bytes of a request into pieces, the line that is received is the
  request up to its newline, whole and unchanged, as long as it fits the largest buffer.
\<close>

theorem received_line_is_the_request:
  assumes "concat chunks = l @ newline # rest" "newline \<notin> set l" "CHR 0x00 \<notin> set l" "length l \<le> 65534"
    "\<forall>c \<in> set chunks. c \<noteq> []"
  shows "receive_data chunks = Line l"
  unfolding receive_data_def by (rule receive_loop_finds) (use assms in \<open>auto simp: buffer_size_def net_limits\<close>)

theorem received_line_is_the_request_witness:
  "receive_data [''WHO'', ''AMI'' @ [newline]] = Line ''WHOAMI''"
  by (rule received_line_is_the_request [where rest = "[]"]) (simp_all add: newline_def)

text \<open>
  C39. Sending either reports failure, with a prefix of the reply on the wire, or has put the whole
  reply on the wire and reports its length; when every write makes progress it succeeds after at most
  as many writes as there are bytes.
\<close>

theorem send_data_whole_or_failed:
  "(send_data data ws = Some (r, out) \<longrightarrow>
      (r = -1 \<or> r = int (length data) \<and> out = data) \<and> (\<exists>n. out = take n data)) \<and>
   ((\<forall>w \<in> set ws. 0 < w) \<and> length data \<le> length ws \<longrightarrow> send_data data ws = Some (int (length data), data))"
  using send_loop_prefix [of data 0 ws r out] send_loop_complete [of ws data 0] by (simp add: send_data_def)

theorem send_data_whole_or_failed_witness:
  "send_data ''READY'' [2, 1, 7, 1, 1] = Some (5, ''READY'') \<and> send_data ''READY'' [3, -1] = Some (-1, ''REA'')"
proof
  show "send_data ''READY'' [2, 1, 7, 1, 1] = Some (5, ''READY'')"
    using send_data_whole_or_failed [of "''READY''" "[2, 1, 7, 1, 1]"] by simp
  show "send_data ''READY'' [3, -1] = Some (-1, ''REA'')" by code_simp
qed

text \<open>
  Only the first of several requests that arrive together is answered: what follows the first
  newline in the buffer is not kept for the next call.
\<close>

theorem pipelined_request_is_lost:
  assumes "newline \<notin> set a" "CHR 0x00 \<notin> set a" "length a \<le> 65534"
  shows "receive_data [a @ newline # b] = receive_data [a @ newline # c]"
proof -
  have "receive_data [a @ newline # x] = Line a" for x
    unfolding receive_data_def
    by (rule receive_loop_finds [where rest = x]) (use assms in \<open>auto simp: buffer_size_def net_limits\<close>)
  then show ?thesis by simp
qed

theorem pipelined_request_is_lost_witness:
  "receive_data [''COUNT t'' @ newline # ''DEL t 1'' @ [newline]] = receive_data [''COUNT t'' @ newline # []]"
  by (rule pipelined_request_is_lost) (simp_all add: newline_def)

end
