(* ===== verification/Server.thy ===== *)
theory Server
  imports Operations_Facts Ownership Connection_Manager Net
begin

text \<open>
  The event loop of \<open>src/main.c\<close>: what one event does to the table of clients and to the store, and
  the runs that sequences of events make. Signals, accepted descriptors and received lines are the
  events; \<open>Received\<close> of theory Net is what \<open>receive_data\<close> returned. Saving snapshots and logging are
  not part of the state.
\<close>

subsection \<open>State and replies\<close>

record Server =
  cm :: ConnectionManager
  store :: Store
  keepRunning :: bool

text \<open>
  A reply: the bytes of a string, or the first \<open>n\<close> bytes of a buffer of which only the
  NUL-terminated string at its start was written.
\<close>

datatype Reply = Bytes string | Buffer string nat

definition respond :: "CommandResult \<Rightarrow> Reply run" where
  "respond r =
    (case message r of
       Some m \<Rightarrow> Some (Bytes m)
     | None \<Rightarrow>
         (case rdata r of
            Text t \<Rightarrow> Some (Bytes t)
          | Null \<Rightarrow> Some (Bytes (send_int_text (code r)))
          | Uninit \<Rightarrow> None))"

definition readonly_op :: "Command \<Rightarrow> bool" where
  "readonly_op cmd \<longleftrightarrow>
    (case cmd of OP_GET _ \<Rightarrow> True | OP_GET_ALL _ \<Rightarrow> True | OP_SEARCH _ \<Rightarrow> True | OP_COUNT _ \<Rightarrow> True
               | OP_WHOAMI _ \<Rightarrow> True | _ \<Rightarrow> False)"

definition fill_whoami :: "ConnectionManager \<Rightarrow> int \<Rightarrow> Command \<Rightarrow> Command" where
  "fill_whoami c fd cmd = (case cmd of OP_WHOAMI d \<Rightarrow> OP_WHOAMI \<lparr>whoami_name = get_client_name c fd\<rparr> | _ \<Rightarrow> cmd)"

text \<open>Once executed, the strings of \<open>ADD\<close> and \<open>UP\<close> are taken for the table's.\<close>

definition transfers :: "Command \<Rightarrow> bool" where
  "transfers cmd = (case cmd of OP_ADD _ \<Rightarrow> True | OP_UP _ \<Rightarrow> True | _ \<Rightarrow> False)"

definition run_command :: "Env \<Rightarrow> Server \<Rightarrow> int \<Rightarrow> Command \<Rightarrow> (Server \<times> Reply) run" where
  "run_command env sv fd cmd =
    do { (r, st) \<leftarrow> execute_command env (store sv) (fill_whoami (cm sv) fd cmd);
         reply \<leftarrow> respond r;
         u \<leftarrow> free_command_result r;
         n \<leftarrow> free_command cmd (transfers cmd);
         Some (sv\<lparr>store := st\<rparr>, reply) }"

text \<open>A request that is not executed is answered and released.\<close>

definition answer :: "Command \<Rightarrow> Server \<times> Reply \<Rightarrow> (Server \<times> Reply) run" where
  "answer cmd x = do { n \<leftarrow> free_command cmd False; Some x }"

definition handle_command :: "Env \<Rightarrow> Server \<Rightarrow> int \<Rightarrow> Command \<Rightarrow> (Server \<times> Reply) run" where
  "handle_command env sv fd cmd =
    (case cmd of
       OP_ERROR e \<Rightarrow> answer cmd (sv, Buffer e MAX_ERROR_LENGTH)
     | OP_AUTH d \<Rightarrow>
         (case auth_verify_ex (sodium env) (g_auth_store (store sv)) (auth_token d) of (level, auth_name) \<Rightarrow>
            if level = AUTH_NONE then answer cmd (sv, Bytes ''ERR Invalid token'')
            else answer cmd (sv\<lparr>cm := set_client_name (set_client_auth (cm sv) fd level) fd auth_name\<rparr>,
                             Bytes (send_int_text (int (level_num level)))))
     | _ \<Rightarrow>
         let auth = get_client_auth (cm sv) fd in
         if auth = AUTH_NONE then answer cmd (sv, Bytes ''ERR Authentication required'')
         else if auth = AUTH_READONLY \<and> \<not> readonly_op cmd then answer cmd (sv, Bytes ''ERR Permission denied'')
         else run_command env sv fd cmd)"

subsection \<open>Events\<close>

datatype Event =
    Signal
  | Incoming int bool      \<comment> \<open>the accepted descriptor (-1 on error) and whether epoll took it\<close>
  | Readable int Received  \<comment> \<open>a descriptor and what \<open>receive_data\<close> made of it\<close>

definition handle_event :: "Env \<Rightarrow> Server \<Rightarrow> Event \<Rightarrow> (Server \<times> Reply option) run" where
  "handle_event env sv ev =
    (case ev of
       Signal \<Rightarrow> Some (sv\<lparr>keepRunning := False\<rparr>, None)
     | Incoming clientfd ok \<Rightarrow>
         if clientfd = -1 then Some (sv, None)
         else Some (sv\<lparr>cm := snd (add_client ok (cm sv) clientfd)\<rparr>, None)
     | Readable fd data \<Rightarrow>
         if \<not> is_client (cm sv) fd then Some (sv, None)
         else case data of
                Waiting \<Rightarrow> Some (sv, None)
              | Dropped \<Rightarrow> Some (sv\<lparr>cm := snd (remove_client (cm sv) fd)\<rparr>, None)
              | Line line \<Rightarrow>
                  do { cmd \<leftarrow> parse_command line;
                       (sv', reply) \<leftarrow> handle_command env sv fd cmd;
                       Some (sv', Some reply) })"

text \<open>Generating the first admin key when the loaded store has none.\<close>

definition bootstrap :: "Sodium \<Rightarrow> Store \<Rightarrow> Store" where
  "bootstrap sod st =
    (if keys (g_auth_store st) = []
     then case auth_generate_token sod of (rc, tok) \<Rightarrow>
            if rc = 0 then st\<lparr>g_auth_store := snd (auth_add_key sod (g_auth_store st) ''admin'' tok ROLE_ADMIN)\<rparr>
            else st
     else st)"

text \<open>The kernel hands out descriptors that are not open.\<close>

definition event_ok :: "Server \<Rightarrow> Event \<Rightarrow> bool" where
  "event_ok sv ev = (case ev of Incoming fd _ \<Rightarrow> \<not> is_client (cm sv) fd | _ \<Rightarrow> True)"

text \<open>
  The runs of the loop, with the events they took (the last one first). A signal ends the loop only when
  the events that arrived together with it are done; theory Process models these rounds.
\<close>

inductive server_run :: "Server \<Rightarrow> (Env \<times> Event) list \<Rightarrow> Server \<Rightarrow> bool" for sv0 where
  start: "server_run sv0 [] sv0"
| step: "server_run sv0 evs sv \<Longrightarrow> event_ok sv ev \<Longrightarrow>
     handle_event env sv ev = Some (sv', out) \<Longrightarrow> server_run sv0 ((env, ev) # evs) sv'"

inductive_cases server_run_ConsE: "server_run sv0 (e # evs) sv"

subsection \<open>Commands that only read\<close>

lemma execute_readonly:
  assumes "readonly_op cmd" "execute_command env st cmd = Some (r, st')"
  shows "st' = st"
  using assms by (auto simp: readonly_op_def execute_command_def split: Command.splits)

lemma readonly_fill [simp]: "readonly_op (fill_whoami c fd cmd) = readonly_op cmd"
  by (cases cmd) (simp_all add: readonly_op_def fill_whoami_def)

lemma run_command_cm:
  "run_command env sv fd cmd = Some (sv', rep) \<Longrightarrow> cm sv' = cm sv \<and> keepRunning sv' = keepRunning sv"
  by (auto simp: run_command_def split: bind_splits)

lemma run_command_readonly:
  "readonly_op cmd \<Longrightarrow> run_command env sv fd cmd = Some (sv', rep) \<Longrightarrow> sv' = sv"
  using execute_readonly [of "fill_whoami (cm sv) fd cmd" env "store sv"]
  by (fastforce simp: run_command_def split: bind_splits)

lemma answer_Some [simp]:
  "answer cmd x = Some y \<longleftrightarrow> free_command cmd False \<noteq> None \<and> y = x"
  "Some y = answer cmd x \<longleftrightarrow> free_command cmd False \<noteq> None \<and> y = x"
  by (auto simp: answer_def split: bind_splits)

lemma answer_plain [simp]: "answer (OP_ERROR e) x = Some x" "answer (OP_AUTH d) x = Some x"
  by (simp_all add: answer_def free_command_def)

lemma handle_command_cases:
  obtains (error) e where "cmd = OP_ERROR e" "handle_command env sv fd cmd = Some (sv, Buffer e MAX_ERROR_LENGTH)"
  | (bad_token) d where "cmd = OP_AUTH d" "handle_command env sv fd cmd = Some (sv, Bytes ''ERR Invalid token'')"
      "auth_verify (sodium env) (g_auth_store (store sv)) (auth_token d) = AUTH_NONE"
  | (login) d l n where "cmd = OP_AUTH d" "l \<noteq> AUTH_NONE"
      "auth_verify_ex (sodium env) (g_auth_store (store sv)) (auth_token d) = (l, n)"
      "handle_command env sv fd cmd =
         Some (sv\<lparr>cm := set_client_name (set_client_auth (cm sv) fd l) fd n\<rparr>, Bytes (send_int_text (int (level_num l))))"
  | (refused) msg where "handle_command env sv fd cmd = answer cmd (sv, Bytes msg)"
      "get_client_auth (cm sv) fd = AUTH_NONE \<or> get_client_auth (cm sv) fd = AUTH_READONLY \<and> \<not> readonly_op cmd"
  | (run) "handle_command env sv fd cmd = run_command env sv fd cmd"
      "get_client_auth (cm sv) fd = AUTH_ADMIN \<or> get_client_auth (cm sv) fd = AUTH_READONLY \<and> readonly_op cmd"
proof (cases "\<exists>e. cmd = OP_ERROR e")
  case True
  then show ?thesis using error by (auto simp: handle_command_def)
next
  case ne: False
  show ?thesis
  proof (cases "\<exists>d. cmd = OP_AUTH d")
    case True
    then obtain d where d: "cmd = OP_AUTH d" by blast
    obtain l n where v: "auth_verify_ex (sodium env) (g_auth_store (store sv)) (auth_token d) = (l, n)" by fastforce
    with auth_verify_ex_level [of "sodium env" "g_auth_store (store sv)" "auth_token d"]
    have "auth_verify (sodium env) (g_auth_store (store sv)) (auth_token d) = l" by simp
    with d v show ?thesis
      using bad_token [of d] login [of d l n] by (cases "l = AUTH_NONE") (simp_all add: handle_command_def)
  next
    case False
    then have h: "handle_command env sv fd cmd =
      (let auth = get_client_auth (cm sv) fd in
         if auth = AUTH_NONE then answer cmd (sv, Bytes ''ERR Authentication required'')
         else if auth = AUTH_READONLY \<and> \<not> readonly_op cmd then answer cmd (sv, Bytes ''ERR Permission denied'')
         else run_command env sv fd cmd)"
      using ne by (cases cmd) (simp_all add: handle_command_def Let_def)
    then show ?thesis
      using refused run by (cases "get_client_auth (cm sv) fd") (auto simp: Let_def split: if_splits)
  qed
qed

subsection \<open>Sessions\<close>

lemma verify_name_short: "auth_verify_ex sod st t = (l, n) \<Longrightarrow> length n < AUTH_KEY_NAME_MAX"
proof -
  have "verify_keys sod ks t = (l, n) \<Longrightarrow> length n < AUTH_KEY_NAME_MAX" for ks
    by (induction ks) (auto simp: length_copy_name auth_limits split: if_splits)
  then show "auth_verify_ex sod st t = (l, n) \<Longrightarrow> length n < AUTH_KEY_NAME_MAX"
    by (simp add: auth_verify_ex_def)
qed

text \<open>A login that just happened on a descriptor.\<close>

definition logs_in :: "Env \<Rightarrow> Server \<Rightarrow> Event \<Rightarrow> int \<Rightarrow> AuthLevel \<times> string \<Rightarrow> bool" where
  "logs_in env sv ev fd x \<longleftrightarrow> (\<exists>line d. ev = Readable fd (Line line) \<and> parse_command line = Some (OP_AUTH d) \<and>
     auth_verify_ex (sodium env) (g_auth_store (store sv)) (auth_token d) = x)"

lemma login_sessions:
  assumes "cm_wf c" "is_client c fd" "length n < AUTH_KEY_NAME_MAX"
  shows "cm_wf (set_client_name (set_client_auth c fd l) fd n)"
    "sessions (set_client_name (set_client_auth c fd l) fd n) = (sessions c)(fd \<mapsto> (l, n))"
proof -
  obtain x where x: "sessions c fd = Some x" using assms(1,2) by (auto simp: is_client_sessions)
  show "cm_wf (set_client_name (set_client_auth c fd l) fd n)"
    by (rule ct.login(1) [OF assms(1) x assms(3)])
  show "sessions (set_client_name (set_client_auth c fd l) fd n) = (sessions c)(fd \<mapsto> (l, n))"
    by (rule ct.login(2) [OF assms(1) x assms(3)])
qed

lemma handle_command_sessions:
  assumes wf: "cm_wf (cm sv)" and cl: "is_client (cm sv) fd" and h: "handle_command env sv fd cmd = Some (sv', rep)"
  shows "cm_wf (cm sv') \<and> (sessions (cm sv') = sessions (cm sv) \<or>
    (\<exists>d l n. cmd = OP_AUTH d \<and> l \<noteq> AUTH_NONE \<and>
       auth_verify_ex (sodium env) (g_auth_store (store sv)) (auth_token d) = (l, n) \<and>
       sessions (cm sv') = (sessions (cm sv))(fd \<mapsto> (l, n)) \<and> store sv' = store sv))"
proof (cases rule: handle_command_cases [where cmd = cmd and env = env and sv = sv and fd = fd])
  case (login d l n)
  from login_sessions [OF wf cl verify_name_short [OF login(3)], of l] h login show ?thesis by auto
next
  case run
  with h run_command_cm [of env sv fd cmd sv' rep] wf show ?thesis by auto
qed (use h wf in auto)

lemma handle_event_sessions:
  assumes wf: "cm_wf (cm sv)" and ok: "event_ok sv ev" and h: "handle_event env sv ev = Some (sv', out)"
  shows "cm_wf (cm sv')"
    "sessions (cm sv') fd = Some (l, n) \<Longrightarrow> l \<noteq> AUTH_NONE \<Longrightarrow>
       sessions (cm sv) fd = Some (l, n) \<or> logs_in env sv ev fd (l, n)"
proof -
  have "cm_wf (cm sv') \<and> (sessions (cm sv') fd = Some (l, n) \<longrightarrow> l \<noteq> AUTH_NONE \<longrightarrow>
       sessions (cm sv) fd = Some (l, n) \<or> logs_in env sv ev fd (l, n))"
  proof (cases ev)
    case Signal
    with h wf show ?thesis by (auto simp: handle_event_def)
  next
    case (Incoming cfd k)
    show ?thesis
    proof (cases "fst (add_client k (cm sv) cfd) = 0")
      case True
      then have a: "add_client k (cm sv) cfd = (0, snd (add_client k (cm sv) cfd))" by (metis prod.collapse)
      have "sessions (cm sv) cfd = None"
        using ok Incoming wf by (cases "sessions (cm sv) cfd") (auto simp: event_ok_def is_client_sessions)
      from add_client_cases [OF wf this a] h Incoming wf show ?thesis
        by (auto simp: handle_event_def split: if_splits)
    next
      case False
      then have "snd (add_client k (cm sv) cfd) = cm sv" using add_client_fail by (metis prod.collapse)
      with h Incoming wf show ?thesis by (auto simp: handle_event_def split: if_splits)
    qed
  next
    case (Readable cfd data)
    show ?thesis
    proof (cases "is_client (cm sv) cfd")
      case False
      with h Readable wf show ?thesis by (auto simp: handle_event_def)
    next
      case cl: True
      show ?thesis
      proof (cases data)
        case (Line line)
        with h Readable cl obtain cmd rep where c: "parse_command line = Some cmd"
          "handle_command env sv cfd cmd = Some (sv', rep)"
          by (auto simp: handle_event_def split: bind_splits)
        with handle_command_sessions [OF wf cl c(2)] Readable Line show ?thesis
          by (auto simp: logs_in_def split: if_splits)
      next
        case Dropped
        with h Readable cl wf show ?thesis
          by (auto simp: handle_event_def remove_client_ok split: if_splits)
      next
        case Waiting
        with h Readable cl wf show ?thesis by (auto simp: handle_event_def)
      qed
    qed
  qed
  then show "cm_wf (cm sv')"
    "sessions (cm sv') fd = Some (l, n) \<Longrightarrow> l \<noteq> AUTH_NONE \<Longrightarrow>
       sessions (cm sv) fd = Some (l, n) \<or> logs_in env sv ev fd (l, n)" by blast+
qed

lemma handle_event_store:
  assumes h: "handle_event env sv ev = Some (sv', out)" and ch: "store sv' \<noteq> store sv"
  shows "\<exists>fd line cmd. ev = Readable fd (Line line) \<and> parse_command line = Some cmd \<and> \<not> readonly_op cmd \<and>
    get_client_auth (cm sv) fd = AUTH_ADMIN"
proof (cases ev)
  case (Readable fd data)
  with h ch obtain line cmd rep where l: "data = Line line" "parse_command line = Some cmd"
    "handle_command env sv fd cmd = Some (sv', rep)"
    by (auto simp: handle_event_def split: if_splits Received.splits bind_splits)
  from l(3) ch run_command_readonly [of cmd env sv fd sv' rep]
  have "\<not> readonly_op cmd \<and> get_client_auth (cm sv) fd = AUTH_ADMIN"
    by (cases rule: handle_command_cases [where cmd = cmd and env = env and sv = sv and fd = fd]) auto
  with Readable l show ?thesis by blast
qed (use h ch in \<open>auto simp: handle_event_def split: if_splits\<close>)

subsection \<open>Runs\<close>

lemma server_run_cm_wf: "server_run sv0 evs sv \<Longrightarrow> cm_wf (cm sv0) \<Longrightarrow> cm_wf (cm sv)"
  by (induction rule: server_run.induct) (auto dest: handle_event_sessions(1))

lemma dropped_session_ends:
  assumes "cm_wf (cm sv)" "handle_event env sv (Readable fd Dropped) = Some (sv', out)"
  shows "sessions (cm sv') fd = None"
proof (cases "is_client (cm sv) fd")
  case True
  with assms remove_client_ok(2) [OF assms(1), of fd] show ?thesis by (auto simp: handle_event_def)
next
  case False
  with assms show ?thesis by (cases "sessions (cm sv) fd") (auto simp: handle_event_def is_client_sessions)
qed

subsection \<open>Answers\<close>

lemma respond_free:
  "rdata r \<noteq> Uninit \<Longrightarrow> (\<exists>rep. respond r = Some rep) \<and> free_command_result r = Some ()"
  by (auto simp: respond_def free_command_result_def split: option.splits ResultData.splits)

lemma results_initialised [simp]:
  "rdata (error_result c e d) = d" "rdata (ok_result c d) = d" "rdata (msg_result c m d) = d"
  by (simp_all add: error_result_def ok_result_def msg_result_def)

lemma get_initialised: "execute_get st d = Some r \<Longrightarrow> rdata r \<noteq> Uninit"
  by (auto simp: execute_get_def split: option.splits if_splits bind_splits)

lemma get_all_initialised: "execute_get_all st d = Some r \<Longrightarrow> rdata r \<noteq> Uninit"
  by (auto simp: execute_get_all_def split: option.splits if_splits bind_splits)

lemma search_initialised: "execute_search st d = Some r \<Longrightarrow> rdata r \<noteq> Uninit"
  by (auto simp: execute_search_def Let_def split: option.splits if_splits bind_splits)

lemma readonly_initialised:
  assumes "readonly_op cmd" "execute_command env st cmd = Some (r, st')"
  shows "rdata r \<noteq> Uninit"
  using assms get_initialised get_all_initialised search_initialised
  by (cases cmd)
    (auto simp: readonly_op_def execute_command_def execute_count_def execute_whoami_def split: option.splits)

lemma run_command_readonly_defined:
  assumes "store_safe (store sv)" "readonly_op cmd" "command_meant (store sv) cmd" "command_ok cmd"
  shows "\<exists>rep. run_command env sv fd cmd = Some (sv, rep)"
proof -
  have "releasable cmd" "\<not> transfers cmd"
    using assms(2) unfilled_only_by_add [OF assms(4)] by (auto simp: readonly_op_def transfers_def releasable_def split: Command.splits)
  then obtain n where n: "free_command cmd (transfers cmd) = Some n"
    using free_command_ok [OF assms(4)] by auto
  have "command_meant (store sv) (fill_whoami (cm sv) fd cmd)"
    using assms(2,3) by (cases cmd) (simp_all add: fill_whoami_def command_meant_def)
  from execute_command_safe [OF assms(1) this, of env] obtain r st' where
    r: "execute_command env (store sv) (fill_whoami (cm sv) fd cmd) = Some (r, st')" by blast
  have "rdata r \<noteq> Uninit" "st' = store sv"
    using readonly_initialised [OF _ r] execute_readonly [OF _ r] assms(2) by simp_all
  with r n respond_free [of r] show ?thesis by (auto simp: run_command_def)
qed

text \<open>Whoever is connected and whatever is sent, a store that is safe stays safe if the values are as meant.\<close>

lemma command_meant_fill: "command_meant st (fill_whoami c fd cmd) = command_meant st cmd"
  by (cases cmd) (simp_all add: fill_whoami_def command_meant_def)

lemma run_command_safe:
  assumes "store_safe (store sv)" "command_meant (store sv) cmd" "run_command env sv fd cmd = Some (sv', rep)"
  shows "store_safe (store sv')"
proof -
  from assms(3) obtain r where r: "execute_command env (store sv) (fill_whoami (cm sv) fd cmd) = Some (r, store sv')"
    by (auto simp: run_command_def split: bind_splits)
  with execute_command_safe [OF assms(1), of "fill_whoami (cm sv) fd cmd" env] assms(2) show ?thesis
    by (auto simp: command_meant_fill)
qed

definition event_meant :: "Server \<Rightarrow> Event \<Rightarrow> bool" where
  "event_meant sv ev =
    (case ev of
       Readable fd (Line line) \<Rightarrow> (\<forall>cmd. parse_command line = Some cmd \<longrightarrow> command_meant (store sv) cmd)
     | _ \<Rightarrow> True)"

lemma handle_event_safe:
  assumes st: "store_safe (store sv)" and m: "event_meant sv ev" and h: "handle_event env sv ev = Some (sv', out)"
  shows "store_safe (store sv')"
proof (cases "store sv' = store sv")
  case False
  from handle_event_store [OF h False] obtain fd line cmd where
    e: "ev = Readable fd (Line line)" "parse_command line = Some cmd" by blast
  with m have "command_meant (store sv) cmd" by (simp add: event_meant_def)
  moreover from e h False obtain rep where "handle_command env sv fd cmd = Some (sv', rep)"
    by (auto simp: handle_event_def split: if_splits bind_splits)
  ultimately show ?thesis
    using False run_command_safe [OF st, of cmd env fd sv' rep]
    by (cases rule: handle_command_cases [where cmd = cmd and env = env and sv = sv and fd = fd]) auto
qed (use st in simp)

text \<open>Runs in which every request fits the tables as they are when it arrives.\<close>

inductive meant_run :: "Server \<Rightarrow> (Env \<times> Event) list \<Rightarrow> Server \<Rightarrow> bool" for sv0 where
  start: "meant_run sv0 [] sv0"
| step: "meant_run sv0 evs sv \<Longrightarrow> event_ok sv ev \<Longrightarrow> event_meant sv ev \<Longrightarrow>
     handle_event env sv ev = Some (sv', out) \<Longrightarrow> meant_run sv0 ((env, ev) # evs) sv'"

lemma meant_run_is_run: "meant_run sv0 evs sv \<Longrightarrow> server_run sv0 evs sv"
  by (induction rule: meant_run.induct) (auto intro: server_run.intros)

end
