(* ===== verification/Persistence.thy ===== *)
theory Persistence
  imports Operations Net
begin

text \<open>
  Snapshots: \<open>src/db/persistence.c\<close>. A file that is written is the bytes that have gone out and the
  room left on the device, a file that is read is the bytes still ahead. Machine values are written in
  the byte order of the target, least significant byte first. \<open>crypto_pwhash_STRBYTES\<close>, the size of
  libsodium's hash buffer, is the parameter \<open>strbytes\<close>. The branches for a failed allocation are not
  modelled.
\<close>

subsection \<open>Bytes\<close>

definition SNAPSHOT_MAGIC :: string where "SNAPSHOT_MAGIC = ''PDBSNAP''"
definition SNAPSHOT_MAGIC_SIZE :: nat where "SNAPSHOT_MAGIC_SIZE = 7"
definition SNAPSHOT_VERSION :: "32 word" where "SNAPSHOT_VERSION = 4"
definition NULL_STRING_SENTINEL :: "32 word" where "NULL_STRING_SENTINEL = 0xFFFFFFFF"
definition DEFAULT_SNAPSHOT :: string where "DEFAULT_SNAPSHOT = ''poudb.snapshot''"

definition effective_path :: "string option \<Rightarrow> string" where
  "effective_path snapshotPath =
    (case snapshotPath of
       Some p \<Rightarrow> if p \<noteq> [] then p else DEFAULT_SNAPSHOT
     | None \<Rightarrow> DEFAULT_SNAPSHOT)"

text \<open>The object representation of an unsigned value in \<open>n\<close> bytes, and the value of such bytes.\<close>

fun le_bytes :: "nat \<Rightarrow> nat \<Rightarrow> string" where
  "le_bytes 0 v = []"
| "le_bytes (Suc n) v = char_of v # le_bytes n (v div 256)"

fun le_val :: "string \<Rightarrow> nat" where
  "le_val [] = 0"
| "le_val (c # cs) = of_char c + 256 * le_val cs"

subsection \<open>Writing\<close>

text \<open>A write that does not fit fails; the result is the status of the C function and the file.\<close>

record OutFile =
  written :: string
  space_left :: nat

type_synonym writer = "OutFile \<Rightarrow> (int \<times> OutFile) run"

definition fwrite :: "string \<Rightarrow> writer" where
  "fwrite bs f =
    (if length bs \<le> space_left f then Some (0, f\<lparr>written := written f @ bs, space_left := space_left f - length bs\<rparr>)
     else Some (-1, f))"

definition write_ok :: writer where "write_ok f = Some (0, f)"
definition write_fail :: writer where "write_fail f = Some (-1, f)"

text \<open>\<open>if(w1 != 0) return -1; return w2;\<close>\<close>

definition and_then :: "writer \<Rightarrow> writer \<Rightarrow> writer" where
  "and_then w1 w2 f = do { (rc, f1) \<leftarrow> w1 f; if rc \<noteq> 0 then Some (-1, f1) else w2 f1 }"

definition write_u8 :: "8 word \<Rightarrow> writer" where "write_u8 v = fwrite (le_bytes 1 (unat v))"
definition write_u16 :: "16 word \<Rightarrow> writer" where "write_u16 v = fwrite (le_bytes 2 (unat v))"
definition write_u32 :: "32 word \<Rightarrow> writer" where "write_u32 v = fwrite (le_bytes 4 (unat v))"
definition write_i32 :: "cint \<Rightarrow> writer" where "write_i32 v = fwrite (le_bytes 4 (unat v))"
definition write_i64 :: "ctime \<Rightarrow> writer" where "write_i64 v = fwrite (le_bytes 8 (unat v))"
definition write_f64 :: "cdouble \<Rightarrow> writer" where "write_f64 v = fwrite (le_bytes 8 (unat v))"

definition write_bytes :: "string \<Rightarrow> writer" where
  "write_bytes bs = (if bs = [] then write_ok else fwrite bs)"

definition write_string :: "string option \<Rightarrow> writer" where
  "write_string s =
    (case s of
       None \<Rightarrow> write_u32 NULL_STRING_SENTINEL
     | Some s \<Rightarrow>
         if length s > 0xFFFFFFFF then write_fail
         else and_then (write_u32 (of_nat (length s))) (write_bytes s))"

text \<open>A scalar, in a field or as an element of an array.\<close>

fun write_scalar :: "FieldType \<Rightarrow> UnionVal \<Rightarrow> writer" where
  "write_scalar TYPE_INT u f = do { i \<leftarrow> read_i u; write_i32 i f }"
| "write_scalar TYPE_DOUBLE u f = do { d \<leftarrow> read_d u; write_f64 d f }"
| "write_scalar TYPE_BOOL u f = do { b \<leftarrow> read_b u; write_u8 (if b then 1 else 0) f }"
| "write_scalar TYPE_STRING u f = do { s \<leftarrow> read_s u; write_string s f }"
| "write_scalar _ u f = write_fail f"

fun write_elems_of :: "FieldType \<Rightarrow> Data list \<Rightarrow> writer" where
  "write_elems_of et [] = write_ok"
| "write_elems_of et (e # es) = and_then (write_scalar et (dvalue e)) (write_elems_of et es)"

definition write_value :: "FieldType \<Rightarrow> Data \<Rightarrow> writer" where
  "write_value t v f =
    (if is_array_type t
     then do { a \<leftarrow> read_a (dvalue v);
               and_then (write_u32 (of_nat (length (arr_list a)))) (write_elems_of (array_elem_type t) (arr_list a)) f }
     else write_scalar t (dvalue v) f)"

text \<open>The loop over the fields behind the key; a row with too few values would be read past its end.\<close>

fun write_values :: "Field list \<Rightarrow> Data list \<Rightarrow> writer" where
  "write_values [] vs f = Some (0, f)"
| "write_values (fd # fs) [] f = None"
| "write_values (fd # fs) (v # vs) f = and_then (write_value (fieldType fd) v) (write_values fs vs) f"

definition write_row_values :: "DB \<Rightarrow> Row \<Rightarrow> writer" where
  "write_row_values db row =
    and_then (write_values (drop 1 (dbFields db)) (drop 1 (rvalues row)))
      (and_then (write_i64 (created_at row)) (write_i64 (updated_at row)))"

fun type_code :: "FieldType \<Rightarrow> nat" where
  "type_code TYPE_INT = 0" | "type_code TYPE_DOUBLE = 1" | "type_code TYPE_BOOL = 2" | "type_code TYPE_STRING = 3"
| "type_code TYPE_INT_ARRAY = 4" | "type_code TYPE_DOUBLE_ARRAY = 5" | "type_code TYPE_BOOL_ARRAY = 6"
| "type_code TYPE_STRING_ARRAY = 7"

definition write_name :: "nat \<Rightarrow> string \<Rightarrow> writer" where
  "write_name n s = and_then (write_u16 (of_nat (min (length s) n))) (write_bytes (take n s))"

fun write_fields :: "Field list \<Rightarrow> writer" where
  "write_fields [] = write_ok"
| "write_fields (fd # fs) =
     and_then (write_name MAX_FIELD_NAME_LENGTH (fieldName fd))
       (and_then (write_u8 (of_nat (type_code (fieldType fd)))) (write_fields fs))"

fun write_rows :: "DB \<Rightarrow> Row list \<Rightarrow> writer" where
  "write_rows db [] f = Some (0, f)"
| "write_rows db (r # rs) f =
     do { kd \<leftarrow> at (rvalues r) 0;
          key \<leftarrow> read_i (dvalue kd);
          and_then (write_i32 key) (and_then (write_row_values db r) (write_rows db rs)) f }"

definition write_db_callback :: "DB \<Rightarrow> writer" where
  "write_db_callback db =
    and_then (write_name MAX_DB_NAME_LENGTH (dbName db))
      (and_then (write_u32 (of_nat (length (dbFields db) - 1)))
        (and_then (write_fields (drop 1 (dbFields db)))
          (and_then (write_u32 (word_of_int (rowsCount db))) (write_rows db (db_rows db)))))"

definition count_db_callback :: "DB \<Rightarrow> 32 word \<Rightarrow> (int \<times> 32 word) run" where
  "count_db_callback db n = Some (0, n + 1)"

definition role_code :: "KeyRole \<Rightarrow> 8 word" where
  "role_code r = (case r of ROLE_READONLY \<Rightarrow> 0 | ROLE_ADMIN \<Rightarrow> 1 | ROLE_BYTE b \<Rightarrow> b)"

definition hash_bytes :: "nat \<Rightarrow> string \<Rightarrow> string" where
  "hash_bytes strbytes h = take strbytes (h @ replicate strbytes (CHR 0x00))"

fun write_keys :: "nat \<Rightarrow> AuthKey list \<Rightarrow> writer" where
  "write_keys strbytes [] = write_ok"
| "write_keys strbytes (k # ks) =
     and_then (write_u16 (of_nat (length (keyName k))))
       (and_then (fwrite (take (unat (of_nat (length (keyName k)) :: 16 word)) (keyName k)))
         (and_then (write_u8 (role_code (keyRole k)))
           (and_then (fwrite (hash_bytes strbytes (keyHash k))) (write_keys strbytes ks))))"

text \<open>Everything that goes into the file between opening and flushing it.\<close>

definition write_snapshot :: "nat \<Rightarrow> Store \<Rightarrow> writer" where
  "write_snapshot strbytes st =
    and_then (fwrite SNAPSHOT_MAGIC)
      (and_then (write_u32 SNAPSHOT_VERSION)
        (\<lambda>f. do { (rc, count) \<leftarrow> db_for_each count_db_callback (storage st) 0;
                  if rc \<noteq> 0 then Some (-1, f)
                  else and_then (write_u32 count)
                         (and_then (\<lambda>f. db_for_each write_db_callback (storage st) f)
                           (and_then (write_u32 (of_nat (length (keys (g_auth_store st)))))
                             (write_keys strbytes (keys (g_auth_store st))))) f }))"

text \<open>
  The file system: the contents of the files by path. How the calls end is given: opening, the room on the
  device, flushing, closing, renaming and removing; \<open>reached\<close> is the number of bytes that are in the file
  after a flush or a close has failed. What a failed flush could not write out is lost, and a close that
  fails may have lost what was written before.
\<close>

type_synonym files = "string \<Rightarrow> string option"

record Disk =
  open_ok :: bool
  disk_room :: nat
  flush_ok :: bool
  close_ok :: bool
  rename_ok :: bool
  remove_ok :: bool
  reached :: nat

text \<open>Opening for writing makes an empty file; the buffer of the stream goes out at the flush or the close.\<close>

definition sys_fopen :: "Disk \<Rightarrow> string \<Rightarrow> files \<Rightarrow> bool \<times> files" where
  "sys_fopen disk p fs = (if open_ok disk then (True, fs(p \<mapsto> [])) else (False, fs))"

definition append_file :: "string \<Rightarrow> string \<Rightarrow> files \<Rightarrow> files" where
  "append_file p bs fs = fs(p := map_option (\<lambda>c. c @ bs) (fs p))"

definition sys_fflush :: "Disk \<Rightarrow> string \<Rightarrow> string \<Rightarrow> files \<Rightarrow> bool \<times> files" where
  "sys_fflush disk p buffer fs =
    (if flush_ok disk then (True, append_file p buffer fs) else (False, append_file p (take (reached disk) buffer) fs))"

definition sys_fclose :: "Disk \<Rightarrow> string \<Rightarrow> string \<Rightarrow> files \<Rightarrow> bool \<times> files" where
  "sys_fclose disk p buffer fs =
    (let fs' = append_file p buffer fs
     in if close_ok disk then (True, fs') else (False, fs'(p := map_option (take (reached disk)) (fs' p))))"

definition sys_rename :: "Disk \<Rightarrow> string \<Rightarrow> string \<Rightarrow> files \<Rightarrow> bool \<times> files" where
  "sys_rename disk p q fs = (if rename_ok disk then (True, fs(q := fs p, p := None)) else (False, fs))"

definition sys_remove :: "Disk \<Rightarrow> string \<Rightarrow> files \<Rightarrow> files" where
  "sys_remove disk p fs = (if remove_ok disk then fs(p := None) else fs)"

definition tmp_path :: "string \<Rightarrow> string" where
  "tmp_path path = path @ ''.tmp''"

text \<open>After the flush, successful or not, the buffer is empty; before it, it holds all that was written.\<close>

definition persistence_save_all :: "nat \<Rightarrow> Disk \<Rightarrow> string option \<Rightarrow> Store \<Rightarrow> files \<Rightarrow> (int \<times> files) run" where
  "persistence_save_all strbytes disk snapshotPath st fs =
    (let path = effective_path snapshotPath; tmp = tmp_path path in
     if length tmp \<ge> 512 then Some (-1, fs)
     else case sys_fopen disk tmp fs of (opened, fs1) \<Rightarrow>
       if \<not> opened then Some (-1, fs1)
       else do {
         (rc, f) \<leftarrow> write_snapshot strbytes st \<lparr>written = [], space_left = disk_room disk\<rparr>;
         if rc \<noteq> 0 then Some (-1, sys_remove disk tmp (snd (sys_fclose disk tmp (written f) fs1)))
         else case sys_fflush disk tmp (written f) fs1 of (flushed, fs2) \<Rightarrow>
           if \<not> flushed then Some (-1, sys_remove disk tmp (snd (sys_fclose disk tmp [] fs2)))
           else case sys_fclose disk tmp [] fs2 of (closed, fs3) \<Rightarrow>
             if \<not> closed then Some (-1, sys_remove disk tmp fs3)
             else case sys_rename disk tmp path fs3 of (renamed, fs4) \<Rightarrow>
               if \<not> renamed then Some (-1, sys_remove disk tmp fs4)
               else Some (0, fs4) })"

subsection \<open>Reading\<close>

type_synonym 'a reader = "string \<Rightarrow> ('a \<times> string) option"

definition fread :: "nat \<Rightarrow> string reader" where
  "fread n s = (if n \<le> length s then Some (take n s, drop n s) else None)"

definition read_u8 :: "8 word reader" where
  "read_u8 s = do { (bs, r) \<leftarrow> fread 1 s; Some (of_nat (le_val bs), r) }"
definition read_u16 :: "16 word reader" where
  "read_u16 s = do { (bs, r) \<leftarrow> fread 2 s; Some (of_nat (le_val bs), r) }"
definition read_u32 :: "32 word reader" where
  "read_u32 s = do { (bs, r) \<leftarrow> fread 4 s; Some (of_nat (le_val bs), r) }"
definition read_i32 :: "cint reader" where
  "read_i32 s = do { (bs, r) \<leftarrow> fread 4 s; Some (of_nat (le_val bs), r) }"
definition read_i64 :: "ctime reader" where
  "read_i64 s = do { (bs, r) \<leftarrow> fread 8 s; Some (of_nat (le_val bs), r) }"
definition read_f64 :: "cdouble reader" where
  "read_f64 s = do { (bs, r) \<leftarrow> fread 8 s; Some (of_nat (le_val bs), r) }"

text \<open>The result \<open>(char * )-1\<close> for a stored \<open>NULL\<close> is \<open>None\<close> here; a string ends at its first NUL.\<close>

definition read_string :: "string option reader" where
  "read_string s =
    do { (len, r) \<leftarrow> read_u32 s;
         if len = NULL_STRING_SENTINEL then Some (None, r)
         else do { (bs, r') \<leftarrow> fread (unat len) r; Some (Some (c_string bs), r') } }"

definition string_data :: "string option \<Rightarrow> Data" where
  "string_data s = (case s of None \<Rightarrow> Data 0 (U_s None) | Some s \<Rightarrow> Data (wrap32 (int (length s))) (U_s (Some s)))"

text \<open>A scalar field gets the size of its C type as its size, an element of an array its type tag.\<close>

fun read_scalar :: "bool \<Rightarrow> FieldType \<Rightarrow> Data reader" where
  "read_scalar elem TYPE_INT s = do { (v, r) \<leftarrow> read_i32 s; Some (Data (if elem then -2 else 4) (U_i v), r) }"
| "read_scalar elem TYPE_DOUBLE s = do { (v, r) \<leftarrow> read_f64 s; Some (Data (if elem then -1 else 8) (U_d v), r) }"
| "read_scalar elem TYPE_BOOL s = do { (v, r) \<leftarrow> read_u8 s; Some (Data (if elem then -3 else 1) (U_b (v \<noteq> 0)), r) }"
| "read_scalar elem TYPE_STRING s = do { (v, r) \<leftarrow> read_string s; Some (string_data v, r) }"
| "read_scalar elem _ s = None"

fun read_elems :: "FieldType \<Rightarrow> nat \<Rightarrow> Data list reader" where
  "read_elems et 0 s = Some ([], s)"
| "read_elems et (Suc n) s =
     do { (e, r) \<leftarrow> read_scalar True et s; (es, r') \<leftarrow> read_elems et n r; Some (e # es, r') }"

definition size_tag :: "FieldType \<Rightarrow> int" where
  "size_tag t = (if t = TYPE_INT_ARRAY then -4 else if t = TYPE_DOUBLE_ARRAY then -5
                 else if t = TYPE_BOOL_ARRAY then -6 else -7)"

definition read_value :: "FieldType \<Rightarrow> Data reader" where
  "read_value t s =
    (if is_array_type t
     then do { (count, r) \<leftarrow> read_u32 s;
               if unat count > MAX_ARRAY_LENGTH then None
               else do { (es, r') \<leftarrow> read_elems (array_elem_type t) (unat count) r;
                         Some (Data (size_tag t) (U_a (Some (Elements es))), r') } }
     else read_scalar False t s)"

fun read_row_values :: "Field list \<Rightarrow> Data list reader" where
  "read_row_values [] s = Some ([], s)"
| "read_row_values (fd # fs) s =
     do { (v, r) \<leftarrow> read_value (fieldType fd) s; (vs, r') \<leftarrow> read_row_values fs r; Some (v # vs, r') }"

definition code_type :: "nat \<Rightarrow> FieldType" where
  "code_type n = [TYPE_INT, TYPE_DOUBLE, TYPE_BOOL, TYPE_STRING,
     TYPE_INT_ARRAY, TYPE_DOUBLE_ARRAY, TYPE_BOOL_ARRAY, TYPE_STRING_ARRAY] ! n"

definition read_name :: "nat \<Rightarrow> string reader" where
  "read_name n s =
    do { (len, r) \<leftarrow> read_u16 s;
         if unat len \<ge> n then None
         else do { (bs, r') \<leftarrow> fread (unat len) r; Some (c_string bs, r') } }"

fun read_field_definitions :: "nat \<Rightarrow> Field list reader" where
  "read_field_definitions 0 s = Some ([], s)"
| "read_field_definitions (Suc n) s =
     do { (name, r) \<leftarrow> read_name MAX_FIELD_NAME_LENGTH s;
          (t, r') \<leftarrow> read_u8 r;
          if unat t > 7 then None
          else do { (fs, r'') \<leftarrow> read_field_definitions n r';
                    Some (\<lparr>fieldName = name, fieldType = code_type (unat t)\<rparr> # fs, r'') } }"

text \<open>
  Restoring rows and tables. The outer option is that of undefined behaviour, as everywhere; the result
  is the table (or the list of tables) and, unless reading has failed, the rest of the file.
\<close>

text \<open>Releasing values that no row has taken over; it reads the same union members as the release of a row.\<close>

definition free_pending_values :: "Data list \<Rightarrow> Field list \<Rightarrow> nat \<Rightarrow> unit run" where
  "free_pending_values vs fs readCount = free_values fs (take readCount vs)"

definition load_row :: "ctime \<Rightarrow> DB \<Rightarrow> string \<Rightarrow> (DB \<times> string option) run" where
  "load_row now db s =
    (case do { (key, r) \<leftarrow> read_i32 s; (vs, r') \<leftarrow> read_row_values (drop 1 (dbFields db)) r; Some (key, vs, r') } of
       None \<Rightarrow> Some (db, None)
     | Some (key, vs, r) \<Rightarrow>
         do { (rc, db1) \<leftarrow> db_add_row now db key vs;
              if rc \<noteq> 0 then do { u \<leftarrow> free_pending_values vs (drop 1 (dbFields db)) (length vs); Some (db1, None) }
              else case do { (c, r') \<leftarrow> read_i64 r; (u, r'') \<leftarrow> read_i64 r'; Some (c, u, r'') } of
                     None \<Rightarrow> Some (db1, None)
                   | Some (c, u, r') \<Rightarrow> Some (snd (db_set_row_timestamps db1 key c u), Some r') })"

fun load_rows :: "ctime \<Rightarrow> nat \<Rightarrow> DB \<Rightarrow> string \<Rightarrow> (DB \<times> string option) run" where
  "load_rows now 0 db s = Some (db, Some s)"
| "load_rows now (Suc n) db s =
     do { (db1, r) \<leftarrow> load_row now db s;
          (case r of None \<Rightarrow> Some (db1, None) | Some r \<Rightarrow> load_rows now n db1 r) }"

definition load_schema :: "(string \<times> 32 word \<times> Field list) reader" where
  "load_schema s =
    do { (name, r) \<leftarrow> read_name MAX_DB_NAME_LENGTH s;
         (n, r') \<leftarrow> read_u32 r;
         if n = 0 then None
         else do { (fs, r'') \<leftarrow> read_field_definitions (unat n) r'; Some ((name, n, fs), r'') } }"

text \<open>
  The number of fields reaches \<open>db_create\<close> as an \<open>int\<close>: a number that becomes negative is refused
  there; with the largest \<open>int\<close> the total with the key field wraps to a size that \<open>malloc\<close> refuses.
\<close>

definition create_loaded :: "string \<Rightarrow> 32 word \<Rightarrow> Field list \<Rightarrow> DB option" where
  "create_loaded name n fs = (if sint n \<le> 0 \<or> n = 0x7FFFFFFF then None else db_create name fs)"

definition load_db :: "ctime \<Rightarrow> DB list \<Rightarrow> string \<Rightarrow> (DB list \<times> string option) run" where
  "load_db now dbs s =
    (case load_schema s of
       None \<Rightarrow> Some (dbs, None)
     | Some ((name, n, fs), r) \<Rightarrow>
         (case create_loaded name n fs of
            None \<Rightarrow> Some (dbs, None)
          | Some db \<Rightarrow>
              (case add_db dbs db of (rc, dbs') \<Rightarrow>
                 if rc \<noteq> 0 then do { u \<leftarrow> db_free db; Some (dbs, None) }
                 else case read_u32 r of
                        None \<Rightarrow> Some (dbs', None)
                      | Some (m, r') \<Rightarrow>
                          do { (db', r'') \<leftarrow> load_rows now (unat m) db r'; Some (put_db dbs' (dbName db) db', r'') })))"

fun load_dbs :: "ctime \<Rightarrow> nat \<Rightarrow> DB list \<Rightarrow> string \<Rightarrow> (DB list \<times> string option) run" where
  "load_dbs now 0 dbs s = Some (dbs, Some s)"
| "load_dbs now (Suc n) dbs s =
     do { (dbs1, r) \<leftarrow> load_db now dbs s;
          (case r of None \<Rightarrow> Some (dbs1, None) | Some r \<Rightarrow> load_dbs now n dbs1 r) }"

text \<open>\<open>k.role = (KeyRole)role_b\<close>: the byte is stored as it was read.\<close>

definition role_of_byte :: "8 word \<Rightarrow> KeyRole" where
  "role_of_byte b = (if b = 0 then ROLE_READONLY else if b = 1 then ROLE_ADMIN else ROLE_BYTE b)"

definition read_key :: "nat \<Rightarrow> AuthKey reader" where
  "read_key strbytes s =
    do { (len, r) \<leftarrow> read_u16 s;
         if len = 0 \<or> unat len \<ge> AUTH_KEY_NAME_MAX then None
         else do { (name, r1) \<leftarrow> fread (unat len) r;
                   (role, r2) \<leftarrow> read_u8 r1;
                   (h, r3) \<leftarrow> fread strbytes r2;
                   Some (\<lparr>keyName = c_string name, keyHash = h, keyRole = role_of_byte role\<rparr>, r3) } }"

text \<open>The keys read before a failure stay in the store.\<close>

fun load_keys :: "nat \<Rightarrow> nat \<Rightarrow> AuthKey list \<Rightarrow> string \<Rightarrow> AuthKey list \<times> string option" where
  "load_keys strbytes 0 ks s = (ks, Some s)"
| "load_keys strbytes (Suc n) ks s =
     (case read_key strbytes s of
        None \<Rightarrow> (ks, None)
      | Some (k, r) \<Rightarrow> load_keys strbytes n (ks @ [k]) r)"

definition drop_tables :: "Store \<Rightarrow> (int \<times> Store) run" where
  "drop_tables st = do { dbs \<leftarrow> free_db_storage (storage st); Some (-1, st\<lparr>storage := dbs\<rparr>) }"

definition load_auth :: "nat \<Rightarrow> Store \<Rightarrow> string \<Rightarrow> (int \<times> Store) run" where
  "load_auth strbytes st s =
    (let st0 = st\<lparr>g_auth_store := auth_store_init\<rparr> in
     case read_u32 s of
       None \<Rightarrow> drop_tables st0
     | Some (n, r) \<Rightarrow>
         if unat n > AUTH_MAX_KEYS then drop_tables st0
         else case load_keys strbytes (unat n) [] r of (ks, rest) \<Rightarrow>
                let st1 = st0\<lparr>g_auth_store := \<lparr>keys = ks\<rparr>\<rparr> in
                case rest of None \<Rightarrow> drop_tables st1 | Some _ \<Rightarrow> Some (0, st1))"

definition load_snapshot :: "nat \<Rightarrow> ctime \<Rightarrow> Store \<Rightarrow> string \<Rightarrow> (int \<times> Store) run" where
  "load_snapshot strbytes now st s =
    (case do { (magic, r) \<leftarrow> fread SNAPSHOT_MAGIC_SIZE s; if magic \<noteq> SNAPSHOT_MAGIC then None else read_u32 r } of
       None \<Rightarrow> Some (-1, st)
     | Some (version, r) \<Rightarrow>
         if version \<noteq> SNAPSHOT_VERSION then Some (0, st)
         else case read_u32 r of
                None \<Rightarrow> Some (-1, st)
              | Some (n, r') \<Rightarrow>
                  do { (dbs, rest) \<leftarrow> load_dbs now (unat n) (storage st) r';
                       let st1 = st\<lparr>storage := dbs\<rparr>;
                       (case rest of None \<Rightarrow> drop_tables st1 | Some r'' \<Rightarrow> load_auth strbytes st1 r'') })"

text \<open>A missing file is no error; \<open>readable\<close> says whether an existing file can be opened.\<close>

definition persistence_load_all ::
  "nat \<Rightarrow> ctime \<Rightarrow> bool \<Rightarrow> string option \<Rightarrow> files \<Rightarrow> Store \<Rightarrow> (int \<times> Store) run" where
  "persistence_load_all strbytes now readable snapshotPath fs st =
    (case fs (effective_path snapshotPath) of
       None \<Rightarrow> Some (0, st)
     | Some s \<Rightarrow> if readable then load_snapshot strbytes now st s else Some (-1, st))"

end
