(* ===== verification/Snapshot_Codec.thy ===== *)
theory Snapshot_Codec
  imports Persistence
begin

text \<open>
  Reading back what was written. A writer \<^emph>\<open>answers\<close> when it returns a status, and \<^emph>\<open>writes\<close> certain
  bytes when it appends exactly these or, if they do not fit, fails; a reader \<^emph>\<open>decodes\<close> bytes to a value
  whatever follows them. The locales \<open>codec\<close> and \<open>loader\<close> carry the round trip of one item over to a
  sequence of items; they are interpreted for the elements of an array and the fields of a schema here,
  and for rows, tables and keys in theory Persistence_Facts.
\<close>

subsection \<open>Writers\<close>

named_theorems codec "the bytes a writer writes and a reader reads"

definition answers :: "writer \<Rightarrow> bool" where
  "answers w \<longleftrightarrow> (\<forall>f. \<exists>rc f'. w f = Some (rc, f'))"

definition writes :: "writer \<Rightarrow> string \<Rightarrow> bool" where
  "writes w bs \<longleftrightarrow> (\<forall>f.
     if length bs \<le> space_left f
     then w f = Some (0, f\<lparr>written := written f @ bs, space_left := space_left f - length bs\<rparr>)
     else (\<exists>f'. w f = Some (-1, f')))"

lemma writes_answers: "writes w bs \<Longrightarrow> answers w"
  by (auto simp: writes_def answers_def) (metis prod.exhaust)

lemma writes_code: "writes w bs \<Longrightarrow> w f = Some (rc, f') \<Longrightarrow> rc = 0 \<or> rc = -1"
  unfolding writes_def by (drule spec [of _ f]) (auto split: if_splits)

lemma writes_fwrite [codec]: "writes (fwrite bs) bs"
  by (simp add: writes_def fwrite_def)

lemma writes_ok [codec]: "writes write_ok []"
  by (simp add: writes_def write_ok_def)

lemma writes_then [codec]: "writes w bs \<Longrightarrow> writes w' cs \<Longrightarrow> writes (and_then w w') (bs @ cs)"
  unfolding writes_def and_then_def
  by (rule allI, drule_tac x = f in spec, drule_tac x = "f\<lparr>written := written f @ bs, space_left := space_left f - length bs\<rparr>" in spec)
    (auto split: if_splits)

lemma answers_then [intro!]: "answers w \<Longrightarrow> answers w' \<Longrightarrow> answers (and_then w w')"
proof -
  assume w: "answers w" "answers w'"
  have "\<exists>rc f'. and_then w w' f = Some (rc, f')" for f
  proof -
    obtain rc g where "w f = Some (rc, g)" using w(1) unfolding answers_def by blast
    moreover obtain rc' h where "w' g = Some (rc', h)" using w(2) unfolding answers_def by blast
    ultimately show ?thesis by (simp add: and_then_def)
  qed
  then show ?thesis by (simp add: answers_def)
qed

lemma writes_bytes [codec]: "writes (write_bytes bs) bs"
  by (simp add: write_bytes_def writes_ok writes_fwrite)

subsection \<open>Machine values\<close>

lemma length_le_bytes [simp]: "length (le_bytes n v) = n"
  by (induction n arbitrary: v) auto

lemma le_val_bytes: "le_val (le_bytes n v) = v mod 256 ^ n"
proof (induction n arbitrary: v)
  case (Suc n)
  then show ?case by (simp add: of_char_of mod_mult2_eq)
qed simp

definition decodes :: "'a reader \<Rightarrow> string \<Rightarrow> 'a \<Rightarrow> bool" where
  "decodes rd bs x \<longleftrightarrow> (\<forall>rest. rd (bs @ rest) = Some (x, rest))"

lemma decodes_fread [codec]: "n = length bs \<Longrightarrow> decodes (fread n) bs bs"
  by (simp add: decodes_def fread_def)

lemma decodes_bind [codec]:
  "decodes rd bs x \<Longrightarrow> decodes (rd' x) cs y \<Longrightarrow> decodes (\<lambda>s. do { (x, r) \<leftarrow> rd s; rd' x r }) (bs @ cs) y"
  by (simp add: decodes_def)

lemma word_bytes:
  fixes v :: "'a::len word"
  assumes "LENGTH('a) = 8 * n"
  shows "of_nat (le_val (le_bytes n (unat v))) = v"
proof -
  have "unat v < 256 ^ n"
    using unsigned_less [of v] by (simp add: assms power_mult)
  then show ?thesis by (simp add: le_val_bytes)
qed

lemma decodes_u8: "decodes read_u8 (le_bytes 1 (unat v)) v"
  and decodes_u16: "decodes read_u16 (le_bytes 2 (unat w)) w"
  and decodes_u32: "decodes read_u32 (le_bytes 4 (unat x)) x"
  and decodes_i32: "decodes read_i32 (le_bytes 4 (unat i)) i"
  and decodes_i64: "decodes read_i64 (le_bytes 8 (unat t)) t"
  and decodes_f64: "decodes read_f64 (le_bytes 8 (unat d)) d"
  by (simp_all add: decodes_def read_u8_def read_u16_def read_u32_def read_i32_def read_i64_def read_f64_def
      fread_def word_bytes del: le_bytes.simps One_nat_def)

text \<open>What \<open>w\<close> writes, \<open>rd\<close> reads back as a value that satisfies \<open>P\<close>.\<close>

definition stored :: "writer \<Rightarrow> 'a reader \<Rightarrow> ('a \<Rightarrow> bool) \<Rightarrow> bool" where
  "stored w rd P \<longleftrightarrow> (\<exists>bs x. writes w bs \<and> decodes rd bs x \<and> P x)"

lemma stored_ok: "P x \<Longrightarrow> stored write_ok (\<lambda>s. Some (x, s)) P"
  unfolding stored_def by (rule exI [of _ "[]"]) (auto simp: writes_ok decodes_def)

lemma stored_fwrite: "n = length bs \<Longrightarrow> P bs \<Longrightarrow> stored (fwrite bs) (fread n) P"
  unfolding stored_def by (blast intro: writes_fwrite decodes_fread)

lemma stored_bytes: "n = length bs \<Longrightarrow> P bs \<Longrightarrow> stored (write_bytes bs) (fread n) P"
  unfolding stored_def by (blast intro: writes_bytes decodes_fread)

lemma stored_bind:
  assumes "stored w rd P" "\<And>x. P x \<Longrightarrow> stored w' (rd' x) Q"
  shows "stored (and_then w w') (\<lambda>s. do { (x, r) \<leftarrow> rd s; rd' x r }) Q"
  using assms unfolding stored_def by (blast intro: writes_then decodes_bind)

lemma stored_map:
  assumes "stored w rd (\<lambda>x. Q (g x))"
  shows "stored w (\<lambda>s. do { (x, r) \<leftarrow> rd s; Some (g x, r) }) Q"
  using assms unfolding stored_def decodes_def by fastforce

lemma stored_mono: "stored w rd P \<Longrightarrow> (\<And>x. P x \<Longrightarrow> Q x) \<Longrightarrow> stored w rd Q"
  by (auto simp: stored_def)

lemma stored_u8: "stored (write_u8 v) read_u8 (\<lambda>x. x = v)"
  and stored_u16: "stored (write_u16 w) read_u16 (\<lambda>x. x = w)"
  and stored_u32: "stored (write_u32 y) read_u32 (\<lambda>x. x = y)"
  and stored_i32: "stored (write_i32 i) read_i32 (\<lambda>x. x = i)"
  and stored_i64: "stored (write_i64 t) read_i64 (\<lambda>x. x = t)"
  and stored_f64: "stored (write_f64 d) read_f64 (\<lambda>x. x = d)"
  unfolding stored_def write_u8_def write_u16_def write_u32_def write_i32_def write_i64_def write_f64_def
  by (blast intro: writes_fwrite decodes_u8 decodes_u16 decodes_u32 decodes_i32 decodes_i64 decodes_f64)+

subsection \<open>Strings and scalars\<close>

definition nul_free :: "string \<Rightarrow> bool" where
  "nul_free s \<longleftrightarrow> CHR 0x00 \<notin> set s"

lemma c_string_nul_free [simp]: "nul_free s \<Longrightarrow> c_string s = s"
  by (auto simp: nul_free_def c_string_def takeWhile_eq_all_conv)

definition string_fits :: "string option \<Rightarrow> bool" where
  "string_fits s = (case s of None \<Rightarrow> True | Some s \<Rightarrow> nul_free s \<and> length s < 0xFFFFFFFF)"

lemma stored_string: "string_fits s \<Longrightarrow> stored (write_string s) read_string (\<lambda>x. x = s)"
proof (cases s)
  case None
  have "decodes read_string (le_bytes 4 (unat NULL_STRING_SENTINEL)) None"
    using decodes_u32 [of NULL_STRING_SENTINEL] by (simp add: decodes_def read_string_def)
  then show ?thesis
    unfolding None write_string_def option.case stored_def write_u32_def by (blast intro: writes_fwrite)
next
  case (Some t)
  assume "string_fits s"
  with Some have t: "nul_free t" "length t < 0xFFFFFFFF" by (simp_all add: string_fits_def)
  then have n: "unat (of_nat (length t) :: 32 word) = length t"
    by (simp add: unsigned_of_nat take_bit_nat_eq_self)
  then have "(of_nat (length t) :: 32 word) \<noteq> NULL_STRING_SENTINEL"
    using t(2) by (auto simp: NULL_STRING_SENTINEL_def)
  note n = n this
  have "stored (and_then (write_u32 (of_nat (length t))) (write_bytes t)) read_string (\<lambda>x. x = Some t)"
    unfolding read_string_def [abs_def]
    by (rule stored_bind [OF stored_u32]) (use t n in \<open>auto intro!: stored_map stored_bytes\<close>)
  with t Some show ?thesis by (simp add: write_string_def)
qed

definition scalar_fits :: "FieldType \<Rightarrow> Data \<Rightarrow> bool" where
  "scalar_fits t v \<longleftrightarrow> scalar_ok t v \<and> (t = TYPE_STRING \<longrightarrow> string_fits (the (read_s (dvalue v))))"

definition same_scalar :: "FieldType \<Rightarrow> Data \<Rightarrow> Data \<Rightarrow> bool" where
  "same_scalar t v v' \<longleftrightarrow> scalar_ok t v' \<and> abs_scalar t v' = abs_scalar t v"

lemma stored_scalar:
  assumes "scalar_fits t v"
  shows "stored (write_scalar t (dvalue v)) (read_scalar e t) (same_scalar t v)"
proof (cases t)
  case TYPE_INT
  with assms obtain i where "read_i (dvalue v) = Some i" by (auto simp: scalar_fits_def scalar_ok_def)
  with TYPE_INT have "write_scalar t (dvalue v) = write_i32 i" "same_scalar t v (Data n (U_i i))" for n
    by (auto simp: same_scalar_def scalar_ok_def abs_scalar_def)
  moreover have "read_scalar e t = (\<lambda>s. do { (v, r) \<leftarrow> read_i32 s; Some (Data (if e then -2 else 4) (U_i v), r) })"
    using TYPE_INT by auto
  ultimately show ?thesis by (auto intro!: stored_map intro: stored_mono [OF stored_i32])
next
  case TYPE_DOUBLE
  with assms obtain i where "read_d (dvalue v) = Some i" by (auto simp: scalar_fits_def scalar_ok_def)
  with TYPE_DOUBLE have "write_scalar t (dvalue v) = write_f64 i" "same_scalar t v (Data n (U_d i))" for n
    by (auto simp: same_scalar_def scalar_ok_def abs_scalar_def)
  moreover have "read_scalar e t = (\<lambda>s. do { (v, r) \<leftarrow> read_f64 s; Some (Data (if e then -1 else 8) (U_d v), r) })"
    using TYPE_DOUBLE by auto
  ultimately show ?thesis by (auto intro!: stored_map intro: stored_mono [OF stored_f64])
next
  case TYPE_BOOL
  with assms obtain b where "read_b (dvalue v) = Some b" by (auto simp: scalar_fits_def scalar_ok_def)
  with TYPE_BOOL have "write_scalar t (dvalue v) = write_u8 (if b then 1 else 0)" "same_scalar t v (Data n (U_b b))" for n
    by (auto simp: same_scalar_def scalar_ok_def abs_scalar_def)
  moreover have "read_scalar e t = (\<lambda>s. do { (v, r) \<leftarrow> read_u8 s; Some (Data (if e then -3 else 1) (U_b (v \<noteq> 0)), r) })"
    using TYPE_BOOL by auto
  ultimately show ?thesis by (auto intro!: stored_map intro: stored_mono [OF stored_u8])
next
  case TYPE_STRING
  with assms obtain u where "read_s (dvalue v) = Some u" "string_fits u" by (auto simp: scalar_fits_def scalar_ok_def)
  with TYPE_STRING have "write_scalar t (dvalue v) = write_string u" "same_scalar t v (string_data u)" "string_fits u"
    by (auto simp: same_scalar_def scalar_ok_def abs_scalar_def string_data_def split: option.splits)
  moreover have "read_scalar e t = (\<lambda>s. do { (v, r) \<leftarrow> read_string s; Some (string_data v, r) })"
    using TYPE_STRING by auto
  ultimately show ?thesis by (auto intro!: stored_map intro: stored_mono [OF stored_string])
qed (use assms in \<open>auto simp: scalar_fits_def scalar_ok_def\<close>)

subsection \<open>Sequences of items\<close>

text \<open>Items written one after the other are read one after the other.\<close>

locale codec =
  fixes put :: "'a \<Rightarrow> writer" and get :: "'b reader"
    and put_all :: "'a list \<Rightarrow> writer" and get_all :: "nat \<Rightarrow> 'b list reader"
    and good :: "'a \<Rightarrow> bool" and same :: "'a \<Rightarrow> 'b \<Rightarrow> bool"
  assumes item: "good a \<Longrightarrow> stored (put a) get (same a)"
    and put_Nil: "put_all [] = write_ok"
    and put_Cons: "put_all (a # as) = and_then (put a) (put_all as)"
    and get_0: "get_all 0 = (\<lambda>s. Some ([], s))"
    and get_Suc: "get_all (Suc n) = (\<lambda>s. do { (b, r) \<leftarrow> get s; (bs, r') \<leftarrow> get_all n r; Some (b # bs, r') })"
begin

lemma items: "list_all good as \<Longrightarrow> stored (put_all as) (get_all (length as)) (list_all2 same as)"
proof (induction as)
  case Nil
  show ?case by (simp add: put_Nil get_0 stored_ok)
next
  case (Cons a as)
  then show ?case
    by (auto simp: put_Cons get_Suc intro!: stored_bind [OF item] stored_map intro: stored_mono)
qed

end

interpretation elems: codec "\<lambda>d. write_scalar et (dvalue d)" "read_scalar True et" "write_elems_of et" "read_elems et"
  "scalar_fits et" "same_scalar et" for et
  by unfold_locales (auto simp: stored_scalar)

subsection \<open>Values, rows and schemas\<close>

definition value_fits :: "FieldType \<Rightarrow> Data \<Rightarrow> bool" where
  "value_fits t v \<longleftrightarrow> data_ok t v \<and>
    (if is_array_type t then list_all (scalar_fits (array_elem_type t)) (arr_list (the (read_a (dvalue v))))
     else scalar_fits t v)"

definition same_value :: "FieldType \<Rightarrow> Data \<Rightarrow> Data \<Rightarrow> bool" where
  "same_value t v v' \<longleftrightarrow> data_ok t v' \<and> abs_val t v' = abs_val t v"

lemma same_array:
  assumes "is_array_type t" "list_all2 (same_scalar (array_elem_type t)) es es'" "length es \<le> MAX_ARRAY_LENGTH"
    "arr_list (the (read_a (dvalue v))) = es"
  shows "same_value t v (Data n (U_a (Some (Elements es'))))"
proof -
  have "list_all (scalar_ok (array_elem_type t)) es'"
    using assms(2) by (auto simp: list_all2_conv_all_nth list_all_length same_scalar_def)
  moreover have "map (abs_scalar (array_elem_type t)) es' = map (abs_scalar (array_elem_type t)) es"
    using assms(2) by (auto simp: list_all2_conv_all_nth same_scalar_def intro: nth_equalityI)
  ultimately show ?thesis
    using assms list_all2_lengthD [OF assms(2)]
    by (simp add: same_value_def data_ok_def array_ok_def abs_val_def arr_list_def)
qed

lemma stored_array:
  assumes t: "is_array_type t" and v: "value_fits t v"
  shows "stored (write_value t v) (read_value t) (same_value t v)"
proof -
  obtain a where a: "read_a (dvalue v) = Some a" and n: "length (arr_list a) \<le> MAX_ARRAY_LENGTH"
    using t v by (auto simp: value_fits_def data_ok_def array_ok_def arr_list_def split: option.splits ArrayData.splits)
  have es: "list_all (scalar_fits (array_elem_type t)) (arr_list a)"
    using t v a by (simp add: value_fits_def)
  have len: "unat (of_nat (length (arr_list a)) :: 32 word) = length (arr_list a)"
    using n by (simp add: unsigned_of_nat take_bit_nat_eq_self MAX_ARRAY_LENGTH_def)
  have w: "write_value t v = and_then (write_u32 (of_nat (length (arr_list a)))) (write_elems_of (array_elem_type t) (arr_list a))"
    using t a by (simp add: write_value_def fun_eq_iff)
  have rd: "read_value t = (\<lambda>s. do { (count, r) \<leftarrow> read_u32 s;
      if unat count > MAX_ARRAY_LENGTH then None
      else do { (es, r') \<leftarrow> read_elems (array_elem_type t) (unat count) r;
                Some (Data (size_tag t) (U_a (Some (Elements es))), r') } })"
    using t by (simp add: read_value_def fun_eq_iff)
  show ?thesis
    unfolding w rd
    by (rule stored_bind [OF stored_u32])
      (use t a n len in \<open>auto intro!: stored_map stored_mono [OF elems.items [OF es]] same_array\<close>)
qed

lemma stored_value: "value_fits t v \<Longrightarrow> stored (write_value t v) (read_value t) (same_value t v)"
proof (cases "is_array_type t")
  case False
  assume v: "value_fits t v"
  have "write_value t v = write_scalar t (dvalue v)" "read_value t = read_scalar False t"
    using False by (simp_all add: write_value_def read_value_def fun_eq_iff)
  with False v show ?thesis
    by (auto simp: value_fits_def same_value_def same_scalar_def data_ok_def abs_val_def
        intro: stored_mono [OF stored_scalar])
qed (rule stored_array)

definition row_fits :: "Field list \<Rightarrow> Data list \<Rightarrow> bool" where
  "row_fits fs vs \<longleftrightarrow> list_all2 (\<lambda>f v. value_fits (fieldType f) v) fs vs"

definition same_values :: "Field list \<Rightarrow> Data list \<Rightarrow> Data list \<Rightarrow> bool" where
  "same_values fs vs vs' \<longleftrightarrow> row_ok fs vs' \<and> abs_vals fs vs' = abs_vals fs vs"

lemma stored_values: "row_fits fs vs \<Longrightarrow> stored (write_values fs vs) (read_row_values fs) (same_values fs vs)"
  unfolding row_fits_def
proof (induction rule: list_all2_induct)
  case Nil
  have "write_values [] [] = write_ok" "read_row_values [] = (\<lambda>s. Some ([], s))"
    by (auto simp: write_ok_def)
  then show ?case by (simp add: stored_ok same_values_def row_ok_def)
next
  case (Cons f fs v vs)
  have "write_values (f # fs) (v # vs) = and_then (write_value (fieldType f) v) (write_values fs vs)"
    "read_row_values (f # fs) = (\<lambda>s. do { (v, r) \<leftarrow> read_value (fieldType f) s; (vs, r') \<leftarrow> read_row_values fs r; Some (v # vs, r') })"
    by auto
  with Cons show ?case
    by (auto simp: same_values_def same_value_def row_ok_def abs_vals_def
        intro!: stored_bind [OF stored_value] stored_map stored_mono [OF Cons.IH])
qed

definition name_fits :: "nat \<Rightarrow> string \<Rightarrow> bool" where
  "name_fits n s \<longleftrightarrow> nul_free s \<and> length s < n"

lemma stored_name: "name_fits n s \<Longrightarrow> n \<le> 64 \<Longrightarrow> stored (write_name n s) (read_name n) (\<lambda>x. x = s)"
proof -
  assume s: "name_fits n s" "n \<le> 64"
  then have len: "unat (of_nat (length s) :: 16 word) = length s"
    by (simp add: unsigned_of_nat take_bit_nat_eq_self name_fits_def)
  show ?thesis
    unfolding write_name_def read_name_def [abs_def]
    by (rule stored_bind [OF stored_u16])
      (use s len in \<open>auto simp: name_fits_def intro!: stored_map stored_bytes\<close>)
qed

definition field_fits :: "Field \<Rightarrow> bool" where
  "field_fits f \<longleftrightarrow> name_fits MAX_FIELD_NAME_LENGTH (fieldName f)"

lemma type_code_7: "type_code t \<le> 7"
  by (cases t) simp_all

lemma code_type_code [simp]: "code_type (type_code t) = t"
  by (cases t) (simp_all add: code_type_def numeral_nat)

lemma and_then_assoc: "and_then (and_then a b) c = and_then a (and_then b c)"
  by (auto simp: and_then_def fun_eq_iff split: bind_splits)

definition write_field :: "Field \<Rightarrow> writer" where
  "write_field f = and_then (write_name MAX_FIELD_NAME_LENGTH (fieldName f)) (write_u8 (of_nat (type_code (fieldType f))))"

definition read_field :: "Field reader" where
  "read_field s =
    do { (name, r) \<leftarrow> read_name MAX_FIELD_NAME_LENGTH s;
         (t, r') \<leftarrow> read_u8 r;
         if unat t > 7 then None else Some (\<lparr>fieldName = name, fieldType = code_type (unat t)\<rparr>, r') }"

lemma stored_field: "field_fits f \<Longrightarrow> stored (write_field f) read_field ((=) f)"
proof -
  assume f: "field_fits f"
  have t: "unat (of_nat (type_code (fieldType f)) :: 8 word) = type_code (fieldType f)"
    using type_code_7 [of "fieldType f"] by (simp add: unsigned_of_nat take_bit_nat_eq_self)
  have rd: "read_field = (\<lambda>s. do { (name, r) \<leftarrow> read_name MAX_FIELD_NAME_LENGTH s;
      do { (t, r') \<leftarrow> read_u8 r; if unat t > 7 then None else Some (\<lparr>fieldName = name, fieldType = code_type (unat t)\<rparr>, r') } })"
    by (simp add: read_field_def fun_eq_iff)
  have "decodes (\<lambda>r. do { (t, r') \<leftarrow> read_u8 r; if unat t > 7 then None else Some (\<lparr>fieldName = name, fieldType = code_type (unat t)\<rparr>, r') })
      (le_bytes 1 (unat (of_nat (type_code (fieldType f)) :: 8 word))) f" if "name = fieldName f" for name
    using that t type_code_7 [of "fieldType f"] decodes_u8 [of "of_nat (type_code (fieldType f))"]
    by (auto simp: decodes_def simp del: le_bytes.simps One_nat_def)
  then have "stored (write_u8 (of_nat (type_code (fieldType f)))) (\<lambda>r. do { (t, r') \<leftarrow> read_u8 r;
      if unat t > 7 then None else Some (\<lparr>fieldName = name, fieldType = code_type (unat t)\<rparr>, r') }) ((=) f)"
    if "name = fieldName f" for name
    using that unfolding stored_def write_u8_def by (blast intro: writes_fwrite)
  with f show ?thesis
    unfolding rd write_field_def field_fits_def
    by (intro stored_bind [OF stored_name]) (auto simp: MAX_FIELD_NAME_LENGTH_def)
qed

interpretation field_defs: codec write_field read_field write_fields read_field_definitions field_fits "(=)"
proof
  show "read_field_definitions (Suc n) = (\<lambda>s. do { (b, r) \<leftarrow> read_field s; (bs, r') \<leftarrow> read_field_definitions n r; Some (b # bs, r') })" for n
    by (auto simp: read_field_def fun_eq_iff split: bind_splits)
qed (rule stored_field, auto simp: write_field_def and_then_assoc)

lemma stored_schema:
  "list_all field_fits fs \<Longrightarrow> stored (write_fields fs) (read_field_definitions (length fs)) (\<lambda>x. x = fs)"
  by (rule stored_mono [OF field_defs.items]) (auto simp: list.rel_eq)

text \<open>Items that are loaded one after the other into a state; \<open>inv s as\<close> says what \<open>s\<close> is while \<open>as\<close> are still ahead.\<close>

locale loader =
  fixes put :: "'a \<Rightarrow> writer" and load :: "'s \<Rightarrow> string \<Rightarrow> ('s \<times> string option) run"
    and put_all :: "'a list \<Rightarrow> writer" and load_all :: "nat \<Rightarrow> 's \<Rightarrow> string \<Rightarrow> ('s \<times> string option) run"
    and good :: "'a \<Rightarrow> bool" and inv :: "'s \<Rightarrow> 'a list \<Rightarrow> bool"
  assumes item: "good a \<Longrightarrow> \<exists>bs. writes (put a) bs \<and>
      (\<forall>s as rest. inv s (a # as) \<longrightarrow> (\<exists>s'. load s (bs @ rest) = Some (s', Some rest) \<and> inv s' as))"
    and put_Nil: "writes (put_all []) []"
    and put_Cons: "writes (put a) bs \<Longrightarrow> writes (put_all as) cs \<Longrightarrow> writes (put_all (a # as)) (bs @ cs)"
    and load_0: "load_all 0 s t = Some (s, Some t)"
    and load_Suc: "load s t = Some (s', Some t') \<Longrightarrow> load_all (Suc n) s t = load_all n s' t'"
begin

lemma items:
  "list_all good as \<Longrightarrow> \<exists>bs. writes (put_all as) bs \<and>
     (\<forall>s rest. inv s as \<longrightarrow> (\<exists>s'. load_all (length as) s (bs @ rest) = Some (s', Some rest) \<and> inv s' []))"
proof (induction as)
  case Nil
  show ?case by (rule exI [of _ "[]"]) (simp add: put_Nil load_0)
next
  case (Cons a as)
  then obtain bs where bs: "writes (put a) bs"
    "\<And>s as rest. inv s (a # as) \<Longrightarrow> \<exists>s'. load s (bs @ rest) = Some (s', Some rest) \<and> inv s' as"
    using item [of a] by auto
  from Cons obtain cs where cs: "writes (put_all as) cs"
    "\<And>s rest. inv s as \<Longrightarrow> \<exists>s'. load_all (length as) s (cs @ rest) = Some (s', Some rest) \<and> inv s' []"
    by auto
  have "\<exists>s'. load_all (length (a # as)) s ((bs @ cs) @ rest) = Some (s', Some rest) \<and> inv s' []"
    if inv: "inv s (a # as)" for s rest
  proof -
    obtain s' where "load s (bs @ cs @ rest) = Some (s', Some (cs @ rest))" "inv s' as"
      using bs(2) [OF inv] by blast
    with cs(2) [of s' rest] show ?thesis by (simp add: load_Suc)
  qed
  with put_Cons [OF bs(1) cs(1)] show ?case by blast
qed

end

end
