(* ===== verification/Persistence_Facts.thy ===== *)
theory Persistence_Facts
  imports Snapshot_Codec Operations_Facts
begin

text \<open>
  What snapshots guarantee: a saved store is restored by loading it, saving is atomic, and any file at
  all can be loaded without undefined behaviour.
\<close>

subsection \<open>Loading the rows of a table\<close>

definition row_saved :: "DB \<Rightarrow> Row \<Rightarrow> bool" where
  "row_saved db r \<longleftrightarrow> keyed (row_key r) r \<and> row_fits (tl (dbFields db)) (tl (rvalues r)) \<and> 0 \<le> sint (row_key r)"

text \<open>The key counter is not in the file: it is what the insertions make of the initial 1.\<close>

definition restored_next :: "cint list \<Rightarrow> cint" where
  "restored_next ks = fold (\<lambda>k n. snd (choose_key n k)) ks 1"

definition row_assoc :: "DB \<Rightarrow> Row \<Rightarrow> cint \<times> ARow" where
  "row_assoc db r = (row_key r, abs_row (dbFields db) r)"

definition rows_inv :: "DB \<Rightarrow> DB \<Rightarrow> Row list \<Rightarrow> bool" where
  "rows_inv db0 db rs \<longleftrightarrow> db_safe db0 \<and> db_wf db \<and> dbName db = dbName db0 \<and> dbFields db = dbFields db0 \<and>
     (\<exists>done. db_rows db0 = done @ rs \<and> rowsCount db = int (length done) \<and>
        nextKey db = restored_next (map row_key done) \<and>
        t_rows (abs_db db) = map_of (map (row_assoc db0) done))"

lemma db_rows_keys: "db_safe db \<Longrightarrow> distinct (map row_key (db_rows db))"
  by (simp add: row_keys db_safeD(1) hm.keys_distinct)

lemma abs_rows_assoc: "db_safe db \<Longrightarrow> t_rows (abs_db db) = map_of (map (row_assoc db) (db_rows db))"
proof -
  assume safe: "db_safe db"
  have "row_assoc db (snd p) = (fst p, abs_row (dbFields db) (snd p))" if "p \<in> set (hm_nodes (rowMap db))" for p
    using that db_safe_node(2) [OF safe, of "fst p" "snd p"] by (simp add: row_assoc_def keyed_row_key)
  then have "map (row_assoc db) (db_rows db) = map (\<lambda>(k, r). (k, abs_row (dbFields db) r)) (hm_nodes (rowMap db))"
    using safe by (auto simp: db_safeD split: prod.splits)
  moreover have "t_rows (abs_db db) = map_of (map (\<lambda>(k, r). (k, abs_row (dbFields db) r)) (hm_nodes (rowMap db)))"
    using safe by (simp add: abs_db_def find_row_def hm.find_nodes db_safeD map_of_map fun_eq_iff)
  ultimately show ?thesis by simp
qed

lemma abs_db_counts: "t_next (abs_db db) = nextKey db" "t_count (abs_db db) = rowsCount db"
  by (simp_all add: abs_db_def)

lemma add_timed_row:
  assumes wf: "db_wf db" and vs: "row_ok (tl (dbFields db)) vs" and k: "0 \<le> sint k"
    and new: "t_rows (abs_db db) k = None" and count: "rowsCount db < MAX_ROW_CAPACITY"
  shows "\<exists>db1 db2. db_add_row now db k vs = Some (0, db1) \<and> db_set_row_timestamps db1 k c u = (0, db2) \<and> db_wf db2 \<and>
    abs_db db2 = (abs_db db)\<lparr>t_next := snd (choose_key (nextKey db) k), t_count := rowsCount db + 1,
      t_rows := (t_rows (abs_db db))(k \<mapsto> \<lparr>a_vals = abs_vals (tl (dbFields db)) vs, a_created = c, a_updated = u\<rparr>)\<rparr>"
proof -
  obtain n where n: "choose_key (nextKey db) k = (k, n)" using k by (simp add: choose_key_def)
  obtain rc db1 where add: "db_add_row now db k vs = Some (rc, db1)" "db_wf db1"
    "(rc, abs_db db1) = spec_add now (abs_db db) k (abs_vals (tl (dbFields db)) vs)"
    using db_add_row_refines [of db vs now k] wf vs by (auto simp: db_wf_def)
  let ?r = "\<lparr>a_vals = abs_vals (tl (dbFields db)) vs, a_created = now, a_updated = now\<rparr>"
  have a1: "rc = 0" "abs_db db1 = (abs_db db)\<lparr>t_next := n, t_count := rowsCount db + 1, t_rows := (t_rows (abs_db db))(k \<mapsto> ?r)\<rparr>"
    using add(3) new count n by (simp_all add: spec_add_eq abs_db_counts)
  then have "t_rows (abs_db db1) k = Some ?r" by simp
  then obtain r1 where r1: "find_row db1 k = Some r1" "abs_row (dbFields db1) r1 = ?r"
    by (auto simp: abs_db_def)
  from db_set_row_timestamps_ok [OF add(2) r1(1), of c u] add(1) show ?thesis
    by (auto simp: a1 r1(2) n)
qed

lemma restore_row:
  assumes inv: "rows_inv db0 db (r # rs)" and r: "row_saved db0 r"
    and vs: "same_values (tl (dbFields db0)) (tl (rvalues r)) vs"
  shows "\<exists>db1. db_add_row now db (row_key r) vs = Some (0, db1) \<and>
    rows_inv db0 (snd (db_set_row_timestamps db1 (row_key r) (created_at r) (updated_at r))) rs"
proof -
  let ?k = "row_key r"
  obtain old where old: "db_rows db0 = old @ r # rs" "rowsCount db = int (length old)"
    "nextKey db = restored_next (map row_key old)" "t_rows (abs_db db) = map_of (map (row_assoc db0) old)"
    and wf: "db_wf db" and safe0: "db_safe db0" and eqs: "dbName db = dbName db0" "dbFields db = dbFields db0"
    using inv by (auto simp: rows_inv_def)
  have new: "map_of (map (row_assoc db0) old) ?k = None"
    using db_rows_keys [OF safe0] by (auto simp: old(1) map_of_eq_None_iff row_assoc_def)
  have count: "rowsCount db < MAX_ROW_CAPACITY"
    using safe0 old(1,2) db_safeD(5,6) [OF safe0] by (auto simp: db_safe_def dest!: arg_cong [of _ _ length])
  obtain db1 db2 where db2: "db_add_row now db ?k vs = Some (0, db1)"
    "db_set_row_timestamps db1 ?k (created_at r) (updated_at r) = (0, db2)" "db_wf db2"
    "abs_db db2 = (abs_db db)\<lparr>t_next := snd (choose_key (nextKey db) ?k), t_count := rowsCount db + 1,
      t_rows := (t_rows (abs_db db))(?k \<mapsto> abs_row (dbFields db0) r)\<rparr>"
    using add_timed_row [OF wf _ _ _ count, of vs ?k now "created_at r" "updated_at r"] r vs new
    by (auto simp: same_values_def row_saved_def abs_row_def eqs old(4))
  have key_field: "dbFields d = key_field # tl (dbFields d)" if "db_wf d" for d
    using that by (auto simp: db_wf_def db_safe_def)
  have "dbName db2 = dbName db0" "tl (dbFields db2) = tl (dbFields db0)" "rowsCount db2 = int (length (old @ [r]))"
    "nextKey db2 = restored_next (map row_key (old @ [r]))"
    "t_rows (abs_db db2) = (t_rows (abs_db db))(?k \<mapsto> abs_row (dbFields db0) r)"
    using db2(4) eqs old(2,3) by (simp_all add: abs_db_def restored_next_def)
  moreover have "(t_rows (abs_db db))(?k \<mapsto> abs_row (dbFields db0) r) = map_of (map (row_assoc db0) (old @ [r]))"
    using new old(4) by (auto simp: row_assoc_def fun_eq_iff map_add_def split: option.splits)
  ultimately have "rows_inv db0 db2 rs"
    unfolding rows_inv_def using safe0 db2(3) old(1) key_field [OF db2(3)] key_field [OF wf] eqs
    by (intro conjI exI [of _ "old @ [r]"]) auto
  with db2(1,2) show ?thesis by simp
qed

definition write_row :: "DB \<Rightarrow> Row \<Rightarrow> writer" where
  "write_row db r f =
    do { kd \<leftarrow> at (rvalues r) 0;
         key \<leftarrow> read_i (dvalue kd);
         and_then (write_i32 key) (write_row_values db r) f }"

lemma row_key_at: "keyed (row_key r) r \<Longrightarrow> \<exists>kd. at (rvalues r) 0 = Some kd \<and> read_i (dvalue kd) = Some (row_key r)"
  by (cases "rvalues r") (auto simp: keyed_def row_key_def at_def)

lemma write_rows_Cons: "write_rows db (r # rs) = and_then (write_row db r) (write_rows db rs)"
  by (auto simp: write_row_def and_then_def fun_eq_iff split: bind_splits)

lemma stored_row:
  assumes r: "row_saved db0 r"
  shows "\<exists>bs. writes (write_row db0 r) bs \<and> (\<forall>db rs rest. rows_inv db0 db (r # rs) \<longrightarrow>
    (\<exists>db'. load_row now db (bs @ rest) = Some (db', Some rest) \<and> rows_inv db0 db' rs))"
proof -
  obtain kd where kd: "at (rvalues r) 0 = Some kd" "read_i (dvalue kd) = Some (row_key r)"
    using r row_key_at by (auto simp: row_saved_def)
  obtain vbs vs where vs: "writes (write_values (tl (dbFields db0)) (tl (rvalues r))) vbs"
    "decodes (read_row_values (tl (dbFields db0))) vbs vs" "same_values (tl (dbFields db0)) (tl (rvalues r)) vs"
    using stored_values [of "tl (dbFields db0)" "tl (rvalues r)"] r by (auto simp: row_saved_def stored_def)
  let ?bs = "le_bytes 4 (unat (row_key r)) @ vbs @ le_bytes 8 (unat (created_at r)) @ le_bytes 8 (unat (updated_at r))"
  have "writes (write_row db0 r) ?bs"
    using writes_then [OF writes_fwrite writes_then [OF vs(1) writes_then [OF writes_fwrite writes_fwrite]]] kd
    by (simp add: writes_def write_row_def write_row_values_def write_i32_def write_i64_def drop_Suc)
  moreover have "\<exists>db'. load_row now db (?bs @ rest) = Some (db', Some rest) \<and> rows_inv db0 db' rs"
    if inv: "rows_inv db0 db (r # rs)" for db rs rest
  proof -
    have "dbFields db = dbFields db0" using inv by (simp add: rows_inv_def)
    with restore_row [OF inv r vs(3), of now] vs(2)
      decodes_i32 [of "row_key r"] decodes_i64 [of "created_at r"] decodes_i64 [of "updated_at r"]
    show ?thesis by (auto simp: load_row_def decodes_def drop_Suc)
  qed
  ultimately show ?thesis by blast
qed

interpretation rows: loader "write_row db0" "load_row now" "write_rows db0" "load_rows now" "row_saved db0" "rows_inv db0"
  for db0 now
proof
  show "writes (write_rows db0 []) []" by (simp add: writes_def)
qed (rule stored_row, auto simp: write_rows_Cons intro: writes_then)

subsection \<open>Loading tables\<close>

text \<open>A table that a snapshot can hold: its names and strings are C strings that fit, no key is negative.\<close>

definition db_saved :: "DB \<Rightarrow> bool" where
  "db_saved db \<longleftrightarrow> db_safe db \<and> name_fits MAX_DB_NAME_LENGTH (dbName db) \<and>
     list_all field_fits (tl (dbFields db)) \<and> length (dbFields db) < 2 ^ 31 \<and> list_all (row_saved db) (db_rows db)"

definition restored_db :: "DB \<Rightarrow> Table" where
  "restored_db db = (abs_db db)\<lparr>t_next := restored_next (map row_key (db_rows db))\<rparr>"

lemma restored_rows:
  assumes "rows_inv db0 db []"
  shows "db_wf db" "dbName db = dbName db0" "abs_db db = restored_db db0"
proof -
  show "db_wf db" "dbName db = dbName db0" using assms by (simp_all add: rows_inv_def)
  have "rowsCount db0 = int (length (db_rows db0))" "t_rows (abs_db db0) = map_of (map (row_assoc db0) (db_rows db0))"
    using assms abs_rows_assoc by (auto simp: rows_inv_def db_safeD(5,6))
  then have "t_rows (abs_db db) = t_rows (abs_db db0)" "rowsCount db = rowsCount db0"
      "nextKey db = restored_next (map row_key (db_rows db0))" "dbFields db = dbFields db0" "dbName db = dbName db0"
    using assms by (auto simp: rows_inv_def)
  then show "abs_db db = restored_db db0" by (simp add: restored_db_def abs_db_def)
qed

lemma fresh_rows_inv:
  assumes "db_saved db0"
  shows "\<exists>db. db_create (dbName db0) (tl (dbFields db0)) = Some db \<and> rows_inv db0 db (db_rows db0) \<and> dbName db = dbName db0"
proof -
  obtain fs where fs: "dbFields db0 = key_field # fs" "fs \<noteq> []"
    using assms by (auto simp: db_saved_def db_safe_def)
  have n: "copy_name MAX_DB_NAME_LENGTH (dbName db0) = dbName db0"
    using assms by (simp add: db_saved_def name_fits_def)
  obtain db where db: "db_create (dbName db0) fs = Some db" "db_wf db" "dbName db = dbName db0"
    "abs_db db = \<lparr>t_name = dbName db0, t_fields = fs, t_rows = (\<lambda>_. None), t_count = 0, t_next = 1\<rparr>"
    using db_create_ok [OF fs(2), of "dbName db0"] n by auto
  moreover have "dbFields db = dbFields db0"
    using db(1) fs by (auto simp: db_create_def split: option.splits if_splits)
  ultimately show ?thesis
    using assms fs by (auto simp: rows_inv_def db_saved_def restored_next_def abs_db_def)
qed

definition write_schema :: "DB \<Rightarrow> writer" where
  "write_schema db =
    and_then (write_name MAX_DB_NAME_LENGTH (dbName db))
      (and_then (write_u32 (of_nat (length (dbFields db) - 1))) (write_fields (drop 1 (dbFields db))))"

lemma write_db_parts:
  "write_db_callback db = and_then (write_schema db) (and_then (write_u32 (word_of_int (rowsCount db))) (write_rows db (db_rows db)))"
  by (simp add: write_db_callback_def write_schema_def and_then_assoc)

lemma small_count:
  fixes n :: nat
  assumes "n < 2 ^ 31"
  shows "unat (of_nat n :: 32 word) = n" "sint (of_nat n :: 32 word) = int n"
proof -
  show u: "unat (of_nat n :: 32 word) = n"
    using assms by (simp add: unsigned_of_nat take_bit_nat_eq_self)
  show "sint (of_nat n :: 32 word) = int n"
    using assms by (simp add: sint_uint uint_nat u signed_take_bit_int_eq_self_iff)
qed

lemma stored_db_schema:
  assumes db: "db_saved db"
  shows "stored (write_schema db) load_schema (\<lambda>x. x = (dbName db, of_nat (length (dbFields db) - 1), tl (dbFields db)))"
proof -
  let ?n = "length (dbFields db) - 1"
  have n: "unat (of_nat ?n :: 32 word) = ?n" "?n > 0"
    using db small_count [of ?n] by (auto simp: db_saved_def db_safe_def)
  then have n0: "(of_nat ?n :: 32 word) \<noteq> 0" by (metis less_numeral_extra(3) unsigned_0)
  have fs: "list_all field_fits (tl (dbFields db))" using db by (simp add: db_saved_def)
  have rd: "load_schema = (\<lambda>s. do { (name, r) \<leftarrow> read_name MAX_DB_NAME_LENGTH s;
      do { (n, r') \<leftarrow> read_u32 r;
           if n = 0 then None
           else do { (fs, r'') \<leftarrow> read_field_definitions (unat n) r'; Some ((name, n, fs), r'') } } })"
    by (simp add: load_schema_def fun_eq_iff)
  show ?thesis
    unfolding write_schema_def rd
    by (intro stored_bind [OF stored_name] stored_bind [OF stored_u32])
      (use db n n0 stored_schema [OF fs] in \<open>auto simp: db_saved_def MAX_DB_NAME_LENGTH_def drop_Suc intro!: stored_map\<close>)
qed

definition restores :: "DB \<Rightarrow> DB \<Rightarrow> bool" where
  "restores db0 db \<longleftrightarrow> db_wf db \<and> dbName db = dbName db0 \<and> abs_db db = restored_db db0"

definition dbs_inv :: "DB list \<Rightarrow> DB list \<Rightarrow> DB list \<Rightarrow> bool" where
  "dbs_inv all dbs todo \<longleftrightarrow> distinct (map dbName all) \<and> length all \<le> MAX_DB_COUNT \<and>
     (\<exists>done. all = done @ todo \<and> list_all2 restores (rev done) dbs)"

lemma restores_names: "list_all2 restores ds dbs \<Longrightarrow> map dbName dbs = map dbName ds"
  by (auto simp: list_all2_conv_all_nth restores_def intro!: nth_equalityI)

lemma stored_db:
  assumes d: "db_saved d"
  shows "\<exists>bs. writes (write_db_callback d) bs \<and> (\<forall>dbs todo rest. dbs_inv all dbs (d # todo) \<longrightarrow>
    (\<exists>dbs'. load_db now dbs (bs @ rest) = Some (dbs', Some rest) \<and> dbs_inv all dbs' todo))"
proof -
  let ?n = "length (dbFields d) - 1"
  obtain sbs where sbs: "writes (write_schema d) sbs" "decodes load_schema sbs (dbName d, of_nat ?n, tl (dbFields d))"
    using stored_db_schema [OF d] by (auto simp: stored_def)
  have saved: "list_all (row_saved d) (db_rows d)" using d by (simp add: db_saved_def)
  obtain rbs where rbs: "writes (write_rows d (db_rows d)) rbs"
    "\<And>db rest. rows_inv d db (db_rows d) \<Longrightarrow>
       \<exists>db'. load_rows now (length (db_rows d)) db (rbs @ rest) = Some (db', Some rest) \<and> rows_inv d db' []"
    using rows.items [OF saved] by blast
  obtain db where db: "db_create (dbName d) (tl (dbFields d)) = Some db" "rows_inv d db (db_rows d)" "dbName db = dbName d"
    using fresh_rows_inv [OF d] by blast
  have count: "rowsCount d = int (length (db_rows d))" "length (db_rows d) < 2 ^ 31"
    using d by (auto simp: db_saved_def db_safe_def db_safeD(5) MAX_ROW_CAPACITY_def)
  have "?n > 0" "?n < 0x7FFFFFFF" using d by (auto simp: db_saved_def db_safe_def)
  then have created: "create_loaded (dbName d) (of_nat ?n) (tl (dbFields d)) = Some db"
    using small_count [of ?n] db(1) by (auto simp: create_loaded_def dest: arg_cong [of _ _ unat])
  let ?bs = "sbs @ le_bytes 4 (unat (of_nat (length (db_rows d)) :: 32 word)) @ rbs"
  have "writes (write_db_callback d) ?bs"
    using writes_then [OF sbs(1) writes_then [OF writes_fwrite rbs(1)]] by (simp add: write_db_parts write_u32_def count)
  moreover have "\<exists>dbs'. load_db now dbs (?bs @ rest) = Some (dbs', Some rest) \<and> dbs_inv all dbs' todo"
    if inv: "dbs_inv all dbs (d # todo)" for dbs todo rest
  proof -
    obtain old where old: "all = old @ d # todo" "list_all2 restores (rev old) dbs" "distinct (map dbName all)" "length all \<le> MAX_DB_COUNT"
      using inv by (auto simp: dbs_inv_def)
    have "dbName ` set dbs = dbName ` set old"
      using arg_cong [OF restores_names [OF old(2)], of set] by simp
    then have "dbName d \<notin> dbName ` set dbs" using old(3) by (auto simp: old(1))
    moreover have "length dbs < MAX_DB_COUNT"
      using old(4) list_all2_lengthD [OF old(2)] by (simp add: old(1))
    ultimately have add: "add_db dbs db = (0, db # dbs)"
      by (simp add: add_db_def db(3) find_db_None)
    obtain db' where db': "load_rows now (length (db_rows d)) db (rbs @ rest) = Some (db', Some rest)" "rows_inv d db' []"
      using rbs(2) [OF db(2)] by blast
    have "restores d db'" using restored_rows [OF db'(2)] by (simp add: restores_def)
    then have "dbs_inv all (db' # dbs) todo"
      unfolding dbs_inv_def using old by (intro conjI exI [of _ "old @ [d]"]) auto
    moreover have "load_db now dbs (?bs @ rest) = Some (db' # dbs, Some rest)"
      using sbs(2) created add db'(1) decodes_u32 [of "of_nat (length (db_rows d))"] count(2) small_count [of "length (db_rows d)"]
      by (simp add: load_db_def decodes_def)
    ultimately show ?thesis by blast
  qed
  ultimately show ?thesis by blast
qed

definition write_dbs :: "DB list \<Rightarrow> writer" where
  "write_dbs dbs f = db_for_each write_db_callback dbs f"

interpretation dbs: loader write_db_callback "load_db now" write_dbs "load_dbs now" db_saved "dbs_inv all" for now all
proof
  show "writes (write_dbs []) []" by (simp add: writes_def write_dbs_def)
  show "writes (write_dbs (d # ds)) (bs @ cs)" if "writes (write_db_callback d) bs" "writes (write_dbs ds) cs" for d ds bs cs
  proof -
    have "write_dbs (d # ds) = and_then (write_db_callback d) (write_dbs ds)"
      using writes_code [OF that(1)] by (auto simp: write_dbs_def and_then_def fun_eq_iff split: bind_splits)
    then show ?thesis using writes_then [OF that] by simp
  qed
qed (rule stored_db, auto)

subsection \<open>Keys\<close>

text \<open>
  \<open>crypto_pwhash_str\<close> fills the whole buffer of \<open>crypto_pwhash_STRBYTES\<close> bytes. A role is one of the two named
  ones or another byte.
\<close>

definition key_fits :: "nat \<Rightarrow> AuthKey \<Rightarrow> bool" where
  "key_fits strbytes k \<longleftrightarrow> name_fits AUTH_KEY_NAME_MAX (keyName k) \<and> keyName k \<noteq> [] \<and> length (keyHash k) = strbytes \<and>
     keyRole k \<notin> {ROLE_BYTE 0, ROLE_BYTE 1}"

definition write_key :: "nat \<Rightarrow> AuthKey \<Rightarrow> writer" where
  "write_key strbytes k =
     and_then (write_u16 (of_nat (length (keyName k))))
       (and_then (fwrite (take (unat (of_nat (length (keyName k)) :: 16 word)) (keyName k)))
         (and_then (write_u8 (role_code (keyRole k))) (fwrite (hash_bytes strbytes (keyHash k)))))"

lemma stored_key: "key_fits strbytes k \<Longrightarrow> stored (write_key strbytes k) (read_key strbytes) (\<lambda>x. x = k)"
proof -
  assume k: "key_fits strbytes k"
  let ?n = "of_nat (length (keyName k)) :: 16 word"
  have n: "unat ?n = length (keyName k)"
    using k by (simp add: key_fits_def name_fits_def AUTH_KEY_NAME_MAX_def unsigned_of_nat take_bit_nat_eq_self)
  with k have n0: "?n \<noteq> 0" by (auto simp: key_fits_def dest: arg_cong [of _ _ unat])
  have role: "role_of_byte (role_code (keyRole k)) = keyRole k"
    using k by (auto simp: key_fits_def role_code_def role_of_byte_def split: KeyRole.splits)
  have h: "hash_bytes strbytes (keyHash k) = keyHash k" "length (keyHash k) = strbytes"
    using k by (simp_all add: hash_bytes_def key_fits_def)
  have rd: "read_key strbytes = (\<lambda>s. do { (len, r) \<leftarrow> read_u16 s;
      if len = 0 \<or> unat len \<ge> AUTH_KEY_NAME_MAX then None
      else do { (name, r1) \<leftarrow> fread (unat len) r;
        do { (role, r2) \<leftarrow> read_u8 r1;
          do { (h, r3) \<leftarrow> fread strbytes r2;
            Some (\<lparr>keyName = c_string name, keyHash = h, keyRole = role_of_byte role\<rparr>, r3) } } } })"
    by (simp add: read_key_def fun_eq_iff)
  show ?thesis
    unfolding rd write_key_def
    by (rule stored_bind [OF stored_u16])
      (use k n n0 role h in \<open>auto simp: key_fits_def name_fits_def
         intro!: stored_bind [OF stored_fwrite, where P = "\<lambda>x. x = keyName k"] stored_bind [OF stored_u8]
           stored_map stored_fwrite\<close>)
qed

definition load_key :: "nat \<Rightarrow> AuthKey list \<Rightarrow> string \<Rightarrow> (AuthKey list \<times> string option) run" where
  "load_key strbytes ks s = Some (case read_key strbytes s of None \<Rightarrow> (ks, None) | Some (k, r) \<Rightarrow> (ks @ [k], Some r))"

interpretation keys: loader "write_key strbytes" "load_key strbytes" "write_keys strbytes"
  "\<lambda>n ks s. Some (load_keys strbytes n ks s)" "key_fits strbytes" "\<lambda>ks todo. ks @ todo = all" for strbytes all
proof
  show "\<exists>bs. writes (write_key strbytes k) bs \<and> (\<forall>ks todo rest. ks @ k # todo = all \<longrightarrow>
      (\<exists>ks'. load_key strbytes ks (bs @ rest) = Some (ks', Some rest) \<and> ks' @ todo = all))" if "key_fits strbytes k" for k
    using stored_key [OF that] by (auto simp: stored_def decodes_def load_key_def)
  show "writes (write_keys strbytes (k # ks)) (bs @ cs)" if "writes (write_key strbytes k) bs" "writes (write_keys strbytes ks) cs" for k ks bs cs
    using writes_then [OF that] by (simp add: write_key_def and_then_assoc)
qed (auto simp: writes_ok load_key_def split: option.splits)

subsection \<open>The whole snapshot\<close>

lemma count_dbs: "db_for_each count_db_callback dbs n = Some (0, n + of_nat (length dbs))"
  by (induction dbs arbitrary: n) (simp_all add: count_db_callback_def ac_simps)

definition store_saved :: "nat \<Rightarrow> Store \<Rightarrow> bool" where
  "store_saved strbytes st \<longleftrightarrow> store_safe st \<and> list_all db_saved (storage st) \<and>
     length (keys (g_auth_store st)) \<le> AUTH_MAX_KEYS \<and> list_all (key_fits strbytes) (keys (g_auth_store st))"

definition restored_store :: "Store \<Rightarrow> Store \<Rightarrow> bool" where
  "restored_store st st' \<longleftrightarrow> list_all2 restores (rev (storage st)) (storage st') \<and> g_auth_store st' = g_auth_store st"

lemma snapshot_parts:
  "write_snapshot strbytes st =
    and_then (fwrite SNAPSHOT_MAGIC) (and_then (write_u32 SNAPSHOT_VERSION)
      (and_then (write_u32 (of_nat (length (storage st)))) (and_then (write_dbs (storage st))
        (and_then (write_u32 (of_nat (length (keys (g_auth_store st))))) (write_keys strbytes (keys (g_auth_store st)))))))"
  by (simp add: write_snapshot_def count_dbs write_dbs_def [abs_def] fun_eq_iff)

lemma fread_magic: "fread SNAPSHOT_MAGIC_SIZE (SNAPSHOT_MAGIC @ r) = Some (SNAPSHOT_MAGIC, r)"
  by (simp add: fread_def SNAPSHOT_MAGIC_def SNAPSHOT_MAGIC_SIZE_def)

lemma snapshot_round_trip:
  assumes st: "store_saved strbytes st"
  shows "\<exists>bs. writes (write_snapshot strbytes st) bs \<and> (\<forall>st0. storage st0 = [] \<longrightarrow>
    (\<exists>st'. load_snapshot strbytes now st0 bs = Some (0, st') \<and> restored_store st st'))"
proof -
  let ?dbs = "storage st" and ?ks = "keys (g_auth_store st)"
  have saved: "list_all db_saved ?dbs" "list_all (key_fits strbytes) ?ks"
    and small: "length ?dbs < 2 ^ 31" "length ?ks < 2 ^ 31" "length ?ks \<le> AUTH_MAX_KEYS"
    and inv0: "dbs_inv ?dbs [] ?dbs"
    using st by (auto simp: store_saved_def store_ok_def limits auth_limits dbs_inv_def)
  obtain dbs where dbs: "writes (write_dbs ?dbs) dbs"
    "\<And>s rest. dbs_inv ?dbs s ?dbs \<Longrightarrow> \<exists>s'. load_dbs now (length ?dbs) s (dbs @ rest) = Some (s', Some rest) \<and> dbs_inv ?dbs s' []"
    using dbs.items [OF saved(1)] by blast
  obtain kbs where kbs: "writes (write_keys strbytes ?ks) kbs"
    "\<And>rest. load_keys strbytes (length ?ks) [] (kbs @ rest) = (?ks, Some rest)"
    using keys.items [OF saved(2), of ?ks] by auto
  let ?n = "of_nat (length ?dbs) :: 32 word" and ?m = "of_nat (length ?ks) :: 32 word"
  let ?bs = "SNAPSHOT_MAGIC @ le_bytes 4 (unat SNAPSHOT_VERSION) @ le_bytes 4 (unat ?n) @ dbs @ le_bytes 4 (unat ?m) @ kbs"
  have "writes (write_snapshot strbytes st) ?bs"
    unfolding snapshot_parts write_u32_def by (intro writes_then writes_fwrite dbs(1) kbs(1))
  moreover have "\<exists>st'. load_snapshot strbytes now st0 ?bs = Some (0, st') \<and> restored_store st st'" if "storage st0 = []" for st0
  proof -
    obtain s' where s': "load_dbs now (length ?dbs) [] (dbs @ le_bytes 4 (unat ?m) @ kbs) = Some (s', Some (le_bytes 4 (unat ?m) @ kbs))"
      "dbs_inv ?dbs s' []"
      using dbs(2) [OF inv0] by blast
    let ?st = "st0\<lparr>storage := s', g_auth_store := \<lparr>keys = ?ks\<rparr>\<rparr>"
    have "load_auth strbytes (st0\<lparr>storage := s'\<rparr>) (le_bytes 4 (unat ?m) @ kbs) = Some (0, ?st)"
      using decodes_u32 [of ?m] kbs(2) [of "[]"] small(2,3) by (simp add: load_auth_def decodes_def small_count)
    moreover have "load_snapshot strbytes now st0 ?bs = load_auth strbytes (st0\<lparr>storage := s'\<rparr>) (le_bytes 4 (unat ?m) @ kbs)"
      using s'(1) that decodes_u32 [of SNAPSHOT_VERSION] decodes_u32 [of ?n] small(1)
      by (simp add: load_snapshot_def decodes_def small_count fread_magic)
    moreover have "restored_store st ?st" using s'(2) by (simp add: restored_store_def dbs_inv_def)
    ultimately show ?thesis by auto
  qed
  ultimately show ?thesis by blast
qed

subsection \<open>Saving always answers\<close>

lemma answers_fwrite [intro, simp]: "answers (fwrite bs)" "answers write_ok" "answers write_fail" "answers (write_bytes bs)"
  using writes_answers [OF writes_fwrite] writes_answers [OF writes_ok] writes_answers [OF writes_bytes]
  by (auto simp: answers_def write_fail_def)

lemma answers_words [intro, simp]:
  "answers (write_u8 v)" "answers (write_u16 w)" "answers (write_u32 x)" "answers (write_i32 i)" "answers (write_i64 t)" "answers (write_f64 d)"
  by (auto simp: write_u8_def write_u16_def write_u32_def write_i32_def write_i64_def write_f64_def)

lemma answers_string [intro, simp]: "answers (write_string s)"
  by (auto simp: write_string_def split: option.splits)

lemma answers_name [intro, simp]: "answers (write_name n s)"
  by (auto simp: write_name_def)

lemma answers_scalar [intro]: "scalar_ok t d \<Longrightarrow> answers (write_scalar t (dvalue d))"
  using answers_words answers_string by (cases t) (auto simp: scalar_ok_def answers_def)

lemma answers_elems: "list_all (scalar_ok et) es \<Longrightarrow> answers (write_elems_of et es)"
  by (induction es) auto

lemma answers_value: "data_ok t v \<Longrightarrow> answers (write_value t v)"
proof (cases "is_array_type t")
  case True
  assume "data_ok t v"
  with True obtain a where a: "read_a (dvalue v) = Some a" "list_all (scalar_ok (array_elem_type t)) (arr_list a)"
    by (auto simp: data_ok_def array_ok_def arr_list_def split: option.splits ArrayData.splits)
  then have "write_value t v = and_then (write_u32 (of_nat (length (arr_list a)))) (write_elems_of (array_elem_type t) (arr_list a))"
    using True by (simp add: write_value_def fun_eq_iff)
  with a(2) show ?thesis by (auto intro: answers_elems)
next
  case False
  assume v: "data_ok t v"
  have "write_value t v = write_scalar t (dvalue v)" using False by (simp add: write_value_def fun_eq_iff)
  with False v show ?thesis by (auto simp: data_ok_def)
qed

lemma answers_values: "row_ok fs vs \<Longrightarrow> answers (write_values fs vs)"
  unfolding row_ok_def
proof (induction rule: list_all2_induct)
  case Nil
  show ?case by (simp add: answers_def)
next
  case (Cons f fs v vs)
  have "write_values (f # fs) (v # vs) = and_then (write_value (fieldType f) v) (write_values fs vs)" by auto
  with Cons show ?case by (auto intro: answers_value)
qed

lemma answers_row:
  assumes "keyed k r" "row_ok (dbFields db) (rvalues r)" "dbFields db \<noteq> []"
  shows "answers (write_row db r)"
proof -
  have "row_ok (drop 1 (dbFields db)) (drop 1 (rvalues r))" using assms(2) by (simp add: row_ok_def)
  then have "answers (and_then (write_i32 k) (write_row_values db r))"
    by (auto simp: write_row_values_def intro: answers_values)
  with assms show ?thesis by (cases "rvalues r") (auto simp: answers_def write_row_def keyed_def at_def)
qed

lemma answers_rows:
  "(\<And>r. r \<in> set rs \<Longrightarrow> answers (write_row db r)) \<Longrightarrow> answers (write_rows db rs)"
proof (induction rs)
  case Nil
  show ?case by (simp add: answers_def)
qed (auto simp: write_rows_Cons)

lemma answers_fields: "answers (write_fields fs)"
  by (induction fs) auto

lemma answers_keys: "answers (write_keys strbytes ks)"
  by (induction ks) auto

lemma answers_db: "db_safe db \<Longrightarrow> answers (write_db_callback db)"
proof -
  assume db: "db_safe db"
  have "answers (write_row db r)" if "r \<in> set (db_rows db)" for r
    using that db answers_row db_safe_node [OF db] db_safeD [OF db] by fastforce
  then show ?thesis
    by (auto simp: write_db_callback_def intro!: answers_rows answers_fields)
qed

lemma answers_dbs: "list_all db_safe dbs \<Longrightarrow> answers (write_dbs dbs)"
proof (induction dbs)
  case Nil
  show ?case by (simp add: answers_def write_dbs_def)
next
  case (Cons d dbs)
  have "\<exists>rc f'. write_dbs (d # dbs) f = Some (rc, f')" for f
  proof -
    obtain rc g where "write_db_callback d f = Some (rc, g)"
      using answers_db [of d] Cons.prems by (fastforce simp: answers_def)
    moreover obtain rc' h where "write_dbs dbs g = Some (rc', h)" using Cons by (fastforce simp: answers_def)
    ultimately show ?thesis by (simp add: write_dbs_def)
  qed
  then show ?case by (simp add: answers_def)
qed

lemma answers_snapshot: "list_all db_safe (storage st) \<Longrightarrow> answers (write_snapshot strbytes st)"
  by (auto simp: snapshot_parts intro!: answers_dbs answers_keys)

lemma tmp_path_other: "tmp_path p \<noteq> p" "p \<noteq> tmp_path p"
  by (simp_all add: tmp_path_def)

subsection \<open>Any bytes can be loaded\<close>

lemma read_scalar_ok: "read_scalar e t s = Some (d, r) \<Longrightarrow> scalar_ok t d"
  by (cases t) (auto simp: scalar_ok_def string_data_def split: bind_splits option.splits)

lemma read_elems_ok: "read_elems et n s = Some (es, r) \<Longrightarrow> list_all (scalar_ok et) es \<and> length es = n"
proof (induction n arbitrary: s es r)
  case (Suc n)
  from Suc.prems obtain e t es' where "read_scalar True et s = Some (e, t)" "read_elems et n t = Some (es', r)" "es = e # es'"
    by (auto split: bind_splits)
  with Suc.IH read_scalar_ok show ?case by auto
qed simp

lemma read_value_ok: "read_value t s = Some (d, r) \<Longrightarrow> data_ok t d"
  by (auto simp: read_value_def data_ok_def array_ok_def split: bind_splits if_splits dest!: read_elems_ok dest: read_scalar_ok)

lemma read_row_values_ok: "read_row_values fs s = Some (vs, r) \<Longrightarrow> row_ok fs vs"
  by (induction fs s arbitrary: vs r rule: read_row_values.induct)
    (auto simp: row_ok_def split: bind_splits dest: read_value_ok)

lemma read_field_definitions_length: "read_field_definitions n s = Some (fs, r) \<Longrightarrow> length fs = n"
  by (induction n s arbitrary: fs r rule: read_field_definitions.induct) (auto split: bind_splits if_splits)

lemma db_set_row_timestamps_wf: "db_wf db \<Longrightarrow> db_wf (snd (db_set_row_timestamps db k c u))"
  using db_set_row_timestamps_ok [of db k] by (cases "find_row db k") (auto simp: db_set_row_timestamps_def)

definition same_table :: "DB \<Rightarrow> DB \<Rightarrow> bool" where
  "same_table db db' \<longleftrightarrow> db_wf db' \<and> dbName db' = dbName db \<and> tl (dbFields db') = tl (dbFields db)"

lemma spec_add_table: "(rc, t') = spec_add now t k vs \<Longrightarrow> t_name t' = t_name t \<and> t_fields t' = t_fields t"
  by (auto simp: spec_add_eq split: if_splits prod.splits)

lemma add_row_same_table:
  assumes "db_wf db" "row_ok (tl (dbFields db)) vs"
  shows "\<exists>rc db'. db_add_row now db k vs = Some (rc, db') \<and> same_table db db'"
proof -
  obtain rc db' where add: "db_add_row now db k vs = Some (rc, db')" "db_wf db'"
    "(rc, abs_db db') = spec_add now (abs_db db) k (abs_vals (tl (dbFields db)) vs)"
    using db_add_row_refines [of db vs now k] assms by (auto simp: db_wf_def)
  with spec_add_table [OF add(3)] show ?thesis by (auto simp: same_table_def abs_db_def)
qed

lemma set_timestamps_same_table: "same_table db db1 \<Longrightarrow> same_table db (snd (db_set_row_timestamps db1 k c u))"
  using db_set_row_timestamps_wf [of db1 k c u]
  by (auto simp: same_table_def db_set_row_timestamps_def split: option.splits)

lemma load_row_safe:
  assumes db: "db_wf db"
  shows "\<exists>db' r. load_row now db s = Some (db', r) \<and> same_table db db'"
proof (cases "do { (key, r) \<leftarrow> read_i32 s; (vs, r') \<leftarrow> read_row_values (drop 1 (dbFields db)) r; Some (key, vs, r') }")
  case None
  with db show ?thesis by (simp add: load_row_def same_table_def)
next
  case (Some x)
  obtain key vs r where x: "x = (key, vs, r)" by (cases x)
  with Some have vs: "row_ok (tl (dbFields db)) vs"
    by (auto simp: drop_Suc split: bind_splits dest: read_row_values_ok)
  obtain rc db1 where add: "db_add_row now db key vs = Some (rc, db1)" "same_table db db1"
    using add_row_same_table [OF db vs] by blast
  have "load_row now db s =
      (if rc \<noteq> 0 then Some (db1, None)
       else case do { (c, r') \<leftarrow> read_i64 r; (u, r'') \<leftarrow> read_i64 r'; Some (c, u, r'') } of
              None \<Rightarrow> Some (db1, None)
            | Some (c, u, r') \<Rightarrow> Some (snd (db_set_row_timestamps db1 key c u), Some r'))"
    unfolding load_row_def Some x by (simp add: add(1) free_pending_values_def free_values_ok [OF vs] drop_Suc)
  then show ?thesis
    using add(2) set_timestamps_same_table [OF add(2)] by (auto split: option.splits)
qed

lemma load_rows_safe:
  "db_wf db \<Longrightarrow> \<exists>db' r. load_rows now n db s = Some (db', r) \<and> same_table db db'"
proof (induction n arbitrary: db s)
  case 0
  then show ?case by (simp add: same_table_def)
next
  case (Suc n)
  obtain db1 r where 1: "load_row now db s = Some (db1, r)" "same_table db db1"
    using load_row_safe [OF Suc.prems] by blast
  show ?case
  proof (cases r)
    case None
    with 1 show ?thesis by simp
  next
    case (Some t)
    with 1 Suc.IH [of db1 t] show ?thesis by (auto simp: same_table_def)
  qed
qed

definition tables_ok :: "DB list \<Rightarrow> bool" where
  "tables_ok dbs \<longleftrightarrow> list_all db_wf dbs \<and> distinct (map dbName dbs) \<and> length dbs \<le> MAX_DB_COUNT"

lemma load_db_safe:
  assumes dbs: "tables_ok dbs"
  shows "\<exists>dbs' r. load_db now dbs s = Some (dbs', r) \<and> tables_ok dbs'"
proof (cases "load_schema s")
  case None
  with dbs show ?thesis by (simp add: load_db_def)
next
  case (Some x)
  note schema = this
  obtain name n fs r where x: "x = ((name, n, fs), r)" by (cases x) auto
  have fs: "fs \<noteq> []"
    using Some x by (auto simp: load_schema_def split: bind_splits if_splits dest!: read_field_definitions_length)
      (auto simp: unat_eq_0)
  show ?thesis
  proof (cases "create_loaded name n fs")
    case None
    with dbs Some x show ?thesis by (simp add: load_db_def)
  next
    case (Some db)
    then have db: "db_wf db" using db_create_ok [OF fs, of name] by (auto simp: create_loaded_def split: if_splits)
    obtain rc dbs' where add: "add_db dbs db = (rc, dbs')" by fastforce
    have ok: "rc = 0 \<Longrightarrow> dbs' = db # dbs \<and> tables_ok (db # dbs)"
      using add dbs db by (auto simp: add_db_def tables_ok_def find_db_None split: if_splits)
    have "\<exists>db' r'. load_rows now m db t = Some (db', r') \<and> tables_ok (db' # dbs)" if "rc = 0" for m t
      using load_rows_safe [OF db, of now m t] ok [OF that] by (auto simp: tables_ok_def same_table_def)
    then have "\<exists>dbs'' r'. (do { (db', r'') \<leftarrow> load_rows now m db t; Some (put_db dbs' (dbName db) db', r'') }) = Some (dbs'', r') \<and>
        tables_ok dbs''" if "rc = 0" for m t
      using ok [OF that] that by (metis (no_types, lifting) bind.bind_lunit case_prod_conv put_db.simps(2))
    moreover have "load_db now dbs s =
        (if rc \<noteq> 0 then Some (dbs, None)
         else case read_u32 r of
                None \<Rightarrow> Some (dbs', None)
              | Some (m, t) \<Rightarrow> do { (db', r'') \<leftarrow> load_rows now (unat m) db t; Some (put_db dbs' (dbName db) db', r'') })"
      using schema x Some add db db_free_ok [of db] by (simp add: load_db_def db_wf_def)
    ultimately show ?thesis
      using ok dbs by (auto split: option.splits)
  qed
qed

lemma load_dbs_safe: "tables_ok dbs \<Longrightarrow> \<exists>dbs' r. load_dbs now n dbs s = Some (dbs', r) \<and> tables_ok dbs'"
proof (induction n arbitrary: dbs s)
  case (Suc n)
  obtain dbs1 r where 1: "load_db now dbs s = Some (dbs1, r)" "tables_ok dbs1"
    using load_db_safe [OF Suc.prems] by blast
  with Suc.IH [OF 1(2)] show ?case by (cases r) auto
qed simp

definition keys_bounded :: "AuthStore \<Rightarrow> bool" where
  "keys_bounded a \<longleftrightarrow> length (keys a) \<le> AUTH_MAX_KEYS \<and> list_all (\<lambda>k. length (keyName k) < AUTH_KEY_NAME_MAX) (keys a)"

lemma length_c_string: "length (c_string s) \<le> length s"
  by (simp add: c_string_def length_takeWhile_le)

lemma read_key_short: "read_key strbytes s = Some (k, r) \<Longrightarrow> length (keyName k) < AUTH_KEY_NAME_MAX"
  by (auto simp: read_key_def fread_def split: bind_splits if_splits intro!: le_less_trans [OF length_c_string])

lemma load_keys_bounded:
  "load_keys strbytes n ks s = (ks', r) \<Longrightarrow> list_all (\<lambda>k. length (keyName k) < AUTH_KEY_NAME_MAX) ks \<Longrightarrow>
   length ks' \<le> length ks + n \<and> list_all (\<lambda>k. length (keyName k) < AUTH_KEY_NAME_MAX) ks'"
proof (induction n arbitrary: ks s)
  case (Suc n)
  then show ?case
    by (cases "read_key strbytes s") (fastforce dest: read_key_short)+
qed simp

lemma drop_tables_ok: "list_all db_wf (storage st) \<Longrightarrow> drop_tables st = Some (-1, st\<lparr>storage := []\<rparr>)"
proof -
  have "free_db_storage dbs = Some []" if "list_all db_wf dbs" for dbs
    using that by (induction dbs) (auto simp: db_wf_def db_free_ok)
  then show "list_all db_wf (storage st) \<Longrightarrow> drop_tables st = Some (-1, st\<lparr>storage := []\<rparr>)"
    by (simp add: drop_tables_def)
qed

text \<open>What a load leaves behind: status 0 with the tables of the file, or -1 with no tables.\<close>

definition loaded :: "int \<Rightarrow> Store \<Rightarrow> bool" where
  "loaded rc st \<longleftrightarrow> (rc = 0 \<or> rc = -1 \<and> storage st = []) \<and> tables_ok (storage st) \<and> keys_bounded (g_auth_store st)"

lemma load_auth_safe:
  assumes "tables_ok (storage st)"
  shows "\<exists>rc st'. load_auth strbytes st s = Some (rc, st') \<and> loaded rc st'"
proof -
  have drop: "drop_tables (st\<lparr>g_auth_store := a\<rparr>) = Some (-1, st\<lparr>g_auth_store := a, storage := []\<rparr>)" for a
    using assms drop_tables_ok [of "st\<lparr>g_auth_store := a\<rparr>"] by (simp add: tables_ok_def)
  show ?thesis
  proof (cases "read_u32 s")
    case None
    then show ?thesis by (simp add: load_auth_def drop loaded_def tables_ok_def keys_bounded_def auth_store_init_def)
  next
    case (Some x)
    obtain n r where x: "x = (n, r)" by (cases x)
    obtain ks rest where ks: "load_keys strbytes (unat n) [] r = (ks, rest)" by fastforce
    have "keys_bounded \<lparr>keys = ks\<rparr>" if "unat n \<le> AUTH_MAX_KEYS"
      using load_keys_bounded [OF ks] that by (simp add: keys_bounded_def)
    then show ?thesis
      using assms Some x ks
      by (cases rest) (auto simp: load_auth_def drop loaded_def tables_ok_def keys_bounded_def auth_store_init_def Let_def)
  qed
qed

lemma load_snapshot_safe:
  assumes st: "tables_ok (storage st)" "keys_bounded (g_auth_store st)"
  shows "\<exists>rc st'. load_snapshot strbytes now st s = Some (rc, st') \<and> (st' = st \<and> (rc = 0 \<or> rc = -1) \<or> loaded rc st')"
proof (cases "do { (magic, r) \<leftarrow> fread SNAPSHOT_MAGIC_SIZE s; if magic \<noteq> SNAPSHOT_MAGIC then None else read_u32 r }")
  case None
  then show ?thesis by (simp add: load_snapshot_def)
next
  case (Some x)
  obtain v r where x: "x = (v, r)" by (cases x)
  show ?thesis
  proof (cases "v = SNAPSHOT_VERSION")
    case False
    with Some x show ?thesis by (simp add: load_snapshot_def)
  next
    case v: True
    show ?thesis
    proof (cases "read_u32 r")
      case None
      with Some x v show ?thesis by (simp add: load_snapshot_def)
    next
      case n: (Some y)
      obtain n r' where y: "y = (n, r')" by (cases y)
      obtain dbs rest where dbs: "load_dbs now (unat n) (storage st) r' = Some (dbs, rest)" "tables_ok dbs"
        using load_dbs_safe [OF st(1)] by blast
      have "load_snapshot strbytes now st s =
          (case rest of None \<Rightarrow> drop_tables (st\<lparr>storage := dbs\<rparr>) | Some t \<Rightarrow> load_auth strbytes (st\<lparr>storage := dbs\<rparr>) t)"
        unfolding load_snapshot_def Some x using n y v dbs(1) by (simp add: Let_def)
      moreover have "\<exists>rc st'. load_auth strbytes (st\<lparr>storage := dbs\<rparr>) t = Some (rc, st') \<and> loaded rc st'" for t
        using dbs(2) by (intro load_auth_safe) simp
      moreover have "drop_tables (st\<lparr>storage := dbs\<rparr>) = Some (-1, st\<lparr>storage := []\<rparr>)" "loaded (-1) (st\<lparr>storage := []\<rparr>)"
        using dbs(2) st(2) drop_tables_ok [of "st\<lparr>storage := dbs\<rparr>"] by (auto simp: loaded_def tables_ok_def)
      ultimately show ?thesis by (cases rest) (simp, simp, blast)
    qed
  qed
qed

subsection \<open>Restored stores\<close>

lemma restored_find:
  "list_all2 restores ds dbs \<Longrightarrow> map_option abs_db (find_db dbs n) = map_option restored_db (find_db ds n)"
  by (induction rule: list_all2_induct) (auto simp: restores_def)

lemma find_db_rev: "distinct (map dbName dbs) \<Longrightarrow> find_db (rev dbs) n = find_db dbs n"
proof -
  assume d: "distinct (map dbName dbs)"
  have eq: "find_db dbs n = map_of (map (\<lambda>d. (dbName d, d)) dbs) n" for dbs by (induction dbs) auto
  have "map_of (rev (map (\<lambda>d. (dbName d, d)) dbs)) = map_of (map (\<lambda>d. (dbName d, d)) dbs)"
    using d by (intro map_of_mset_cong) (simp_all add: comp_def rev_map [symmetric])
  then show ?thesis by (simp add: eq rev_map)
qed

lemma restored_store_ok:
  assumes st: "store_saved strbytes st" and r: "restored_store st st'"
  shows "store_wf st'" "tables st' n = map_option restored_db (find_db (storage st) n)"
proof -
  have names: "map dbName (storage st') = rev (map dbName (storage st))"
    using r restores_names [of "rev (storage st)" "storage st'"] by (simp add: restored_store_def rev_map)
  have "list_all db_wf (storage st')"
    using r by (auto simp: restored_store_def list_all2_conv_all_nth list_all_length restores_def)
  moreover have "length (storage st') = length (storage st)" using r by (auto simp: restored_store_def dest: list_all2_lengthD)
  ultimately show "store_wf st'" using st r names by (simp add: store_ok_def store_saved_def restored_store_def)
  show "tables st' n = map_option restored_db (find_db (storage st) n)"
    using r st restored_find [of "rev (storage st)" "storage st'" n] find_db_rev [of "storage st" n]
    by (simp add: tables_def restored_store_def store_saved_def store_ok_def)
qed

text \<open>Saving writes these bytes when the device has the room.\<close>

definition save_left :: "Disk \<Rightarrow> int \<Rightarrow> string \<Rightarrow> string option" where
  "save_left disk rc bs =
    (if remove_ok disk then None
     else Some (if close_ok disk \<and> (rc \<noteq> 0 \<or> flush_ok disk) then bs else take (reached disk) bs))"

lemma persistence_save_all_run:
  "persistence_save_all strbytes disk p st fs =
    (if length (tmp_path (effective_path p)) \<ge> 512 \<or> \<not> open_ok disk then Some (-1, fs)
     else do { (rc, f) \<leftarrow> write_snapshot strbytes st \<lparr>written = [], space_left = disk_room disk\<rparr>;
               if rc \<noteq> 0 \<or> \<not> flush_ok disk \<or> \<not> close_ok disk \<or> \<not> rename_ok disk
               then Some (-1, fs(tmp_path (effective_path p) := save_left disk rc (written f)))
               else Some (0, fs(tmp_path (effective_path p) := None, effective_path p \<mapsto> written f)) })"
proof (cases "write_snapshot strbytes st \<lparr>written = [], space_left = disk_room disk\<rparr>")
  case None
  then show ?thesis by (simp add: persistence_save_all_def sys_fopen_def Let_def)
next
  case (Some x)
  obtain rc f where "x = (rc, f)" by fastforce
  with Some show ?thesis
    using tmp_path_other [of "effective_path p"]
    by (simp add: persistence_save_all_def sys_fopen_def sys_fflush_def sys_fclose_def sys_rename_def sys_remove_def
        append_file_def save_left_def Let_def fun_upd_twist)
qed

lemma save_outcome:
  assumes "list_all db_safe (storage st)"
  obtains rc f where "write_snapshot strbytes st \<lparr>written = [], space_left = disk_room disk\<rparr> = Some (rc, f)"
    "\<And>p fs. persistence_save_all strbytes disk p st fs =
       (if length (tmp_path (effective_path p)) \<ge> 512 \<or> \<not> open_ok disk then Some (-1, fs)
        else if rc \<noteq> 0 \<or> \<not> flush_ok disk \<or> \<not> close_ok disk \<or> \<not> rename_ok disk
             then Some (-1, fs(tmp_path (effective_path p) := save_left disk rc (written f)))
        else Some (0, fs(tmp_path (effective_path p) := None, effective_path p \<mapsto> written f)))"
proof -
  obtain rc f where "write_snapshot strbytes st \<lparr>written = [], space_left = disk_room disk\<rparr> = Some (rc, f)"
    using answers_snapshot [OF assms, of strbytes] unfolding answers_def by blast
  with that show ?thesis by (simp add: persistence_save_all_run)
qed

text \<open>What a snapshot that was saved with success holds.\<close>

lemma saved_bytes:
  assumes st: "store_saved strbytes st" and save: "persistence_save_all strbytes disk p st fs = Some (0, fs')"
    and w: "writes (write_snapshot strbytes st) bs"
  shows "fs' (effective_path p) = Some bs"
proof -
  have "list_all db_safe (storage st)" using st by (simp add: store_saved_def store_ok_def)
  then obtain rc f where f: "write_snapshot strbytes st \<lparr>written = [], space_left = disk_room disk\<rparr> = Some (rc, f)"
    "persistence_save_all strbytes disk p st fs =
       (if length (tmp_path (effective_path p)) \<ge> 512 \<or> \<not> open_ok disk then Some (-1, fs)
        else if rc \<noteq> 0 \<or> \<not> flush_ok disk \<or> \<not> close_ok disk \<or> \<not> rename_ok disk
             then Some (-1, fs(tmp_path (effective_path p) := save_left disk rc (written f)))
        else Some (0, fs(tmp_path (effective_path p) := None, effective_path p \<mapsto> written f)))"
    by (rule save_outcome) blast
  have "rc = 0" "fs' (effective_path p) = Some (written f)" using save f(2) by (auto split: if_splits)
  moreover have "written f = bs" if "rc = 0"
    using w f(1) that unfolding writes_def by (drule_tac x = "\<lparr>written = [], space_left = disk_room disk\<rparr>" in spec) (auto split: if_splits)
  ultimately show ?thesis by simp
qed

lemma restored_from_save:
  assumes st: "store_saved strbytes st" and save: "persistence_save_all strbytes disk p st fs = Some (0, fs')"
    and st0: "storage st0 = []"
  shows "\<exists>st'. persistence_load_all strbytes now True p fs' st0 = Some (0, st') \<and> restored_store st st'"
proof -
  obtain bs where bs: "writes (write_snapshot strbytes st) bs"
    "\<And>st0. storage st0 = [] \<Longrightarrow> \<exists>st'. load_snapshot strbytes now st0 bs = Some (0, st') \<and> restored_store st st'"
    using snapshot_round_trip [OF st] by blast
  with saved_bytes [OF st save bs(1)] st0 show ?thesis by (simp add: persistence_load_all_def)
qed

definition disk_ok :: "nat \<Rightarrow> Disk \<Rightarrow> bool" where
  "disk_ok n disk \<longleftrightarrow> open_ok disk \<and> flush_ok disk \<and> close_ok disk \<and> rename_ok disk \<and> n \<le> disk_room disk"

lemma save_with_room:
  assumes st: "store_saved strbytes st" and p: "length (tmp_path (effective_path p)) < 512"
  shows "\<exists>n. \<forall>disk fs. disk_ok n disk \<longrightarrow> (\<exists>fs'. persistence_save_all strbytes disk p st fs = Some (0, fs'))"
proof -
  obtain bs where bs: "writes (write_snapshot strbytes st) bs" using snapshot_round_trip [OF st] by blast
  have "\<exists>fs'. persistence_save_all strbytes disk p st fs = Some (0, fs')" if "disk_ok (length bs) disk" for disk fs
    using that p bs unfolding writes_def
    by (drule_tac x = "\<lparr>written = [], space_left = disk_room disk\<rparr>" in spec)
      (auto simp: disk_ok_def persistence_save_all_run split: if_splits)
  then show ?thesis by blast
qed

subsection \<open>The key counter after a restart\<close>

lemma restored_next_aux:
  assumes "0 < sint n" "sint n < 2 ^ 31" "\<forall>k \<in> set ks. 0 \<le> sint k \<and> sint k < 2 ^ 31 - 1"
  shows "let m = fold (\<lambda>k n. snd (choose_key n k)) ks n in
    sint n \<le> sint m \<and> (\<forall>k \<in> set ks. sint k < sint m) \<and> (sint m = sint n \<or> (\<exists>k \<in> set ks. sint m = sint k + 1))"
  using assms
proof (induction ks arbitrary: n)
  case (Cons k ks)
  let ?n = "snd (choose_key n k)"
  have n: "0 < sint ?n" "sint ?n < 2 ^ 31" "sint n \<le> sint ?n" "sint k < sint ?n" "sint ?n = sint n \<or> sint ?n = sint k + 1"
    using Cons.prems sint_cint_inc [of k] by (auto simp: choose_key_def)
  from Cons.IH [of ?n] n Cons.prems show ?case by (fastforce simp: Let_def)
qed (simp add: Let_def)

lemma restored_keys_below:
  assumes d: "db_saved d" "\<And>r. r \<in> set (db_rows d) \<Longrightarrow> sint (row_key r) < 2 ^ 31 - 1" and r: "restores d db"
  shows "keys_below db"
proof -
  let ?ks = "map row_key (db_rows d)"
  have rows: "t_rows (abs_db db) = map_of (map (row_assoc d) (db_rows d))" "nextKey db = restored_next ?ks"
    using r d(1) abs_rows_assoc [of d] abs_db_counts [of db] by (auto simp: restores_def restored_db_def db_saved_def)
  have keys: "\<forall>k \<in> set ?ks. 0 \<le> sint k \<and> sint k < 2 ^ 31 - 1"
    using d by (auto simp: db_saved_def list_all_iff row_saved_def)
  have n: "0 < sint (nextKey db)" "\<forall>k \<in> set ?ks. sint k < sint (nextKey db)"
    using restored_next_aux [of 1, OF _ _ keys] by (simp_all add: rows(2) restored_next_def Let_def)
  have "k \<in> set ?ks" if "find_row db k \<noteq> None" for k
  proof -
    have "t_rows (abs_db db) k \<noteq> None" using that by (simp add: abs_db_def)
    then show ?thesis by (auto simp: rows(1) row_assoc_def dest!: map_of_SomeD)
  qed
  with n keys show ?thesis unfolding keys_below_def by blast
qed

lemma restored_store_keys_below:
  assumes st: "store_saved strbytes st" and r: "restored_store st st'"
    and small: "list_all (\<lambda>db. list_all (\<lambda>r. sint (row_key r) < 2 ^ 31 - 1) (db_rows db)) (storage st)"
  shows "list_all keys_below (storage st')"
  unfolding list_all_length
proof (intro allI impI)
  fix i
  assume i: "i < length (storage st')"
  let ?d = "rev (storage st) ! i"
  have all: "list_all2 restores (rev (storage st)) (storage st')" using r by (simp add: restored_store_def)
  then have "restores ?d (storage st' ! i)" using i by (simp add: list_all2_conv_all_nth)
  moreover have "?d \<in> set (rev (storage st))" using i list_all2_lengthD [OF all] by (intro nth_mem) simp
  ultimately show "keys_below (storage st' ! i)"
    using st small by (intro restored_keys_below) (auto simp: store_saved_def list_all_iff)
qed

subsection \<open>Properties\<close>

lemma demo_row_saved: "row_saved demo_db1 (new_row 100 7 demo_values)"
  by (simp add: row_saved_def new_row_def keyed_def row_key_def demo_db1_ok row_fits_def demo_fields_def demo_values_def value_fits_def
      scalar_fits_def scalar_ok_def data_ok_def array_ok_def string_fits_def nul_free_def arr_list_def limits)

lemma demo_saved: "store_saved 6 demo_store"
proof -
  have "dbFields demo_db1 = key_field # demo_fields"
    using demo_db1_ok(2,3) by (auto simp: db_safe_def)
  then have "db_saved demo_db1"
    using demo_db1_ok demo_name demo_rows demo_row_saved
    by (simp add: new_row_def db_saved_def name_fits_def nul_free_def field_fits_def demo_fields_def limits)
  then show ?thesis
    using demo_store_ok
    by (simp add: store_saved_def demo_store_def demo_keys_def key_fits_def name_fits_def nul_free_def auth_limits)
qed

definition empty_store :: Store where
  "empty_store = \<lparr>storage = [], g_auth_store = auth_store_init\<rparr>"

lemma demo_path: "length (tmp_path (effective_path None)) < 512"
  by (simp add: tmp_path_def effective_path_def DEFAULT_SNAPSHOT_def)

lemma demo_disk: "\<exists>disk fs'. persistence_save_all 6 disk None demo_store Map.empty = Some (0, fs')"
proof -
  obtain n where "\<forall>disk fs. disk_ok n disk \<longrightarrow> (\<exists>fs'. persistence_save_all 6 disk None demo_store fs = Some (0, fs'))"
    using save_with_room [OF demo_saved demo_path] by blast
  moreover have "disk_ok n \<lparr>open_ok = True, disk_room = n, flush_ok = True, close_ok = True, rename_ok = True, remove_ok = True, reached = 0\<rparr>"
    by (simp add: disk_ok_def)
  ultimately show ?thesis by blast
qed

text \<open>
  C6. A store that was saved with success is restored by loading the file into an empty store: every table
  has its name, fields, rows and timestamps back, all keys keep their tokens and roles, and the restored
  store is well-formed. Only the key counter of a table is computed anew from its keys, and no index is
  enabled. This holds for stores whose strings fit their buffers and whose row keys are not negative.
\<close>

theorem saved_store_is_restored:
  assumes "store_saved strbytes st" "persistence_save_all strbytes disk p st fs = Some (0, fs')" "storage st0 = []"
  shows "\<exists>st'. persistence_load_all strbytes now True p fs' st0 = Some (0, st') \<and> store_wf st' \<and>
    g_auth_store st' = g_auth_store st \<and> (\<forall>n. tables st' n = map_option restored_db (find_db (storage st) n))"
  using restored_from_save [OF assms] restored_store_ok [OF assms(1)] unfolding restored_store_def by blast

theorem saved_store_is_restored_witness:
  "\<exists>disk fs' st'. store_saved 6 demo_store \<and> persistence_save_all 6 disk None demo_store Map.empty = Some (0, fs') \<and>
    persistence_load_all 6 200 True None fs' empty_store = Some (0, st') \<and> tables st' ''t'' = Some (restored_db demo_db1)"
proof -
  obtain disk fs' where save: "persistence_save_all 6 disk None demo_store Map.empty = Some (0, fs')"
    using demo_disk by blast
  from saved_store_is_restored [OF demo_saved this, of empty_store 200] save demo_saved demo_store_ok(3)
  show ?thesis by (fastforce simp: empty_store_def)
qed

text \<open>
  C7. Saving is atomic: whatever fails on the way (opening, running out of room, flushing, closing, renaming),
  and however much of the temporary file is lost then, the file under the snapshot's path is either the
  complete new snapshot, with status 0 and after all calls have succeeded, or untouched, with status -1. No
  other file is changed but the temporary one, which is gone afterwards if it was opened and can be removed.
\<close>

theorem save_is_atomic:
  assumes "list_all db_safe (storage st)"
  shows "\<exists>rc fs'. persistence_save_all strbytes disk p st fs = Some (rc, fs') \<and>
    (rc = 0 \<and> open_ok disk \<and> flush_ok disk \<and> close_ok disk \<and> rename_ok disk \<and>
       (\<exists>f. write_snapshot strbytes st \<lparr>written = [], space_left = disk_room disk\<rparr> = Some (0, f) \<and>
         fs' (effective_path p) = Some (written f)) \<or>
     rc = -1 \<and> fs' (effective_path p) = fs (effective_path p)) \<and>
    (\<forall>q. q \<noteq> effective_path p \<and> q \<noteq> tmp_path (effective_path p) \<longrightarrow> fs' q = fs q) \<and>
    (open_ok disk \<and> remove_ok disk \<and> length (tmp_path (effective_path p)) < 512 \<longrightarrow> fs' (tmp_path (effective_path p)) = None)"
proof -
  obtain rc f where "write_snapshot strbytes st \<lparr>written = [], space_left = disk_room disk\<rparr> = Some (rc, f)"
    "persistence_save_all strbytes disk p st fs =
       (if length (tmp_path (effective_path p)) \<ge> 512 \<or> \<not> open_ok disk then Some (-1, fs)
        else if rc \<noteq> 0 \<or> \<not> flush_ok disk \<or> \<not> close_ok disk \<or> \<not> rename_ok disk
             then Some (-1, fs(tmp_path (effective_path p) := save_left disk rc (written f)))
        else Some (0, fs(tmp_path (effective_path p) := None, effective_path p \<mapsto> written f)))"
    using assms by (rule save_outcome) blast
  then show ?thesis using tmp_path_other [of "effective_path p"] by (auto simp: save_left_def)
qed

text \<open>A device that loses the rest of the snapshot when it is flushed.\<close>

definition failing_disk :: Disk where
  "failing_disk = \<lparr>open_ok = True, disk_room = 10000, flush_ok = False, close_ok = True, rename_ok = True, remove_ok = True, reached = 20\<rparr>"

theorem save_is_atomic_witness:
  "\<exists>fs'. persistence_save_all 6 failing_disk None demo_store [DEFAULT_SNAPSHOT \<mapsto> ''old''] = Some (-1, fs') \<and>
     fs' DEFAULT_SNAPSHOT = Some ''old'' \<and> fs' (tmp_path DEFAULT_SNAPSHOT) = None"
proof -
  have "list_all db_safe (storage demo_store)" using demo_store_ok(2) by (simp add: store_ok_def)
  moreover have "length (tmp_path (effective_path None)) < 512" by (rule demo_path)
  ultimately show ?thesis
    using save_is_atomic [of demo_store 6 failing_disk None "[DEFAULT_SNAPSHOT \<mapsto> ''old'']"]
    by (auto simp: effective_path_def failing_disk_def)
qed

text \<open>
  Saving succeeds when it can: for a store a snapshot can hold there is a size such that every device
  on which the system calls succeed and that has this much room gets a snapshot with status 0.
\<close>

theorem save_succeeds_with_room:
  assumes "store_saved strbytes st" "length (tmp_path (effective_path p)) < 512"
  shows "\<exists>n. \<forall>disk fs. disk_ok n disk \<longrightarrow> (\<exists>fs'. persistence_save_all strbytes disk p st fs = Some (0, fs'))"
  by (rule save_with_room [OF assms])

theorem save_succeeds_with_room_witness:
  "store_saved 6 demo_store \<and> length (tmp_path (effective_path None)) < 512 \<and>
   (\<exists>disk fs'. persistence_save_all 6 disk None demo_store Map.empty = Some (0, fs'))"
proof -
  obtain n where "\<forall>disk fs. disk_ok n disk \<longrightarrow> (\<exists>fs'. persistence_save_all 6 disk None demo_store fs = Some (0, fs'))"
    using save_succeeds_with_room [OF demo_saved demo_path] by blast
  moreover have "disk_ok n \<lparr>open_ok = True, disk_room = n, flush_ok = True, close_ok = True, rename_ok = True, remove_ok = True, reached = 0\<rparr>"
    by (simp add: disk_ok_def)
  ultimately show ?thesis using demo_saved demo_path by blast
qed

text \<open>
  C25. Loading any file whatsoever, damaged or hostile, into an empty store is defined behaviour: it ends with
  status 0 or -1, every table it leaves is well-formed, at most 64 tables and 64 keys come out of it, and
  after -1 there is no table (keys that were read before the failure stay).
\<close>

theorem any_file_loads_safely:
  assumes "storage st = []" "keys_bounded (g_auth_store st)"
  shows "\<exists>rc st'. persistence_load_all strbytes now readable p fs st = Some (rc, st') \<and> loaded rc st'"
proof -
  have "loaded 0 st" "loaded (-1) st" using assms by (simp_all add: loaded_def tables_ok_def)
  then show ?thesis
    using load_snapshot_safe [of st strbytes now] assms
    by (fastforce simp: persistence_load_all_def tables_ok_def split: option.splits)
qed

theorem any_file_loads_safely_witness:
  "storage empty_store = [] \<and> keys_bounded (g_auth_store empty_store) \<and>
   (\<exists>rc st'. persistence_load_all 6 0 True None [DEFAULT_SNAPSHOT \<mapsto> ''PDBSNAP junk''] empty_store = Some (rc, st') \<and> loaded rc st')"
proof -
  have e: "storage empty_store = []" "keys_bounded (g_auth_store empty_store)"
    by (simp_all add: empty_store_def keys_bounded_def auth_store_init_def)
  from any_file_loads_safely [OF e, of 6 0 True None "[DEFAULT_SNAPSHOT \<mapsto> ''PDBSNAP junk'']"] e
  show ?thesis by blast
qed

text \<open>
  A snapshot of another format version is not an error: loading it reports success and leaves the store
  as it was, so that the server starts empty.
\<close>

theorem other_version_is_discarded:
  assumes "fs (effective_path p) = Some (SNAPSHOT_MAGIC @ le_bytes 4 (unat v) @ rest)" "v \<noteq> SNAPSHOT_VERSION"
  shows "persistence_load_all strbytes now True p fs st = Some (0, st)"
  using assms decodes_u32 [of v]
  by (simp add: persistence_load_all_def load_snapshot_def fread_magic decodes_def)

theorem other_version_is_discarded_witness:
  "persistence_load_all 6 0 True None [DEFAULT_SNAPSHOT \<mapsto> SNAPSHOT_MAGIC @ le_bytes 4 (unat (2 :: 32 word)) @ ''data''] demo_store =
     Some (0, demo_store)"
  by (rule other_version_is_discarded [of _ _ 2 "''data''"]) (simp_all add: effective_path_def SNAPSHOT_VERSION_def)

text \<open>
  C28. After a restart automatic keys are fresh again: as long as no row has the largest key, the recomputed
  counter of every restored table is positive and above all of its keys.
\<close>

theorem restored_counters_are_fresh:
  assumes "store_saved strbytes st" "persistence_save_all strbytes disk p st fs = Some (0, fs')" "storage st0 = []"
    "list_all (\<lambda>db. list_all (\<lambda>r. sint (row_key r) < 2 ^ 31 - 1) (db_rows db)) (storage st)"
  shows "\<exists>st'. persistence_load_all strbytes now True p fs' st0 = Some (0, st') \<and> list_all keys_below (storage st')"
  using restored_from_save [OF assms(1-3)] restored_store_keys_below [OF assms(1) _ assms(4)] by blast

theorem restored_counters_are_fresh_witness:
  "\<exists>disk fs' st'. persistence_save_all 6 disk None demo_store Map.empty = Some (0, fs') \<and>
    persistence_load_all 6 200 True None fs' empty_store = Some (0, st') \<and> list_all keys_below (storage st')"
proof -
  obtain disk fs' where save: "persistence_save_all 6 disk None demo_store Map.empty = Some (0, fs')"
    using demo_disk by blast
  have "list_all (\<lambda>db. list_all (\<lambda>r. sint (row_key r) < 2 ^ 31 - 1) (db_rows db)) (storage demo_store)"
    by (simp add: demo_store_def demo_rows row_key_def)
  from restored_counters_are_fresh [OF demo_saved save _ this, of empty_store 200] save
  show ?thesis by (auto simp: empty_store_def)
qed

text \<open>
  The counter itself is not in the file. When the row with the largest key has been deleted, a restart
  makes its key available again: here the key 7 was handed out and deleted, the counter stood at 8, and
  after a restart it is back at 1.
\<close>

theorem restart_forgets_deleted_keys:
  "\<exists>db. db_delete_row demo_db1 7 = Some (0, db) \<and> nextKey db = 8 \<and> t_next (restored_db db) = 1"
proof -
  obtain rc db where d: "db_delete_row demo_db1 7 = Some (rc, db)" "(rc, abs_db db) = spec_delete (abs_db demo_db1) 7" "db_safe db"
    using db_delete_row_refines [OF demo_db1_ok(2), of 7] by blast
  then have a: "rc = 0" "abs_db db = (abs_db demo_db1)\<lparr>t_count := 0, t_rows := Map.empty\<rparr>"
    by (auto simp: spec_delete_def demo_db1_ok)
  then have "rowsCount db = 0" "nextKey db = 8" using demo_db1_ok(6) abs_db_counts [of db] by simp_all
  then have "db_rows db = []" using d(3) db_safeD(5,6) [OF d(3)] by simp
  with d(1) a(1) \<open>nextKey db = 8\<close> show ?thesis by (simp add: restored_db_def restored_next_def)
qed

end
