(* ===== verification/Log.thy ===== *)
theory Log
  imports Parser
begin

text \<open>
  Logging, \<open>src/utils/log.c\<close>, and the keyboard helper \<open>src/utils/stdin.c\<close>. The log is the list of lines
  written to \<open>stderr\<close>; the time of a line and the text that \<open>vfprintf\<close> makes of its arguments are given.
\<close>

subsection \<open>Levels\<close>

datatype LogLevel = LOG_SILENT | LOG_ERROR | LOG_WARN | LOG_INFO | LOG_DEBUG

fun log_level_num :: "LogLevel \<Rightarrow> nat" where
  "log_level_num LOG_SILENT = 0" | "log_level_num LOG_ERROR = 1" | "log_level_num LOG_WARN = 2"
| "log_level_num LOG_INFO = 3" | "log_level_num LOG_DEBUG = 4"

text \<open>Levels are compared by their numbers.\<close>

instantiation LogLevel :: linorder
begin

definition less_eq_LogLevel :: "LogLevel \<Rightarrow> LogLevel \<Rightarrow> bool" where
  "less_eq_LogLevel a b \<longleftrightarrow> log_level_num a \<le> log_level_num b"

definition less_LogLevel :: "LogLevel \<Rightarrow> LogLevel \<Rightarrow> bool" where
  "less_LogLevel a b \<longleftrightarrow> log_level_num a < log_level_num b"

instance
proof
  fix a b :: LogLevel
  show "a \<le> b \<Longrightarrow> b \<le> a \<Longrightarrow> a = b"
    by (cases a; cases b) (simp_all add: less_eq_LogLevel_def)
qed (auto simp: less_eq_LogLevel_def less_LogLevel_def)

end

definition log_level_from_string :: "string \<Rightarrow> LogLevel" where
  "log_level_from_string s =
    (if strcasecmp_eq s ''silent'' then LOG_SILENT
     else if strcasecmp_eq s ''error'' then LOG_ERROR
     else if strcasecmp_eq s ''warn'' then LOG_WARN
     else if strcasecmp_eq s ''info'' then LOG_INFO
     else if strcasecmp_eq s ''debug'' then LOG_DEBUG
     else LOG_INFO)"

fun log_level_to_string :: "LogLevel \<Rightarrow> string" where
  "log_level_to_string LOG_SILENT = ''silent''"
| "log_level_to_string LOG_ERROR = ''error''"
| "log_level_to_string LOG_WARN = ''warn''"
| "log_level_to_string LOG_INFO = ''info''"
| "log_level_to_string LOG_DEBUG = ''debug''"

fun level_tag :: "LogLevel \<Rightarrow> string" where
  "level_tag LOG_ERROR = ''ERROR''"
| "level_tag LOG_WARN = ''WARN ''"
| "level_tag LOG_INFO = ''INFO ''"
| "level_tag LOG_DEBUG = ''DEBUG''"
| "level_tag LOG_SILENT = ''?????''"

subsection \<open>Writing lines\<close>

record LogState =
  g_log_level :: LogLevel
  log_lines :: "string list"

definition log_init :: "LogLevel \<Rightarrow> LogState \<Rightarrow> LogState" where
  "log_init level st = st\<lparr>g_log_level := level\<rparr>"

definition log_set_level :: "LogLevel \<Rightarrow> LogState \<Rightarrow> LogState" where
  "log_set_level level st = st\<lparr>g_log_level := level\<rparr>"

definition log_line :: "LogLevel \<Rightarrow> string \<Rightarrow> string \<Rightarrow> string" where
  "log_line level timebuf msg = ''['' @ level_tag level @ ''] '' @ timebuf @ '' '' @ msg"

definition log_write :: "LogLevel \<Rightarrow> string \<Rightarrow> string \<Rightarrow> LogState \<Rightarrow> LogState" where
  "log_write level timebuf msg st =
    (if level > g_log_level st then st else st\<lparr>log_lines := log_lines st @ [log_line level timebuf msg]\<rparr>)"

definition log_error :: "string \<Rightarrow> string \<Rightarrow> LogState \<Rightarrow> LogState" where "log_error = log_write LOG_ERROR"
definition log_warn :: "string \<Rightarrow> string \<Rightarrow> LogState \<Rightarrow> LogState" where "log_warn = log_write LOG_WARN"
definition log_info :: "string \<Rightarrow> string \<Rightarrow> LogState \<Rightarrow> LogState" where "log_info = log_write LOG_INFO"
definition log_debug :: "string \<Rightarrow> string \<Rightarrow> LogState \<Rightarrow> LogState" where "log_debug = log_write LOG_DEBUG"

definition log_errno :: "string \<Rightarrow> string \<Rightarrow> string \<Rightarrow> LogState \<Rightarrow> LogState" where
  "log_errno timebuf msg err = log_error timebuf (msg @ '': '' @ err)"

subsection \<open>The keyboard helper\<close>

text \<open>The input is what is still to be read; at its end \<open>getchar\<close> returns \<open>EOF\<close>.\<close>

fun flush_stdin :: "string \<Rightarrow> string" where
  "flush_stdin [] = []"
| "flush_stdin (c # s) = (if c = CHR 0x0A then s else flush_stdin s)"

definition handle_stdin_input :: "string \<Rightarrow> int \<times> string" where
  "handle_stdin_input s =
    (case s of
       [] \<Rightarrow> (0, [])
     | c # s' \<Rightarrow> (if c = CHR ''q'' \<or> c = CHR ''Q'' then 1 else 0, flush_stdin s'))"

subsection \<open>Facts\<close>

lemma log_level_round_trip: "log_level_from_string (log_level_to_string l) = l"
  by (cases l) (simp_all add: log_level_from_string_def strcasecmp_eq_def to_lower_def isupper_def)

text \<open>
  The threshold: of the messages a part of the program logs, exactly those at or below the level appear,
  each as one line and in order; at level \<open>silent\<close> nothing appears.
\<close>

theorem log_keeps_what_the_level_allows:
  "log_lines (fold (\<lambda>(l, t, m). log_write l t m) ms st) =
     log_lines st @ map (\<lambda>(l, t, m). log_line l t m) (filter (\<lambda>(l, t, m). l \<le> g_log_level st) ms) \<and>
   g_log_level (fold (\<lambda>(l, t, m). log_write l t m) ms st) = g_log_level st"
  by (induction ms arbitrary: st) (auto simp: log_write_def not_less)

lemma flush_line: "CHR 0x0A \<notin> set l \<Longrightarrow> flush_stdin (l @ CHR 0x0A # rest) = rest"
  by (induction l) auto

text \<open>
  One line of the keyboard is read and asks to quit exactly if it begins with q. An empty line, however,
  swallows the line behind it.
\<close>

theorem keyboard_line_is_consumed:
  assumes "l \<noteq> []" "CHR 0x0A \<notin> set l"
  shows "handle_stdin_input (l @ CHR 0x0A # rest) = (if hd l \<in> {CHR ''q'', CHR ''Q''} then 1 else 0, rest)"
  using assms by (cases l) (auto simp: handle_stdin_input_def flush_line)

theorem empty_line_swallows_the_next:
  assumes "CHR 0x0A \<notin> set l"
  shows "handle_stdin_input (CHR 0x0A # l @ CHR 0x0A # rest) = (0, rest)"
  using assms by (simp add: handle_stdin_input_def flush_line)

end
