(* ===== verification/Config.thy ===== *)
theory Config
  imports Parser_Facts Log
begin

text \<open>
  Start-up settings: the number and string helpers of \<open>src/utils/parse.c\<close> and the configuration of
  \<open>src/config/runtime_config.c\<close>. \<open>strtol\<close>, \<open>strtoll\<close> and
  \<open>getopt_long\<close> are written out as far as the code uses them; inih's \<open>ini_parse\<close> is a parameter: the
  entries it hands to the handler and its return value, for each path. The program's arguments are the
  list behind \<open>argv[0]\<close>.
\<close>

subsection \<open>Numbers and strings\<close>

text \<open>Value, text behind the number, and whether \<open>errno\<close> is \<open>ERANGE\<close>; \<open>long\<close> and \<open>long long\<close> have 64 bits.\<close>

definition strtol :: "string \<Rightarrow> int \<times> string \<times> bool" where
  "strtol text =
    (let p = dropWhile isspace text;
         neg = (p \<noteq> [] \<and> hd p = CHR ''-'');
         q = (if p \<noteq> [] \<and> (hd p = CHR ''-'' \<or> hd p = CHR ''+'') then tl p else p);
         ds = takeWhile isdigit q;
         v = (if neg then - int (nat_of_digits 0 ds) else int (nat_of_digits 0 ds))
     in if ds = [] then (0, text, False)
        else if v < - (2 ^ 63) then (- (2 ^ 63), dropWhile isdigit q, True)
        else if v > 2 ^ 63 - 1 then (2 ^ 63 - 1, dropWhile isdigit q, True)
        else (v, dropWhile isdigit q, False))"

definition util_parse_int_in_range :: "string \<Rightarrow> int \<Rightarrow> int \<Rightarrow> int option" where
  "util_parse_int_in_range text mn mx =
    (if mn > mx then None
     else case strtol text of (v, rest, err) \<Rightarrow>
            if err \<or> text = [] \<or> rest \<noteq> [] then None
            else if v < mn \<or> v > mx then None
            else Some v)"

definition util_parse_positive_ll :: "string \<Rightarrow> int option" where
  "util_parse_positive_ll text =
    (case strtol text of (v, rest, err) \<Rightarrow>
       if err \<or> text = [] \<or> rest \<noteq> [] \<or> v \<le> 0 then None else Some v)"

definition util_parse_bool :: "string \<Rightarrow> int option" where
  "util_parse_bool text =
    (if strcasecmp_eq text ''1'' \<or> strcasecmp_eq text ''true'' \<or> strcasecmp_eq text ''yes'' \<or> strcasecmp_eq text ''on'' then Some 1
     else if strcasecmp_eq text ''0'' \<or> strcasecmp_eq text ''false'' \<or> strcasecmp_eq text ''no'' \<or> strcasecmp_eq text ''off'' then Some 0
     else None)"

definition util_copy_string :: "nat \<Rightarrow> string \<Rightarrow> string option" where
  "util_copy_string dstSize src = (if dstSize = 0 \<or> length src \<ge> dstSize then None else Some src)"

subsection \<open>The configuration\<close>

definition DEFAULT_PORT :: int where "DEFAULT_PORT = 3005"
definition DEFAULT_MAX_CONNECTIONS :: int where "DEFAULT_MAX_CONNECTIONS = 5"
definition DEFAULT_AUTOSAVE_INTERVAL_MS :: int where "DEFAULT_AUTOSAVE_INTERVAL_MS = 30000"
definition DEFAULT_SNAPSHOT_PATH :: string where "DEFAULT_SNAPSHOT_PATH = ''poudb.snapshot''"
definition RUNTIME_CONFIG_PATH_MAX :: nat where "RUNTIME_CONFIG_PATH_MAX = 512"
definition INT_MAX :: int where "INT_MAX = 2147483647"

lemmas config_limits = DEFAULT_PORT_def DEFAULT_MAX_CONNECTIONS_def DEFAULT_AUTOSAVE_INTERVAL_MS_def
  DEFAULT_SNAPSHOT_PATH_def RUNTIME_CONFIG_PATH_MAX_def INT_MAX_def

record RuntimeConfig =
  port :: int
  maxConnections :: int
  autosaveIntervalMs :: int
  autosaveEnabled :: int
  snapshotPath :: string
  logLevel :: LogLevel

definition default_config :: RuntimeConfig where
  "default_config = \<lparr>port = DEFAULT_PORT, maxConnections = DEFAULT_MAX_CONNECTIONS,
     autosaveIntervalMs = DEFAULT_AUTOSAVE_INTERVAL_MS, autosaveEnabled = 1,
     snapshotPath = DEFAULT_SNAPSHOT_PATH, logLevel = LOG_INFO\<rparr>"

definition config_path :: "string \<Rightarrow> string option" where
  "config_path v =
    (case util_copy_string RUNTIME_CONFIG_PATH_MAX v of
       None \<Rightarrow> None
     | Some p \<Rightarrow> if p = [] then None else Some p)"

text \<open>The path of the configuration file, empty when none is named; \<open>None\<close> is the error.\<close>

fun pre_scan_config_path :: "string \<Rightarrow> string list \<Rightarrow> string option" where
  "pre_scan_config_path outPath [] = Some outPath"
| "pre_scan_config_path outPath (arg # args) =
    (if arg = ''-f'' \<or> arg = ''--config''
     then case args of
            [] \<Rightarrow> None
          | v # args' \<Rightarrow> (case config_path v of None \<Rightarrow> None | Some p \<Rightarrow> pre_scan_config_path p args')
     else if take 9 arg = ''--config=''
     then case config_path (drop 9 arg) of None \<Rightarrow> None | Some p \<Rightarrow> pre_scan_config_path p args
     else pre_scan_config_path outPath args)"

text \<open>What \<open>ini_parse\<close> does with a file: the entries (section, name, value) and its return value.\<close>

record IniFile =
  ini_entries :: "(string \<times> string \<times> string) list"
  ini_rc :: int

text \<open>A setting that is parsed to \<open>r\<close>: stored by \<open>upd\<close>, or the error flag is raised.\<close>

definition ini_set :: "'a option \<Rightarrow> ('a \<Rightarrow> RuntimeConfig) \<Rightarrow> RuntimeConfig \<times> bool \<Rightarrow> RuntimeConfig \<times> bool" where
  "ini_set r upd ctx = (case r of None \<Rightarrow> (fst ctx, True) | Some v \<Rightarrow> (upd v, snd ctx))"

definition config_ini_handler :: "string \<times> string \<times> string \<Rightarrow> RuntimeConfig \<times> bool \<Rightarrow> RuntimeConfig \<times> bool" where
  "config_ini_handler entry ctx =
    (case entry of (sec, name, v) \<Rightarrow>
       let cfg = fst ctx in
       if sec = ''server'' \<and> name = ''port''
       then ini_set (util_parse_int_in_range v 1 65535) (\<lambda>n. cfg\<lparr>port := n\<rparr>) ctx
       else if sec = ''server'' \<and> name = ''max_connections''
       then ini_set (util_parse_int_in_range v 1 INT_MAX) (\<lambda>n. cfg\<lparr>maxConnections := n\<rparr>) ctx
       else if sec = ''storage'' \<and> name = ''snapshot_path''
       then (case util_copy_string RUNTIME_CONFIG_PATH_MAX v of
               None \<Rightarrow> (cfg, True)
             | Some p \<Rightarrow> (cfg\<lparr>snapshotPath := p\<rparr>, snd ctx \<or> p = []))
       else if sec = ''autosave'' \<and> name = ''enabled''
       then ini_set (util_parse_bool v) (\<lambda>n. cfg\<lparr>autosaveEnabled := n\<rparr>) ctx
       else if sec = ''autosave'' \<and> name = ''interval_ms''
       then ini_set (util_parse_positive_ll v) (\<lambda>n. cfg\<lparr>autosaveIntervalMs := n\<rparr>) ctx
       else if sec = ''logging'' \<and> name = ''level''
       then (cfg\<lparr>logLevel := log_level_from_string v\<rparr>, snd ctx)
       else ctx)"

definition load_config_file :: "(string \<Rightarrow> IniFile) \<Rightarrow> RuntimeConfig \<Rightarrow> string \<Rightarrow> int \<times> RuntimeConfig" where
  "load_config_file ini cfg configPath =
    (case fold config_ini_handler (ini_entries (ini configPath)) (cfg, False) of (cfg', err) \<Rightarrow>
       if ini_rc (ini configPath) \<noteq> 0 \<or> err then (-1, cfg') else (0, cfg'))"

subsection \<open>Command line options\<close>

datatype Opt = Opt char "string option" | BadOpt

text \<open>Whether a short option takes an argument, and the long options with their short ones.\<close>

definition short_option :: "char \<Rightarrow> bool option" where
  "short_option c = (if c = CHR ''h'' then Some False else if c \<in> set ''fpsimal'' then Some True else None)"

definition longOptions :: "(string \<times> char) list" where
  "longOptions = [(''help'', CHR ''h''), (''config'', CHR ''f''), (''port'', CHR ''p''), (''snapshot'', CHR ''s''),
     (''autosave-interval'', CHR ''i''), (''max-connections'', CHR ''m''), (''autosave'', CHR ''a''), (''log-level'', CHR ''l'')]"

text \<open>A long option is found by its name or by an unambiguous beginning of it.\<close>

definition find_long :: "string \<Rightarrow> char option" where
  "find_long name =
    (case map_of longOptions name of
       Some c \<Rightarrow> Some c
     | None \<Rightarrow> (case filter (\<lambda>(n, c). take (length name) n = name) longOptions of [(n, c)] \<Rightarrow> Some c | _ \<Rightarrow> None))"

text \<open>The options in one argument and the option that still waits for its argument.\<close>

definition long_opt :: "string \<Rightarrow> Opt list \<times> char option" where
  "long_opt s =
    (let name = takeWhile (\<lambda>c. c \<noteq> CHR ''='') s; rest = dropWhile (\<lambda>c. c \<noteq> CHR ''='') s in
     case find_long name of
       None \<Rightarrow> ([BadOpt], None)
     | Some c \<Rightarrow>
         if short_option c = Some True
         then (if rest = [] then ([], Some c) else ([Opt c (Some (tl rest))], None))
         else (if rest = [] then ([Opt c None], None) else ([BadOpt], None)))"

fun short_opts :: "string \<Rightarrow> Opt list \<times> char option" where
  "short_opts [] = ([], None)"
| "short_opts (c # cs) =
    (case short_option c of
       None \<Rightarrow> (case short_opts cs of (os, pend) \<Rightarrow> (BadOpt # os, pend))
     | Some False \<Rightarrow> (case short_opts cs of (os, pend) \<Rightarrow> (Opt c None # os, pend))
     | Some True \<Rightarrow> if cs = [] then ([], Some c) else ([Opt c (Some cs)], None))"

text \<open>
  The calls of \<open>getopt_long\<close>: the options in order and the other arguments, which it moves to the end;
  the first argument is the option that waits for its argument.
\<close>

fun getopt_long :: "char option \<Rightarrow> string list \<Rightarrow> Opt list \<times> string list" where
  "getopt_long None [] = ([], [])"
| "getopt_long (Some c) [] = ([BadOpt], [])"
| "getopt_long (Some c) (a # args) = (case getopt_long None args of (os, rs) \<Rightarrow> (Opt c (Some a) # os, rs))"
| "getopt_long None (a # args) =
    (if a = ''--'' then ([], args)
     else if take 2 a = ''--''
     then (case long_opt (drop 2 a) of (os, pend) \<Rightarrow> case getopt_long pend args of (os', rs) \<Rightarrow> (os @ os', rs))
     else if take 1 a = ''-'' \<and> length a > 1
     then (case short_opts (tl a) of (os, pend) \<Rightarrow> case getopt_long pend args of (os', rs) \<Rightarrow> (os @ os', rs))
     else (case getopt_long None args of (os, rs) \<Rightarrow> (os, a # rs)))"

text \<open>One turn of the loop: the status to return, or \<open>None\<close> to go on, and the configuration.\<close>

definition cli_set :: "'a option \<Rightarrow> ('a \<Rightarrow> RuntimeConfig) \<Rightarrow> RuntimeConfig \<Rightarrow> int option \<times> RuntimeConfig" where
  "cli_set r upd cfg = (case r of None \<Rightarrow> (Some (-1), cfg) | Some v \<Rightarrow> (None, upd v))"

definition apply_option :: "Opt \<Rightarrow> RuntimeConfig \<Rightarrow> int option \<times> RuntimeConfig" where
  "apply_option opt cfg =
    (case opt of
       BadOpt \<Rightarrow> (Some (-1), cfg)
     | Opt c None \<Rightarrow> (if c = CHR ''h'' then (Some 1, cfg) else (Some (-1), cfg))
     | Opt c (Some v) \<Rightarrow>
         if c = CHR ''f'' then (None, cfg)
         else if c = CHR ''p'' then cli_set (util_parse_int_in_range v 1 65535) (\<lambda>n. cfg\<lparr>port := n\<rparr>) cfg
         else if c = CHR ''s''
         then (case util_copy_string RUNTIME_CONFIG_PATH_MAX v of
                 None \<Rightarrow> (Some (-1), cfg)
               | Some p \<Rightarrow> (if p = [] then Some (-1) else None, cfg\<lparr>snapshotPath := p\<rparr>))
         else if c = CHR ''i'' then cli_set (util_parse_positive_ll v) (\<lambda>n. cfg\<lparr>autosaveIntervalMs := n\<rparr>) cfg
         else if c = CHR ''m'' then cli_set (util_parse_int_in_range v 1 INT_MAX) (\<lambda>n. cfg\<lparr>maxConnections := n\<rparr>) cfg
         else if c = CHR ''a'' then cli_set (util_parse_bool v) (\<lambda>n. cfg\<lparr>autosaveEnabled := n\<rparr>) cfg
         else if c = CHR ''l'' then (None, cfg\<lparr>logLevel := log_level_from_string v\<rparr>)
         else (Some (-1), cfg))"

fun apply_options :: "Opt list \<Rightarrow> RuntimeConfig \<Rightarrow> int option \<times> RuntimeConfig" where
  "apply_options [] cfg = (None, cfg)"
| "apply_options (opt # opts) cfg =
    (case apply_option opt cfg of
       (Some rc, cfg') \<Rightarrow> (Some rc, cfg')
     | (None, cfg') \<Rightarrow> apply_options opts cfg')"

definition apply_cli_overrides :: "RuntimeConfig \<Rightarrow> string list \<Rightarrow> int \<times> RuntimeConfig" where
  "apply_cli_overrides cfg args =
    (case getopt_long None args of (opts, others) \<Rightarrow>
       case apply_options opts cfg of
         (Some rc, cfg') \<Rightarrow> (rc, cfg')
       | (None, cfg') \<Rightarrow> if others \<noteq> [] then (-1, cfg') else (0, cfg'))"

definition runtime_config_init :: "(string \<Rightarrow> IniFile) \<Rightarrow> string list \<Rightarrow> int \<times> RuntimeConfig" where
  "runtime_config_init ini args =
    (case pre_scan_config_path [] args of
       None \<Rightarrow> (-1, default_config)
     | Some configPath \<Rightarrow>
         if configPath \<noteq> []
         then (case load_config_file ini default_config configPath of
                 (rc, cfg) \<Rightarrow> if rc \<noteq> 0 then (-1, cfg) else apply_cli_overrides cfg args)
         else apply_cli_overrides default_config args)"

subsection \<open>Reading numbers\<close>

lemma nat_of_digits_append: "nat_of_digits v (s @ t) = nat_of_digits (nat_of_digits v s) t"
  by (induction s arbitrary: v) simp_all

lemma nat_of_digits_str: "nat_of_digits 0 (nat_str n) = n"
proof (induction n rule: nat_str.induct)
  case (1 n)
  then show ?case
    by (cases "n < 10") (subst nat_str.simps; simp add: of_digit_char nat_of_digits_append)+
qed

lemma isdigit_not_space: "isdigit c \<Longrightarrow> \<not> isspace c \<and> c \<noteq> CHR ''-'' \<and> c \<noteq> CHR ''+''"
  by (auto simp: isdigit_def isspace_def)

lemma strtol_int_str:
  assumes "- (2 ^ 63) \<le> n" "n < 2 ^ 63"
  shows "strtol (int_str n) = (n, [], False)"
proof -
  note span = span_digits [OF nat_str_digits, of "[]", simplified]
  have digits: "takeWhile isdigit (nat_str k) = nat_str k" "dropWhile isdigit (nat_str k) = []" for k
    using span [of k] by (simp_all add: not_digit_next_def)
  have head: "dropWhile isspace (nat_str k) = nat_str k" "hd (nat_str k) \<noteq> CHR ''-''" "hd (nat_str k) \<noteq> CHR ''+''"
      "nat_str k \<noteq> []" for k
    using nat_str_head [of k] isdigit_not_space [of "hd (nat_str k)"] by (cases "nat_str k"; simp)+
  show ?thesis
    using assms by (simp add: strtol_def int_str_def digits head nat_of_digits_str isspace_def)
qed

subsection \<open>Accepted settings are in range\<close>

definition config_ok :: "RuntimeConfig \<Rightarrow> bool" where
  "config_ok cfg \<longleftrightarrow> 1 \<le> port cfg \<and> port cfg \<le> 65535 \<and> 1 \<le> maxConnections cfg \<and> maxConnections cfg \<le> INT_MAX \<and>
     0 < autosaveIntervalMs cfg \<and> autosaveIntervalMs cfg < 2 ^ 63 \<and> autosaveEnabled cfg \<in> {0, 1} \<and>
     snapshotPath cfg \<noteq> [] \<and> length (snapshotPath cfg) < RUNTIME_CONFIG_PATH_MAX"

lemma parse_int_range: "util_parse_int_in_range text mn mx = Some v \<Longrightarrow> mn \<le> v \<and> v \<le> mx"
  by (auto simp: util_parse_int_in_range_def split: prod.splits if_splits)

lemma parse_positive_range: "util_parse_positive_ll text = Some v \<Longrightarrow> 0 < v \<and> v < 2 ^ 63"
  by (auto simp: util_parse_positive_ll_def strtol_def Let_def split: prod.splits if_splits)

lemma parse_bool_range: "util_parse_bool text = Some v \<Longrightarrow> v = 0 \<or> v = 1"
  by (auto simp: util_parse_bool_def split: if_splits)

lemma copy_string_range: "util_copy_string n text = Some s \<Longrightarrow> s = text \<and> length s < n"
  by (auto simp: util_copy_string_def split: if_splits)

lemmas parse_ranges = parse_int_range parse_positive_range parse_bool_range copy_string_range

lemma default_config_ok: "config_ok default_config"
  by (simp add: config_ok_def default_config_def config_limits)

lemma config_ok_upd:
  assumes "config_ok cfg"
  shows "1 \<le> n \<and> n \<le> 65535 \<Longrightarrow> config_ok (cfg\<lparr>port := n\<rparr>)"
    "1 \<le> n \<and> n \<le> INT_MAX \<Longrightarrow> config_ok (cfg\<lparr>maxConnections := n\<rparr>)"
    "0 < n \<and> n < 2 ^ 63 \<Longrightarrow> config_ok (cfg\<lparr>autosaveIntervalMs := n\<rparr>)"
    "n = 0 \<or> n = 1 \<Longrightarrow> config_ok (cfg\<lparr>autosaveEnabled := n\<rparr>)"
    "p \<noteq> [] \<Longrightarrow> length p < RUNTIME_CONFIG_PATH_MAX \<Longrightarrow> config_ok (cfg\<lparr>snapshotPath := p\<rparr>)"
    "config_ok (cfg\<lparr>logLevel := l\<rparr>)"
  using assms by (auto simp: config_ok_def)

text \<open>A configuration is in range unless the error flag is up.\<close>

definition ini_ok :: "RuntimeConfig \<times> bool \<Rightarrow> bool" where
  "ini_ok ctx \<longleftrightarrow> snd ctx \<or> config_ok (fst ctx)"

lemma ini_ok_if: "ini_ok x \<Longrightarrow> ini_ok y \<Longrightarrow> ini_ok (if c then x else y)"
  by simp

lemma ini_set_ok:
  assumes "ini_ok ctx" "\<And>v. r = Some v \<Longrightarrow> config_ok (fst ctx) \<Longrightarrow> config_ok (upd v)"
  shows "ini_ok (ini_set r upd ctx)"
  using assms by (cases r) (auto simp: ini_set_def ini_ok_def)

lemma config_ini_handler_ok:
  assumes ctx: "ini_ok ctx"
  shows "ini_ok (config_ini_handler e ctx)"
proof -
  obtain sec name v where e: "e = (sec, name, v)" by (cases e)
  have path: "ini_ok (case util_copy_string RUNTIME_CONFIG_PATH_MAX v of None \<Rightarrow> (fst ctx, True)
      | Some p \<Rightarrow> ((fst ctx)\<lparr>snapshotPath := p\<rparr>, snd ctx \<or> p = []))"
    using ctx by (auto simp: ini_ok_def split: option.splits intro: config_ok_upd dest: copy_string_range)
  have level: "ini_ok ((fst ctx)\<lparr>logLevel := l\<rparr>, snd ctx)" for l
    using ctx by (auto simp: ini_ok_def intro: config_ok_upd)
  show ?thesis
    unfolding config_ini_handler_def e prod.case Let_def
    by (intro ini_ok_if ini_set_ok [OF ctx] path level ctx)
      (erule config_ok_upd; erule parse_int_range parse_positive_range parse_bool_range)+
qed

lemma load_config_file_ok:
  assumes "load_config_file ini cfg path = (0, cfg')" "config_ok cfg"
  shows "config_ok cfg'"
proof -
  have "ini_ok (fold config_ini_handler es ctx)" if "ini_ok ctx" for es ctx
    using that by (induction es arbitrary: ctx) (simp_all add: config_ini_handler_ok)
  from this [of "(cfg, False)" "ini_entries (ini path)"] assms show ?thesis
    by (auto simp: load_config_file_def ini_ok_def split: prod.splits if_splits)
qed

lemma apply_option_ok: "apply_option opt cfg = (None, cfg') \<Longrightarrow> config_ok cfg \<Longrightarrow> config_ok cfg'"
  by (auto simp: apply_option_def cli_set_def config_ok_def
      split: Opt.splits option.splits if_splits dest!: parse_ranges)

lemma apply_options_status: "fst (apply_options opts cfg) \<noteq> Some 0"
proof (induction opts arbitrary: cfg)
  case (Cons opt opts)
  have "fst (apply_option opt cfg) \<noteq> Some 0"
    by (auto simp: apply_option_def cli_set_def split: Opt.splits option.splits)
  with Cons.IH show ?case by (auto split: prod.splits option.splits)
qed simp

lemma apply_options_ok: "apply_options opts cfg = (None, cfg') \<Longrightarrow> config_ok cfg \<Longrightarrow> config_ok cfg'"
  by (induction opts arbitrary: cfg) (auto split: prod.splits option.splits dest: apply_option_ok)

lemma apply_cli_overrides_ok: "apply_cli_overrides cfg args = (0, cfg') \<Longrightarrow> config_ok cfg \<Longrightarrow> config_ok cfg'"
  using apply_options_status [of "fst (getopt_long None args)" cfg]
  by (auto simp: apply_cli_overrides_def split: prod.splits option.splits if_splits dest: apply_options_ok)

subsection \<open>Options override the file\<close>

text \<open>The setting that an option sets.\<close>

definition setting :: "char \<Rightarrow> RuntimeConfig \<Rightarrow> int \<times> string \<times> LogLevel" where
  "setting c cfg =
    (if c = CHR ''p'' then (port cfg, [], LOG_INFO)
     else if c = CHR ''s'' then (0, snapshotPath cfg, LOG_INFO)
     else if c = CHR ''i'' then (autosaveIntervalMs cfg, [], LOG_INFO)
     else if c = CHR ''m'' then (maxConnections cfg, [], LOG_INFO)
     else if c = CHR ''a'' then (autosaveEnabled cfg, [], LOG_INFO)
     else if c = CHR ''l'' then (0, [], logLevel cfg)
     else (0, [], LOG_INFO))"

lemma apply_option_setting:
  assumes "apply_option opt cfg = (None, cfg')" "apply_option opt cfg0 = (None, cfg0')"
    "setting c cfg = setting c cfg0 \<or> (\<exists>v. opt = Opt c v)"
  shows "setting c cfg' = setting c cfg0'"
  using assms
  by (auto simp: apply_option_def cli_set_def setting_def split: Opt.splits option.splits if_splits)

lemma apply_options_setting:
  assumes "apply_options opts cfg = (None, cfg')" "apply_options opts cfg0 = (None, cfg0')"
    "setting c cfg = setting c cfg0 \<or> (\<exists>v. Opt c v \<in> set opts)"
  shows "setting c cfg' = setting c cfg0'"
  using assms
proof (induction opts arbitrary: cfg cfg0)
  case (Cons opt opts)
  obtain d where d: "apply_option opt cfg = (None, d)" "apply_options opts d = (None, cfg')"
    using Cons.prems(1) by (auto split: prod.splits option.splits)
  obtain d0 where d0: "apply_option opt cfg0 = (None, d0)" "apply_options opts d0 = (None, cfg0')"
    using Cons.prems(2) by (auto split: prod.splits option.splits)
  have "setting c d = setting c d0 \<or> (\<exists>v. Opt c v \<in> set opts)"
    using Cons.prems(3) apply_option_setting [OF d(1) d0(1), of c] by auto
  with d d0 Cons.IH show ?case by blast
qed auto

lemma apply_cli_overrides_run:
  assumes "apply_cli_overrides cfg args = (0, cfg')"
  shows "apply_options (fst (getopt_long None args)) cfg = (None, cfg')"
  using assms apply_options_status [of "fst (getopt_long None args)" cfg]
  by (auto simp: apply_cli_overrides_def split: prod.splits option.splits if_splits)

lemma runtime_config_run:
  assumes "runtime_config_init ini args = (0, cfg)"
  shows "\<exists>cfg0. config_ok cfg0 \<and> apply_cli_overrides cfg0 args = (0, cfg)"
  using assms default_config_ok load_config_file_ok
  by (fastforce simp: runtime_config_init_def split: option.splits prod.splits if_splits)

subsection \<open>Properties\<close>

text \<open>
  C29. Whatever configuration the server accepts, from the file and the command line, is in range: the port
  fits a TCP port, the number of connections is positive, the autosave interval is positive and fits a
  \<open>long long\<close>, and the snapshot path is not empty and fits its buffer.
\<close>

theorem accepted_configuration_is_in_range:
  assumes "runtime_config_init ini args = (0, cfg)"
  shows "config_ok cfg"
  using runtime_config_run [OF assms] apply_cli_overrides_ok by blast

definition demo_ini :: "string \<Rightarrow> IniFile" where
  "demo_ini path = \<lparr>ini_entries = [(''server'', ''port'', ''4000''), (''autosave'', ''enabled'', ''off'')], ini_rc = 0\<rparr>"

definition demo_args :: "string list" where
  "demo_args = [''-f'', ''my.conf'', ''--port=5000'']"

definition demo_config :: RuntimeConfig where
  "demo_config = default_config\<lparr>port := 5000, autosaveEnabled := 0\<rparr>"

lemma demo_config_run: "runtime_config_init demo_ini demo_args = (0, demo_config)"
  by code_simp

theorem accepted_configuration_is_in_range_witness:
  "runtime_config_init demo_ini demo_args = (0, demo_config) \<and> config_ok demo_config"
  using demo_config_run accepted_configuration_is_in_range [OF demo_config_run] by simp

text \<open>
  A setting given on the command line does not depend on the configuration file: with whatever two files
  the server starts, an option's setting comes out the same.
\<close>

theorem command_line_overrides_file:
  assumes "runtime_config_init ini args = (0, cfg)" "runtime_config_init ini' args = (0, cfg')"
    "Opt c v \<in> set (fst (getopt_long None args))"
  shows "setting c cfg = setting c cfg'"
proof -
  obtain d d' where "apply_cli_overrides d args = (0, cfg)" "apply_cli_overrides d' args = (0, cfg')"
    using runtime_config_run [OF assms(1)] runtime_config_run [OF assms(2)] by blast
  then show ?thesis
    using apply_options_setting [OF apply_cli_overrides_run apply_cli_overrides_run, of d args cfg d' cfg' c] assms(3) by blast
qed

definition other_ini :: "string \<Rightarrow> IniFile" where
  "other_ini path = \<lparr>ini_entries = [(''server'', ''port'', ''80'')], ini_rc = 0\<rparr>"

theorem command_line_overrides_file_witness:
  "\<exists>cfg'. runtime_config_init other_ini demo_args = (0, cfg') \<and> setting CHR ''p'' demo_config = setting CHR ''p'' cfg'"
proof -
  have o: "runtime_config_init other_ini demo_args = (0, default_config\<lparr>port := 5000\<rparr>)" by code_simp
  have "Opt CHR ''p'' (Some ''5000'') \<in> set (fst (getopt_long None demo_args))" by code_simp
  from command_line_overrides_file [OF demo_config_run o this] o show ?thesis by blast
qed

text \<open>
  The number parser of the settings reads back every integer of 64 bits that is printed in decimal, if
  it is in the range asked for, and refuses it otherwise.
\<close>

theorem setting_number_round_trip:
  assumes "- (2 ^ 63) \<le> n" "n < 2 ^ 63" "mn \<le> mx"
  shows "util_parse_int_in_range (int_str n) mn mx = (if mn \<le> n \<and> n \<le> mx then Some n else None)"
  using strtol_int_str [OF assms(1,2)] assms(3) nat_str_nonempty
  by (auto simp: util_parse_int_in_range_def int_str_def split: if_splits)

theorem setting_number_round_trip_witness:
  "util_parse_int_in_range (int_str 70000) 1 65535 = None \<and> util_parse_int_in_range (int_str 8080) 1 65535 = Some 8080"
  using setting_number_round_trip [of 70000 1 65535] setting_number_round_trip [of 8080 1 65535] by simp

text \<open>
  A configuration file named in the attached form of the option is accepted and never read: the scan for
  the file does not know \<open>-fPATH\<close>, and the option loop expects the scan to have handled it.
\<close>

theorem attached_config_path_is_ignored:
  "runtime_config_init ini [''-fmy.conf''] = (0, default_config)"
  by (simp add: runtime_config_init_def apply_cli_overrides_def short_option_def apply_option_def)

end
