(* ===== verification/Process.thy ===== *)
theory Process
  imports Server Persistence_Facts Config
begin

text \<open>
  The life of the server process: the autosave timer of \<open>src/utils/autosave.c\<close>, start-up, the rounds of
  the loop and shutdown in \<open>src/main.c\<close>, over the files on disk. What the system calls of one step
  return is given with the step: the clock, the disk, libsodium. Setting up sockets and signals, between
  loading the store and the first round, is in theory Descriptors.
\<close>

subsection \<open>Autosave\<close>

record AutosaveState =
  lastSaveMs :: int
  intervalMs :: int
  timerEnabled :: bool

text \<open>The result of \<open>clock_gettime\<close>: seconds and nanoseconds, or nothing when it fails.\<close>

type_synonym clock = "(int \<times> int) option"

definition monotonic_time_ms :: "clock \<Rightarrow> int" where
  "monotonic_time_ms ts = (case ts of None \<Rightarrow> -1 | Some (sec, nsec) \<Rightarrow> sec * 1000 + nsec div 1000000)"

definition autosave_init :: "clock \<Rightarrow> AutosaveState \<Rightarrow> int \<Rightarrow> int \<times> AutosaveState" where
  "autosave_init ts state interval =
    (if interval \<le> 0 then (-1, state)
     else let now = monotonic_time_ms ts;
              state' = \<lparr>lastSaveMs = now, intervalMs = interval, timerEnabled = (now \<noteq> -1)\<rparr>
          in if \<not> timerEnabled state' then (-1, state') else (0, state'))"

definition autosave_maybe_run ::
  "nat \<Rightarrow> clock \<Rightarrow> Disk \<Rightarrow> string \<Rightarrow> Store \<Rightarrow> AutosaveState \<Rightarrow> files \<Rightarrow> (AutosaveState \<times> files) run" where
  "autosave_maybe_run strbytes ts disk path st state fs =
    (if \<not> timerEnabled state then Some (state, fs)
     else let nowMs = monotonic_time_ms ts in
          if nowMs = -1 then Some (state\<lparr>timerEnabled := False\<rparr>, fs)
          else if nowMs - lastSaveMs state < intervalMs state then Some (state, fs)
          else do { (rc, fs') \<leftarrow> persistence_save_all strbytes disk (Some path) st fs;
                    Some (state\<lparr>lastSaveMs := nowMs\<rparr>, fs') })"

subsection \<open>Start-up, rounds and shutdown\<close>

record Process =
  server :: Server
  timer :: AutosaveState
  disk_files :: files

text \<open>What the system gives to the start of the process.\<close>

record StartEnv =
  start_time :: ctime
  start_readable :: bool
  start_disk :: Disk
  start_clock :: clock
  start_sodium :: Sodium

text \<open>Loading the snapshot and, when no key is known, making and saving the first one.\<close>

definition start_store :: "nat \<Rightarrow> StartEnv \<Rightarrow> string \<Rightarrow> files \<Rightarrow> (Store \<times> files) run" where
  "start_store strbytes se path fs =
    do { (rc, st) \<leftarrow> persistence_load_all strbytes (start_time se) (start_readable se) (Some path) fs empty_store;
         let st' = bootstrap (start_sodium se) st;
         if keys (g_auth_store st) = [] \<and> keys (g_auth_store st') \<noteq> []
         then do { (rc', fs') \<leftarrow> persistence_save_all strbytes (start_disk se) (Some path) st' fs; Some (st', fs') }
         else Some (st', fs) }"

definition start_timer :: "clock \<Rightarrow> RuntimeConfig \<Rightarrow> AutosaveState" where
  "start_timer ts cfg =
    (let off = \<lparr>lastSaveMs = 0, intervalMs = 0, timerEnabled = False\<rparr>
     in if autosaveEnabled cfg \<noteq> 0 then snd (autosave_init ts off (autosaveIntervalMs cfg)) else off)"

text \<open>The process when the loop is entered; \<open>c\<close> is the initialised table of clients.\<close>

definition start_process :: "nat \<Rightarrow> StartEnv \<Rightarrow> RuntimeConfig \<Rightarrow> ConnectionManager \<Rightarrow> files \<Rightarrow> Process run" where
  "start_process strbytes se cfg c fs =
    do { (st, fs') \<leftarrow> start_store strbytes se (snapshotPath cfg) fs;
         Some \<lparr>server = \<lparr>cm = c, store = st, keepRunning = True\<rparr>,
               timer = start_timer (start_clock se) cfg, disk_files = fs'\<rparr> }"

text \<open>One turn of the outer loop: all events that were reported, then the timer.\<close>

fun handle_events :: "(Env \<times> Event) list \<Rightarrow> Server \<Rightarrow> Server run" where
  "handle_events [] sv = Some sv"
| "handle_events ((env, ev) # evs) sv = do { (sv', reply) \<leftarrow> handle_event env sv ev; handle_events evs sv' }"

definition serve_round ::
  "nat \<Rightarrow> RuntimeConfig \<Rightarrow> (Env \<times> Event) list \<Rightarrow> clock \<Rightarrow> Disk \<Rightarrow> Process \<Rightarrow> Process run" where
  "serve_round strbytes cfg evs ts disk p =
    do { sv \<leftarrow> handle_events evs (server p);
         (t, fs) \<leftarrow> autosave_maybe_run strbytes ts disk (snapshotPath cfg) (store sv) (timer p) (disk_files p);
         Some \<lparr>server = sv, timer = t, disk_files = fs\<rparr> }"

text \<open>The handler that runs at exit, over the copy of the path made at start-up.\<close>

definition cleanup_handler :: "nat \<Rightarrow> Disk \<Rightarrow> RuntimeConfig \<Rightarrow> Process \<Rightarrow> files run" where
  "cleanup_handler strbytes disk cfg p =
    (let g_snapshotPath = copy_name RUNTIME_CONFIG_PATH_MAX (snapshotPath cfg) in
     do { (rc, fs) \<leftarrow> persistence_save_all strbytes disk (if g_snapshotPath \<noteq> [] then Some g_snapshotPath else None)
                        (store (server p)) (disk_files p);
          dbs \<leftarrow> free_db_storage (storage (store (server p)));
          Some fs })"

text \<open>The rounds of a process until a signal has arrived.\<close>

inductive process_run :: "nat \<Rightarrow> RuntimeConfig \<Rightarrow> Process \<Rightarrow> Process \<Rightarrow> bool" for strbytes cfg p0 where
  enter: "process_run strbytes cfg p0 p0"
| round: "process_run strbytes cfg p0 p \<Longrightarrow> keepRunning (server p) \<Longrightarrow>
     serve_round strbytes cfg evs ts disk p = Some p' \<Longrightarrow> process_run strbytes cfg p0 p'"

inductive_cases process_runE: "process_run strbytes cfg p0 p"

subsection \<open>What is on disk\<close>

text \<open>The bytes are a complete snapshot of the store.\<close>

definition snapshot_of :: "nat \<Rightarrow> Store \<Rightarrow> string \<Rightarrow> bool" where
  "snapshot_of strbytes st bs \<longleftrightarrow>
    (\<exists>n f. write_snapshot strbytes st \<lparr>written = [], space_left = n\<rparr> = Some (0, f) \<and> written f = bs)"

lemma save_file:
  assumes "persistence_save_all strbytes disk p st fs = Some (rc, fs')"
  shows "fs' (effective_path p) = fs (effective_path p) \<or>
    (\<exists>bs. fs' (effective_path p) = Some bs \<and> snapshot_of strbytes st bs)"
  using assms tmp_path_other [of "effective_path p"]
  by (fastforce simp: persistence_save_all_run snapshot_of_def split: if_splits bind_splits)

lemma autosave_file:
  assumes "autosave_maybe_run strbytes ts disk path st state fs = Some (state', fs')"
  shows "fs' (effective_path (Some path)) = fs (effective_path (Some path)) \<or>
    (\<exists>bs. fs' (effective_path (Some path)) = Some bs \<and> snapshot_of strbytes st bs)"
  using assms save_file [of strbytes disk "Some path" st fs]
  by (auto simp: autosave_maybe_run_def Let_def split: if_splits bind_splits)

lemma round_file:
  assumes "serve_round strbytes cfg evs ts disk p = Some p'"
  shows "disk_files p' (effective_path (Some (snapshotPath cfg))) = disk_files p (effective_path (Some (snapshotPath cfg))) \<or>
    (\<exists>bs. disk_files p' (effective_path (Some (snapshotPath cfg))) = Some bs \<and> snapshot_of strbytes (store (server p')) bs)"
  using assms by (auto simp: serve_round_def split: bind_splits dest: autosave_file)

subsection \<open>Starting from any file\<close>

lemma bootstrap_storage [simp]: "storage (bootstrap sod st) = storage st"
  by (simp add: bootstrap_def split: prod.splits)

lemma bootstrap_known [simp]: "keys (g_auth_store st) \<noteq> [] \<Longrightarrow> bootstrap sod st = st"
  by (simp add: bootstrap_def)

lemma bootstrap_first:
  assumes "keys (g_auth_store st) = []" "pwhash_str sod (random_hex sod) = Some h"
  shows "keys (g_auth_store (bootstrap sod st)) = [\<lparr>keyName = ''admin'', keyHash = h, keyRole = ROLE_ADMIN\<rparr>]"
  using assms by (simp add: bootstrap_def auth_generate_token_def auth_add_key_def auth_limits copy_name_def)

lemma save_defined: "tables_ok (storage st) \<Longrightarrow> \<exists>rc fs'. persistence_save_all strbytes disk p st fs = Some (rc, fs')"
proof -
  assume "tables_ok (storage st)"
  then have "list_all db_safe (storage st)" by (simp add: tables_ok_def list_all_iff db_wf_def)
  then show ?thesis by (rule save_outcome [of st strbytes disk]) (simp split: if_splits)
qed

lemma empty_store_ok: "storage empty_store = []" "tables_ok (storage empty_store)" "keys_bounded (g_auth_store empty_store)"
  by (simp_all add: empty_store_def tables_ok_def keys_bounded_def auth_store_init_def)

lemma load_all_safe:
  "\<exists>rc st. persistence_load_all strbytes now readable p fs empty_store = Some (rc, st) \<and> tables_ok (storage st) \<and>
     keys_bounded (g_auth_store st)"
proof -
  have "\<exists>rc st. load_snapshot strbytes now empty_store s = Some (rc, st) \<and> tables_ok (storage st) \<and> keys_bounded (g_auth_store st)" for s
    using load_snapshot_safe [OF empty_store_ok(2,3), of strbytes now s] empty_store_ok by (auto simp: loaded_def)
  then show ?thesis using empty_store_ok by (auto simp: persistence_load_all_def split: option.splits)
qed

subsection \<open>Stopping and starting again\<close>

lemma restart_ok:
  assumes "store_saved strbytes (store (server p))" "keys (g_auth_store (store (server p))) \<noteq> []"
    "config_ok cfg" "length (snapshotPath cfg) < 508"
  shows "\<exists>n. \<forall>disk se. disk_ok n disk \<and> start_readable se \<longrightarrow>
    (\<exists>fs st'. cleanup_handler strbytes disk cfg p = Some fs \<and> start_store strbytes se (snapshotPath cfg) fs = Some (st', fs) \<and>
       store_wf st' \<and> g_auth_store st' = g_auth_store (store (server p)) \<and>
       (\<forall>t. tables st' t = map_option restored_db (find_db (storage (store (server p))) t)))"
proof -
  let ?st = "store (server p)" and ?path = "Some (snapshotPath cfg)"
  have path: "effective_path ?path = snapshotPath cfg" "snapshotPath cfg \<noteq> []"
      "copy_name RUNTIME_CONFIG_PATH_MAX (snapshotPath cfg) = snapshotPath cfg"
    using assms(3) by (simp_all add: effective_path_def config_ok_def)
  have "length (tmp_path (effective_path ?path)) < 512" using assms(4) by (simp add: path tmp_path_def)
  then obtain n where n: "\<And>disk fs. disk_ok n disk \<Longrightarrow> \<exists>fs'. persistence_save_all strbytes disk ?path ?st fs = Some (0, fs')"
    using save_with_room [OF assms(1)] by blast
  have free: "free_db_storage dbs = Some []" if "list_all db_safe dbs" for dbs
    using that by (induction dbs) (auto simp: db_free_ok)
  have safe: "list_all db_safe (storage ?st)" using assms(1) by (simp add: store_saved_def store_ok_def)
  have "\<exists>fs st'. cleanup_handler strbytes disk cfg p = Some fs \<and> start_store strbytes se (snapshotPath cfg) fs = Some (st', fs) \<and>
      store_wf st' \<and> g_auth_store st' = g_auth_store ?st \<and> (\<forall>t. tables st' t = map_option restored_db (find_db (storage ?st) t))"
    if d: "disk_ok n disk" "start_readable se" for disk se
  proof -
    obtain fs where save: "persistence_save_all strbytes disk ?path ?st (disk_files p) = Some (0, fs)" using n [OF d(1)] by blast
    obtain st' where load: "persistence_load_all strbytes (start_time se) True ?path fs empty_store = Some (0, st')"
      and st': "restored_store ?st st'"
      using restored_from_save [OF assms(1) save, of empty_store "start_time se"] empty_store_ok by blast
    have "cleanup_handler strbytes disk cfg p = Some fs"
      using save path free [OF safe] by (simp add: cleanup_handler_def)
    moreover have "start_store strbytes se (snapshotPath cfg) fs = Some (st', fs)"
      using load d(2) assms(2) st' by (simp add: start_store_def restored_store_def)
    ultimately show ?thesis
      using restored_store_ok [OF assms(1) st'] st' by (auto simp: restored_store_def)
  qed
  then show ?thesis by blast
qed

subsection \<open>Properties\<close>

text \<open>
  C10. At every moment between two rounds the snapshot file is the one the process started with, or the
  complete snapshot of the store as it was after one of the rounds so far: there are no torn snapshots,
  whatever the disk does.
\<close>

theorem snapshot_on_disk_is_complete:
  assumes "process_run strbytes cfg p0 p"
  shows "disk_files p (effective_path (Some (snapshotPath cfg))) = disk_files p0 (effective_path (Some (snapshotPath cfg))) \<or>
    (\<exists>p1 bs. process_run strbytes cfg p0 p1 \<and> process_run strbytes cfg p1 p \<and> snapshot_of strbytes (store (server p1)) bs \<and>
       disk_files p (effective_path (Some (snapshotPath cfg))) = Some bs)"
  using assms
proof (induction rule: process_run.induct)
  case (round p evs ts disk p')
  let ?path = "effective_path (Some (snapshotPath cfg))"
  have run: "process_run strbytes cfg p0 p'" using round.hyps by (rule process_run.round)
  consider "disk_files p' ?path = disk_files p ?path"
    | bs where "disk_files p' ?path = Some bs" "snapshot_of strbytes (store (server p')) bs"
    using round_file [OF round.hyps(3)] by blast
  then show ?case
  proof cases
    case 1
    from round.IH show ?thesis
    proof
      assume "\<exists>p1 bs. process_run strbytes cfg p0 p1 \<and> process_run strbytes cfg p1 p \<and>
        snapshot_of strbytes (store (server p1)) bs \<and> disk_files p ?path = Some bs"
      with 1 process_run.round [OF _ round.hyps(2,3)] show ?thesis by metis
    qed (simp add: 1)
  next
    case 2
    with run process_run.enter [of strbytes cfg p'] show ?thesis by blast
  qed
qed simp

definition good_disk :: Disk where
  "good_disk = \<lparr>open_ok = True, disk_room = 10000, flush_ok = True, close_ok = True, rename_ok = True, remove_ok = True, reached = 0\<rparr>"

definition demo_timer :: AutosaveState where
  "demo_timer = \<lparr>lastSaveMs = 0, intervalMs = 30000, timerEnabled = True\<rparr>"

definition demo_process :: Process where
  "demo_process = \<lparr>server = \<lparr>cm = demo_cm, store = demo_store, keepRunning = True\<rparr>, timer = demo_timer, disk_files = Map.empty\<rparr>"

lemma demo_process_store: "store (server demo_process) = demo_store"
  by (simp add: demo_process_def)

theorem snapshot_on_disk_is_complete_witness:
  "\<exists>disk p bs. process_run 6 default_config demo_process p \<and> disk_files p DEFAULT_SNAPSHOT_PATH = Some bs \<and>
     (\<exists>p1. process_run 6 default_config demo_process p1 \<and> snapshot_of 6 (store (server p1)) bs) \<and>
     serve_round 6 default_config [] (Some (40, 0)) disk demo_process = Some p"
proof -
  have path: "effective_path (Some (snapshotPath default_config)) = DEFAULT_SNAPSHOT_PATH"
    by (simp add: effective_path_def default_config_def config_limits)
  have "length (tmp_path (effective_path (Some (snapshotPath default_config)))) < 512"
    by (simp add: path config_limits tmp_path_def)
  from save_with_room [OF demo_saved this] obtain disk fs' where
    save: "persistence_save_all 6 disk (Some (snapshotPath default_config)) demo_store Map.empty = Some (0, fs')"
    unfolding disk_ok_def
    by (metis (no_types, lifting) Disk.select_convs order_refl)
  let ?p = "\<lparr>server = server demo_process, timer = demo_timer\<lparr>lastSaveMs := 40000\<rparr>, disk_files = fs'\<rparr>"
  have step: "serve_round 6 default_config [] (Some (40, 0)) disk demo_process = Some ?p"
    using save by (simp add: serve_round_def demo_process_def autosave_maybe_run_def demo_timer_def monotonic_time_ms_def)
  have run: "process_run 6 default_config demo_process ?p"
    by (rule process_run.round [OF process_run.enter _ step]) (simp add: demo_process_def)
  have "fs' DEFAULT_SNAPSHOT_PATH \<noteq> None"
    using save path by (auto simp: persistence_save_all_run split: if_splits bind_splits)
  moreover have "disk_files demo_process DEFAULT_SNAPSHOT_PATH = None" by (simp add: demo_process_def)
  ultimately obtain p1 bs where "process_run 6 default_config demo_process p1" "snapshot_of 6 (store (server p1)) bs"
    "disk_files ?p DEFAULT_SNAPSHOT_PATH = Some bs"
    using snapshot_on_disk_is_complete [OF run] unfolding path by auto
  with run step show ?thesis by blast
qed

text \<open>
  C9. Stopping and starting again keeps everything: when the process leaves with a store a snapshot can hold
  and that has a key, the path of the snapshot has fewer than 508 bytes, and the disk has room, the next start
  finds the same tables, rows, timestamps and keys, with the key counters recomputed, and changes no file.
\<close>

theorem restart_restores_the_store:
  assumes "store_saved strbytes (store (server p))" "keys (g_auth_store (store (server p))) \<noteq> []"
    "config_ok cfg" "length (snapshotPath cfg) < 508"
  shows "\<exists>n. \<forall>disk se. disk_ok n disk \<and> start_readable se \<longrightarrow>
    (\<exists>fs st'. cleanup_handler strbytes disk cfg p = Some fs \<and> start_store strbytes se (snapshotPath cfg) fs = Some (st', fs) \<and>
       store_wf st' \<and> g_auth_store st' = g_auth_store (store (server p)) \<and>
       (\<forall>t. tables st' t = map_option restored_db (find_db (storage (store (server p))) t)))"
  by (rule restart_ok [OF assms])

theorem restart_restores_the_store_witness:
  "\<exists>disk fs st'. cleanup_handler 6 disk default_config demo_process = Some fs \<and>
     start_store 6 \<lparr>start_time = 7, start_readable = True, start_disk = disk, start_clock = None, start_sodium = demo_sodium\<rparr>
       (snapshotPath default_config) fs = Some (st', fs) \<and> g_auth_store st' = demo_keys \<and>
     tables st' ''t'' = Some (restored_db demo_db1)"
proof -
  have "store_saved 6 (store (server demo_process))" "keys (g_auth_store (store (server demo_process))) \<noteq> []"
      "length (snapshotPath default_config) < 508"
    using demo_saved by (simp_all add: demo_process_def demo_store_def demo_keys_def default_config_def config_limits)
  from restart_restores_the_store [OF this(1,2) default_config_ok this(3)] obtain n where
    n: "\<And>disk se. disk_ok n disk \<Longrightarrow> start_readable se \<Longrightarrow>
      \<exists>fs st'. cleanup_handler 6 disk default_config demo_process = Some fs \<and> start_store 6 se (snapshotPath default_config) fs = Some (st', fs) \<and>
       store_wf st' \<and> g_auth_store st' = g_auth_store (store (server demo_process)) \<and>
       (\<forall>t. tables st' t = map_option restored_db (find_db (storage (store (server demo_process))) t))" by blast
  let ?disk = "\<lparr>open_ok = True, disk_room = n, flush_ok = True, close_ok = True, rename_ok = True, remove_ok = True, reached = 0\<rparr>"
  have "disk_ok n ?disk" by (simp add: disk_ok_def)
  from n [OF this, of "\<lparr>start_time = 7, start_readable = True, start_disk = ?disk, start_clock = None, start_sodium = demo_sodium\<rparr>"]
  obtain fs st' where run: "cleanup_handler 6 ?disk default_config demo_process = Some fs"
    "start_store 6 \<lparr>start_time = 7, start_readable = True, start_disk = ?disk, start_clock = None, start_sodium = demo_sodium\<rparr>
       (snapshotPath default_config) fs = Some (st', fs)" "g_auth_store st' = g_auth_store demo_store"
    "\<And>t. tables st' t = map_option restored_db (find_db (storage demo_store) t)"
    by (auto simp: demo_process_store)
  moreover have "g_auth_store st' = demo_keys" "tables st' ''t'' = Some (restored_db demo_db1)"
    using run(3,4) demo_store_ok(3) by (simp_all add: demo_store_def)
  ultimately show ?thesis by blast
qed

text \<open>
  C27. The server can start on any snapshot file, and it never runs without a key: loading is defined whatever
  the file holds, the tables are well formed, and if no key was loaded an administrator's key is made,
  provided that hashing succeeds.
\<close>

theorem server_starts_with_a_key:
  assumes "pwhash_str (start_sodium se) (random_hex (start_sodium se)) = Some h"
  shows "\<exists>st fs'. start_store strbytes se path fs = Some (st, fs') \<and> tables_ok (storage st) \<and> keys (g_auth_store st) \<noteq> []"
proof -
  obtain rc st where load: "persistence_load_all strbytes (start_time se) (start_readable se) (Some path) fs empty_store = Some (rc, st)"
    "tables_ok (storage st)" using load_all_safe by blast
  let ?st = "bootstrap (start_sodium se) st"
  obtain rc' fs' where save: "persistence_save_all strbytes (start_disk se) (Some path) ?st fs = Some (rc', fs')"
    using save_defined [of ?st strbytes "start_disk se" "Some path" fs] load(2) by auto
  have "\<exists>fs'. start_store strbytes se path fs = Some (?st, fs')"
    using load(1) save by (auto simp: start_store_def Let_def)
  moreover have "keys (g_auth_store ?st) \<noteq> []"
    using bootstrap_first [OF _ assms, of st] by (cases "keys (g_auth_store st) = []") auto
  ultimately show ?thesis using load(2) by auto
qed

theorem server_starts_with_a_key_witness:
  "\<exists>st fs'. start_store 6 \<lparr>start_time = 7, start_readable = True, start_disk = good_disk, start_clock = None, start_sodium = demo_sodium\<rparr>
      ''s'' [''s'' \<mapsto> ''PDBSNAP junk''] = Some (st, fs') \<and> keys (g_auth_store st) \<noteq> []"
  using server_starts_with_a_key
    [of "\<lparr>start_time = 7, start_readable = True, start_disk = good_disk, start_clock = None, start_sodium = demo_sodium\<rparr>" "''c0ffee''"]
  by (simp add: demo_sodium_def) blast

text \<open>
  A timer that has just come due does nothing for a whole interval: the files and the timer stay as they
  are until then, also when the save failed, which is not tried again earlier.
\<close>

theorem autosaves_are_an_interval_apart:
  assumes "autosave_maybe_run strbytes ts disk path st t fs = Some (t', fs')" "lastSaveMs t' \<noteq> lastSaveMs t"
    "monotonic_time_ms ts \<le> monotonic_time_ms ts'" "monotonic_time_ms ts' < monotonic_time_ms ts + intervalMs t"
    "monotonic_time_ms ts' \<noteq> -1"
  shows "autosave_maybe_run strbytes ts' disk' path st' t' fs' = Some (t', fs')"
  using assms by (auto simp: autosave_maybe_run_def Let_def split: if_splits bind_splits)

theorem autosaves_are_an_interval_apart_witness:
  "\<exists>t' fs'. autosave_maybe_run 6 (Some (40, 0)) \<lparr>open_ok = False, disk_room = 0, flush_ok = True, close_ok = True, rename_ok = True, remove_ok = True, reached = 0\<rparr>
      ''s'' demo_store demo_timer Map.empty = Some (t', fs') \<and>
    autosave_maybe_run 6 (Some (69, 999000000)) \<lparr>open_ok = True, disk_room = 10000, flush_ok = True, close_ok = True, rename_ok = True, remove_ok = True, reached = 0\<rparr>
      ''s'' demo_store t' fs' = Some (t', fs')"
proof -
  let ?bad = "\<lparr>open_ok = False, disk_room = 0, flush_ok = True, close_ok = True, rename_ok = True, remove_ok = True, reached = 0\<rparr>"
  let ?t = "demo_timer\<lparr>lastSaveMs := 40000\<rparr>"
  have run: "autosave_maybe_run 6 (Some (40, 0)) ?bad ''s'' demo_store demo_timer Map.empty = Some (?t, Map.empty)"
    by (simp add: autosave_maybe_run_def monotonic_time_ms_def demo_timer_def persistence_save_all_run)
  show ?thesis
    using run autosaves_are_an_interval_apart [OF run, of "Some (69, 999000000)"]
    by (auto simp: monotonic_time_ms_def demo_timer_def)
qed

text \<open>
  The configuration accepts snapshot paths of up to 511 bytes, but saving appends \<open>.tmp\<close> in a buffer of
  512: with a path of 508 bytes or more every save fails and nothing is ever written.
\<close>

theorem long_snapshot_path_is_never_saved:
  assumes "508 \<le> length path"
  shows "persistence_save_all strbytes disk (Some path) st fs = Some (-1, fs)"
  using assms by (auto simp: persistence_save_all_run effective_path_def tmp_path_def)

theorem long_snapshot_path_is_never_saved_witness:
  "runtime_config_init demo_ini [''-s'' @ replicate 508 CHR ''x''] = (0, default_config\<lparr>snapshotPath := replicate 508 CHR ''x''\<rparr>) \<and>
   persistence_save_all 6 good_disk (Some (replicate 508 CHR ''x'')) demo_store Map.empty = Some (-1, Map.empty)"
proof
  have "replicate 508 CHR ''x'' \<noteq> []" by (simp add: eval_nat_numeral)
  then show "runtime_config_init demo_ini [''-s'' @ replicate 508 CHR ''x''] = (0, default_config\<lparr>snapshotPath := replicate 508 CHR ''x''\<rparr>)"
    by (simp add: runtime_config_init_def apply_cli_overrides_def short_option_def apply_option_def util_copy_string_def config_limits)
  show "persistence_save_all 6 good_disk (Some (replicate 508 CHR ''x'')) demo_store Map.empty = Some (-1, Map.empty)"
    by (rule long_snapshot_path_is_never_saved) simp
qed

end
