(* ===== verification/Descriptors.thy ===== *)
theory Descriptors
  imports Process
begin

text \<open>
  File descriptors: which are open and which the server waits for. \<open>create_server\<close> and
  \<open>accept_connection\<close> of \<open>src/net.c\<close>, \<open>watch_fd\<close> and \<open>wait_for_events\<close> of \<open>src/connection_manager.c\<close>, and
  the set-up, the loop and the exits of \<open>main\<close>. What the system calls return is given; the kernel is
  assumed to hand out only descriptors that are not open.
\<close>

subsection \<open>Calls\<close>

text \<open>The open descriptors of the process and those in its epoll set; closing takes one out of both.\<close>

record Os =
  open_fds :: "int set"
  watched :: "int set"

definition open_fd :: "int \<Rightarrow> Os \<Rightarrow> Os" where
  "open_fd fd os = os\<lparr>open_fds := insert fd (open_fds os)\<rparr>"

definition close_fd :: "int \<Rightarrow> Os \<Rightarrow> Os" where
  "close_fd fd os = os\<lparr>open_fds := open_fds os - {fd}, watched := watched os - {fd}\<rparr>"

record SocketCalls =
  socket_ret :: int
  setsockopt_ret :: int
  bind_ret :: int
  listen_ret :: int

text \<open>The listening socket or -1, the port (in its 16 bits) and backlog it listens with, and the descriptors.\<close>

definition create_server :: "SocketCalls \<Rightarrow> int \<Rightarrow> int \<Rightarrow> Os \<Rightarrow> int \<times> (16 word \<times> int) option \<times> Os" where
  "create_server calls prt backlog os =
    (let backlog = (if backlog \<le> 0 then DEFAULT_MAX_CONNECTIONS else backlog); serverfd = socket_ret calls in
     if serverfd = -1 then (-1, None, os)
     else let os1 = open_fd serverfd os in
          if setsockopt_ret calls = -1 then (-1, None, close_fd serverfd os1)
          else if bind_ret calls = -1 then (-1, None, close_fd serverfd os1)
          else if listen_ret calls = -1 then (-1, None, close_fd serverfd os1)
          else (serverfd, Some (of_int prt, backlog), os1))"

definition accept_connection :: "int \<Rightarrow> Os \<Rightarrow> int \<times> Os" where
  "accept_connection accept_ret os = (accept_ret, if accept_ret = -1 then os else open_fd accept_ret os)"

definition watch_fd :: "int \<Rightarrow> int \<Rightarrow> Os \<Rightarrow> int \<times> Os" where
  "watch_fd epoll_ctl_ret fd os =
    (epoll_ctl_ret, if epoll_ctl_ret = -1 then os else os\<lparr>watched := insert fd (watched os)\<rparr>)"

text \<open>\<open>epoll_wait\<close> reports each descriptor at most once, and only descriptors that are waited for.\<close>

definition wait_for_events :: "int list option \<Rightarrow> int \<times> int list" where
  "wait_for_events ready = (case ready of None \<Rightarrow> (-1, []) | Some fds \<Rightarrow> (int (length fds), fds))"

definition ready_ok :: "Os \<Rightarrow> int list option \<Rightarrow> bool" where
  "ready_ok os ready = (case ready of None \<Rightarrow> True | Some fds \<Rightarrow> distinct fds \<and> set fds \<subseteq> watched os)"

subsection \<open>Set-up and exits\<close>

record BootCalls =
  sigprocmask_ret :: int
  signalfd_ret :: int
  socket_calls :: SocketCalls
  epoll_create_ret :: int
  watch_server_ret :: int
  watch_signal_ret :: int

text \<open>
  Releasing the table of clients closes the clients and then the epoll descriptor, and with it its set.
\<close>

definition destroy_os :: "ConnectionManager \<Rightarrow> Os \<Rightarrow> Os" where
  "destroy_os c os =
    (let os1 = fold close_fd (take (client_count c) (clients c)) os in
     if epollfd c \<noteq> -1 then (close_fd (epollfd c) os1)\<lparr>watched := {}\<rparr> else os1)"

text \<open>The exits of \<open>main\<close>: after an error, also one of \<open>epoll_wait\<close>, and after a signal.\<close>

definition leave_os :: "int \<Rightarrow> int \<Rightarrow> ConnectionManager \<Rightarrow> Os \<Rightarrow> Os" where
  "leave_os serverfd sigfd c os = destroy_os c (close_fd sigfd (close_fd serverfd os))"

definition finish_os :: "int \<Rightarrow> int \<Rightarrow> ConnectionManager \<Rightarrow> Os \<Rightarrow> Os" where
  "finish_os serverfd sigfd c os = close_fd sigfd (close_fd serverfd (destroy_os c os))"

text \<open>
  The set-up between loading the store and the loop: it leaves with \<open>EXIT_FAILURE\<close> (the flag says whether
  the exit handler has been registered by then) or hands the descriptors to the loop.
\<close>

datatype Boot =
    Failed bool Os
  | Ready int int "16 word" ConnectionManager Os

definition boot :: "BootCalls \<Rightarrow> RuntimeConfig \<Rightarrow> ConnectionManager \<Rightarrow> Os \<Rightarrow> Boot" where
  "boot calls cfg cm0 os =
    (if sigprocmask_ret calls = -1 then Failed False os
     else let sigfd = signalfd_ret calls in
     if sigfd = -1 then Failed False os
     else case create_server (socket_calls calls) (port cfg) (maxConnections cfg) (open_fd sigfd os) of
       (serverfd, listening, os1) \<Rightarrow>
         if serverfd = -1 then Failed True (close_fd sigfd os1)
         else
           let epfd = epoll_create_ret calls;
               os2 = (if maxConnections cfg \<le> 0 \<or> epfd = -1 then os1 else open_fd epfd os1) in
           case init_connection_manager epfd (maxConnections cfg) cm0 of
             (rc, c) \<Rightarrow>
               if rc = -1 then Failed True (close_fd sigfd (close_fd serverfd os2))
               else case watch_fd (watch_server_ret calls) serverfd os2 of
                 (rc, os3) \<Rightarrow>
                   if rc = -1 then Failed True (leave_os serverfd sigfd c os3)
                   else case watch_fd (watch_signal_ret calls) sigfd os3 of
                     (rc, os4) \<Rightarrow>
                       if rc = -1 then Failed True (leave_os serverfd sigfd c os4)
                       else Ready serverfd sigfd (case listening of None \<Rightarrow> 0 | Some (p, b) \<Rightarrow> p) c os4)"

text \<open>The kernel hands out distinct descriptors that were not open.\<close>

definition boot_fresh :: "BootCalls \<Rightarrow> Os \<Rightarrow> bool" where
  "boot_fresh calls os \<longleftrightarrow>
     distinct (filter (\<lambda>fd. fd \<noteq> -1) [signalfd_ret calls, socket_ret (socket_calls calls), epoll_create_ret calls]) \<and>
     {signalfd_ret calls, socket_ret (socket_calls calls), epoll_create_ret calls} \<inter> open_fds os = {} \<and> -1 \<notin> open_fds os"

subsection \<open>Events\<close>

text \<open>What one event does to the descriptors: the calls of \<open>accept\<close>, \<open>epoll_ctl\<close> and \<open>close\<close> on its way.\<close>

definition event_os :: "Server \<Rightarrow> Event \<Rightarrow> Os \<Rightarrow> Os" where
  "event_os sv ev os =
    (case ev of
       Signal \<Rightarrow> os
     | Incoming clientfd ok \<Rightarrow>
         (case accept_connection clientfd os of
            (fd, os1) \<Rightarrow>
              if fd = -1 then os1
              else if fst (add_client ok (cm sv) fd) = -1 then close_fd fd os1
              else os1\<lparr>watched := insert fd (watched os1)\<rparr>)
     | Readable fd data \<Rightarrow> if is_client (cm sv) fd \<and> data = Dropped then close_fd fd os else os)"

text \<open>
  Which event a reported descriptor stands for, given what \<open>accept\<close>, \<open>epoll_ctl\<close> and \<open>receive_data\<close> would
  return; the last branch of the loop prints a line about descriptors nobody knows.
\<close>

type_synonym io = "int \<times> bool \<times> Received"

definition event_of :: "int \<Rightarrow> int \<Rightarrow> int \<Rightarrow> io \<Rightarrow> Event" where
  "event_of serverfd sigfd eventfd io =
    (case io of (accepted, ok, data) \<Rightarrow>
       if eventfd = sigfd then Signal else if eventfd = serverfd then Incoming accepted ok else Readable eventfd data)"

definition unknown_event :: "int \<Rightarrow> int \<Rightarrow> ConnectionManager \<Rightarrow> int \<Rightarrow> bool" where
  "unknown_event serverfd sigfd c eventfd \<longleftrightarrow> eventfd \<noteq> sigfd \<and> eventfd \<noteq> serverfd \<and> \<not> is_client c eventfd"

definition accept_fresh :: "Event \<Rightarrow> Os \<Rightarrow> bool" where
  "accept_fresh ev os = (case ev of Incoming fd _ \<Rightarrow> fd = -1 \<or> fd \<notin> open_fds os | _ \<Rightarrow> True)"

text \<open>
  The inner loop over the reported descriptors, with those that turned out unknown; and the outer loop.
\<close>

inductive os_batch :: "int \<Rightarrow> int \<Rightarrow> Server \<times> Os \<Rightarrow> int list \<Rightarrow> int list \<Rightarrow> Server \<times> Os \<Rightarrow> bool" for serverfd sigfd s0 where
  none: "os_batch serverfd sigfd s0 [] [] s0"
| more: "os_batch serverfd sigfd s0 fds unknown (sv, os) \<Longrightarrow> ev = event_of serverfd sigfd fd io \<Longrightarrow>
     accept_fresh ev os \<Longrightarrow> handle_event env sv ev = Some (sv', reply) \<Longrightarrow>
     os_batch serverfd sigfd s0 (fds @ [fd]) (unknown @ (if unknown_event serverfd sigfd (cm sv) fd then [fd] else []))
       (sv', event_os sv ev os)"

inductive os_run :: "int \<Rightarrow> int \<Rightarrow> Server \<times> Os \<Rightarrow> Server \<times> Os \<Rightarrow> bool" for serverfd sigfd s0 where
  idle: "os_run serverfd sigfd s0 s0"
| batch: "os_run serverfd sigfd s0 (sv, os) \<Longrightarrow> ready_ok os ready \<Longrightarrow> wait_for_events ready = (int (length fds), fds) \<Longrightarrow>
     os_batch serverfd sigfd (sv, os) fds unknown s' \<Longrightarrow> os_run serverfd sigfd s0 s'"

subsection \<open>Accounting\<close>

text \<open>Open are the descriptors of the server, one for each client, and the others that were open before.\<close>

definition fds_ok :: "int set \<Rightarrow> int \<Rightarrow> int \<Rightarrow> Server \<Rightarrow> Os \<Rightarrow> bool" where
  "fds_ok others serverfd sigfd sv os \<longleftrightarrow> cm_wf (cm sv) \<and>
     distinct [serverfd, sigfd, epollfd (cm sv)] \<and> -1 \<notin> open_fds os \<and>
     {serverfd, sigfd, epollfd (cm sv)} \<inter> others = {} \<and>
     dom (sessions (cm sv)) \<inter> ({serverfd, sigfd, epollfd (cm sv)} \<union> others) = {} \<and>
     open_fds os = others \<union> {serverfd, sigfd, epollfd (cm sv)} \<union> dom (sessions (cm sv)) \<and>
     watched os = {serverfd, sigfd} \<union> dom (sessions (cm sv))"

lemma os_simps [simp]:
  "open_fds (open_fd fd os) = insert fd (open_fds os)" "watched (open_fd fd os) = watched os"
  "open_fds (close_fd fd os) = open_fds os - {fd}" "watched (close_fd fd os) = watched os - {fd}"
  by (simp_all add: open_fd_def close_fd_def)

lemma fold_close [simp]:
  "open_fds (fold close_fd fds os) = open_fds os - set fds" "watched (fold close_fd fds os) = watched os - set fds"
  by (induction fds arbitrary: os) auto

lemma client_fds: "cm_wf c \<Longrightarrow> set (take (client_count c) (clients c)) = dom (sessions c)"
  by (simp add: sessions_def dom_map_of_conv_image_fst fst_slots [symmetric])

lemma client_dom: "cm_wf c \<Longrightarrow> is_client c fd \<longleftrightarrow> fd \<in> dom (sessions c)"
  by (simp add: is_client_sessions dom_def)

lemma not_client: "cm_wf c \<Longrightarrow> \<not> is_client c fd \<longleftrightarrow> sessions c fd = None"
  by (cases "sessions c fd") (simp_all add: is_client_sessions)

lemma leave_os_fds:
  "cm_wf c \<Longrightarrow> epollfd c \<noteq> -1 \<Longrightarrow>
     open_fds (leave_os serverfd sigfd c os) = open_fds os - {serverfd, sigfd, epollfd c} - dom (sessions c)"
  by (auto simp: leave_os_def destroy_os_def Let_def client_fds)

lemma finish_os_fds:
  "cm_wf c \<Longrightarrow> epollfd c \<noteq> -1 \<Longrightarrow>
     open_fds (finish_os serverfd sigfd c os) = open_fds os - {serverfd, sigfd, epollfd c} - dom (sessions c)"
  by (auto simp: finish_os_def destroy_os_def Let_def client_fds)

lemma add_client_status: "fst (add_client ok c fd) = 0 \<or> fst (add_client ok c fd) = -1"
  by (simp add: add_client_def Let_def)

lemma epollfd_simps [simp]:
  "epollfd (snd (add_client ok c fd)) = epollfd c" "epollfd (snd (remove_client c fd)) = epollfd c"
  "epollfd (set_client_auth c fd l) = epollfd c" "epollfd (set_client_name c fd n) = epollfd c"
  by (simp_all add: add_client_def remove_client_def set_client_auth_def set_client_name_def Let_def split: option.splits)

subsection \<open>One event\<close>

definition clients_after :: "Server \<Rightarrow> Event \<Rightarrow> int set" where
  "clients_after sv ev =
    (case ev of
       Signal \<Rightarrow> dom (sessions (cm sv))
     | Incoming fd ok \<Rightarrow>
         if fd = -1 \<or> fst (add_client ok (cm sv) fd) = -1 then dom (sessions (cm sv)) else insert fd (dom (sessions (cm sv)))
     | Readable fd data \<Rightarrow> if data = Dropped then dom (sessions (cm sv)) - {fd} else dom (sessions (cm sv)))"

lemma handle_command_clients:
  assumes "cm_wf (cm sv)" "is_client (cm sv) fd" "handle_command env sv fd cmd = Some (sv', rep)"
  shows "dom (sessions (cm sv')) = dom (sessions (cm sv))"
proof -
  have "fd \<in> dom (sessions (cm sv))" using assms(1,2) by (simp add: client_dom del: domIff)
  then have "dom ((sessions (cm sv))(fd \<mapsto> x)) = dom (sessions (cm sv))" for x by (simp add: insert_absorb del: domIff)
  with handle_command_sessions [OF assms] show ?thesis by (auto simp del: domIff)
qed

lemma handle_command_epollfd:
  assumes "handle_command env sv fd cmd = Some (sv', rep)"
  shows "epollfd (cm sv') = epollfd (cm sv)"
proof (cases rule: handle_command_cases [where cmd = cmd and env = env and sv = sv and fd = fd])
  case run
  with assms run_command_cm [of env sv fd cmd sv' rep] show ?thesis by auto
qed (use assms in auto)

lemma handle_event_epollfd: "handle_event env sv ev = Some (sv', reply) \<Longrightarrow> epollfd (cm sv') = epollfd (cm sv)"
  by (auto simp: handle_event_def handle_command_epollfd split: Event.splits Received.splits if_splits bind_splits)

lemma incoming_clients:
  assumes "cm_wf (cm sv)" "sessions (cm sv) fd = None" "handle_event env sv (Incoming fd ok) = Some (sv', reply)"
  shows "dom (sessions (cm sv')) = clients_after sv (Incoming fd ok)"
proof (cases "fst (add_client ok (cm sv) fd) = 0")
  case True
  then have "add_client ok (cm sv) fd = (0, snd (add_client ok (cm sv) fd))" by (metis prod.collapse)
  from add_client_cases [OF assms(1,2) this] True assms(3) show ?thesis
    by (auto simp: handle_event_def clients_after_def split: if_splits)
next
  case False
  then have "snd (add_client ok (cm sv) fd) = cm sv" "fst (add_client ok (cm sv) fd) = -1"
    using add_client_fail [of ok "cm sv" fd] add_client_status [of ok "cm sv" fd] by (metis prod.collapse)+
  with assms(3) show ?thesis by (auto simp: handle_event_def clients_after_def split: if_splits)
qed

lemma handle_event_clients:
  assumes wf: "cm_wf (cm sv)" and ok: "event_ok sv ev" and h: "handle_event env sv ev = Some (sv', reply)"
  shows "dom (sessions (cm sv')) = clients_after sv ev"
proof (cases ev)
  case Signal
  with h show ?thesis by (auto simp: handle_event_def clients_after_def)
next
  case (Incoming fd k)
  then have "sessions (cm sv) fd = None" using ok wf by (simp add: event_ok_def not_client)
  from incoming_clients [OF wf this] h Incoming show ?thesis by simp
next
  case (Readable fd data)
  consider "\<not> is_client (cm sv) fd" | "is_client (cm sv) fd" "data = Waiting" | "is_client (cm sv) fd" "data = Dropped"
    | line where "is_client (cm sv) fd" "data = Line line" by (cases data) auto
  then show ?thesis
  proof cases
    case 1
    with h wf Readable show ?thesis by (auto simp: handle_event_def clients_after_def not_client)
  next
    case (4 line)
    with h Readable obtain cmd rep where "handle_command env sv fd cmd = Some (sv', rep)"
      by (auto simp: handle_event_def split: bind_splits)
    from handle_command_clients [OF wf 4(1) this] 4 Readable show ?thesis by (simp add: clients_after_def)
  next
    case 3
    with h Readable have "sv' = sv\<lparr>cm := snd (remove_client (cm sv) fd)\<rparr>" by (simp add: handle_event_def)
    with 3 wf Readable show ?thesis by (simp add: clients_after_def remove_client_ok)
  qed (use h Readable in \<open>simp add: handle_event_def clients_after_def\<close>)
qed

lemma event_keeps_accounts:
  assumes fds: "fds_ok others serverfd sigfd sv os" and fresh: "accept_fresh ev os"
    and h: "handle_event env sv ev = Some (sv', reply)"
  shows "fds_ok others serverfd sigfd sv' (event_os sv ev os)"
proof -
  have wf: "cm_wf (cm sv)" using fds by (simp add: fds_ok_def)
  have ok: "event_ok sv ev"
    using fds fresh wf by (auto simp: event_ok_def accept_fresh_def fds_ok_def client_dom simp del: domIff split: Event.splits)
  have wf': "cm_wf (cm sv')" by (rule handle_event_sessions(1) [OF wf ok h])
  have epfd: "epollfd (cm sv') = epollfd (cm sv)" by (rule handle_event_epollfd [OF h])
  have dom: "dom (sessions (cm sv')) = clients_after sv ev" by (rule handle_event_clients [OF wf ok h])
  show ?thesis
  proof (cases ev)
    case Signal
    with fds wf' dom show ?thesis by (auto simp: fds_ok_def epfd clients_after_def event_os_def simp del: domIff)
  next
    case (Incoming fd k)
    with fresh consider "fd = -1" | "fd \<noteq> -1" "fd \<notin> open_fds os" by (auto simp: accept_fresh_def)
    then show ?thesis
    proof cases
      case 1
      with Incoming fds wf' dom show ?thesis
        by (auto simp: fds_ok_def epfd clients_after_def event_os_def accept_connection_def simp del: domIff)
    next
      case 2
      with Incoming fds wf' dom show ?thesis
        by (cases "fst (add_client k (cm sv) fd) = -1")
          (auto simp: fds_ok_def epfd clients_after_def event_os_def accept_connection_def simp del: domIff)
    qed
  next
    case (Readable fd data)
    show ?thesis
    proof (cases "data = Dropped \<and> is_client (cm sv) fd")
      case True
      with Readable fds wf' dom show ?thesis
        by (auto simp: fds_ok_def epfd clients_after_def event_os_def client_dom simp del: domIff)
    next
      case False
      then have "clients_after sv ev = dom (sessions (cm sv))" "event_os sv ev os = os"
        using Readable wf by (auto simp: clients_after_def event_os_def is_client_sessions)
      with fds wf' dom show ?thesis by (auto simp: fds_ok_def epfd simp del: domIff)
    qed
  qed
qed

subsection \<open>Batches and runs\<close>

lemma batch_keeps_accounts:
  assumes "os_batch serverfd sigfd (sv0, os0) fds unknown (sv, os)" "fds_ok others serverfd sigfd sv0 os0"
  shows "fds_ok others serverfd sigfd sv os"
  using assms
  by (induction fds unknown "(sv, os)" arbitrary: sv os rule: os_batch.induct) (auto intro: event_keeps_accounts)

lemma run_keeps_accounts:
  assumes "os_run serverfd sigfd (sv0, os0) (sv, os)" "fds_ok others serverfd sigfd sv0 os0"
  shows "fds_ok others serverfd sigfd sv os"
  using assms
  by (induction "(sv, os)" arbitrary: sv os rule: os_run.induct) (auto intro: batch_keeps_accounts)

lemma event_keeps_other_clients:
  assumes "fds_ok others serverfd sigfd sv os" "accept_fresh (event_of serverfd sigfd fd io) os"
    "handle_event env sv (event_of serverfd sigfd fd io) = Some (sv', reply)"
  shows "dom (sessions (cm sv)) - {fd} \<subseteq> dom (sessions (cm sv'))"
proof -
  have wf: "cm_wf (cm sv)" using assms(1) by (simp add: fds_ok_def)
  have ok: "event_ok sv (event_of serverfd sigfd fd io)"
    using assms(1,2) wf by (auto simp: event_ok_def accept_fresh_def fds_ok_def client_dom simp del: domIff split: Event.splits)
  show ?thesis
    unfolding handle_event_clients [OF wf ok assms(3)]
    by (auto simp: clients_after_def event_of_def split: prod.splits)
qed

lemma batch_keeps_other_clients:
  assumes "os_batch serverfd sigfd (sv0, os0) fds unknown (sv, os)" "fds_ok others serverfd sigfd sv0 os0"
  shows "dom (sessions (cm sv0)) - set fds \<subseteq> dom (sessions (cm sv))"
  using assms
proof (induction fds unknown "(sv, os)" arbitrary: sv os rule: os_batch.induct)
  case (more fds unknown sv os ev fd io env sv' reply)
  have "fds_ok others serverfd sigfd sv os" by (rule batch_keeps_accounts [OF more.hyps(1) more.prems])
  then have "dom (sessions (cm sv)) - {fd} \<subseteq> dom (sessions (cm sv'))"
    using more.hyps by (intro event_keeps_other_clients) auto
  moreover have "dom (sessions (cm sv0)) - set fds \<subseteq> dom (sessions (cm sv))" using more.hyps(2) more.prems by simp
  ultimately show ?case by (simp del: domIff) blast
qed simp

lemma batch_knows_its_events:
  assumes "os_batch serverfd sigfd (sv0, os0) fds unknown (sv, os)" "fds_ok others serverfd sigfd sv0 os0"
    "distinct fds" "set fds \<subseteq> watched os0"
  shows "unknown = []"
  using assms
proof (induction fds unknown "(sv, os)" arbitrary: sv os rule: os_batch.induct)
  case (more fds unknown sv os ev fd io env sv' reply)
  have "fds_ok others serverfd sigfd sv os" by (rule batch_keeps_accounts [OF more.hyps(1) more.prems(1)])
  moreover have "fd \<in> {serverfd, sigfd} \<or> fd \<in> dom (sessions (cm sv))"
    using batch_keeps_other_clients [OF more.hyps(1) more.prems(1)] more.prems by (auto simp: fds_ok_def simp del: domIff)
  ultimately have "\<not> unknown_event serverfd sigfd (cm sv) fd"
    by (auto simp: unknown_event_def fds_ok_def client_dom simp del: domIff)
  with more show ?case by simp
qed simp

subsection \<open>Set-up\<close>

lemma late_failure:
  assumes create: "create_server (socket_calls calls) (port cfg) (maxConnections cfg) (open_fd (signalfd_ret calls) os) = (fd, listening, os1)"
    and sig: "fd \<noteq> -1" "signalfd_ret calls \<noteq> -1" "sigprocmask_ret calls \<noteq> -1" and failed: "boot calls cfg cm0 os = Failed handler os'"
  shows "open_fds os' = open_fds os1 - {fd, signalfd_ret calls} \<or>
    open_fds os' = insert (epoll_create_ret calls) (open_fds os1) - {fd, signalfd_ret calls, epoll_create_ret calls}"
proof (cases "maxConnections cfg \<le> 0 \<or> epoll_create_ret calls = -1")
  case True
  then have "os' = close_fd (signalfd_ret calls) (close_fd fd os1)"
    using create sig failed by (auto simp: boot_def Let_def init_connection_manager_def split: if_splits)
  then show ?thesis by auto
next
  case ready: False
  define c where "c = snd (init_connection_manager (epoll_create_ret calls) (maxConnections cfg) cm0)"
  have c: "init_connection_manager (epoll_create_ret calls) (maxConnections cfg) cm0 = (0, c)" "cm_wf c" "sessions c = Map.empty"
      "epollfd c = epoll_create_ret calls"
    using ready unfolding c_def by (simp_all add: init_connection_manager_ok) (simp_all add: init_connection_manager_def)
  obtain x where "os' = leave_os fd (signalfd_ret calls) c x" "open_fds x = insert (epoll_create_ret calls) (open_fds os1)"
    using create sig failed ready by (auto simp: boot_def Let_def c(1) watch_fd_def split: if_splits)
  then show ?thesis using c ready by (simp add: leave_os_fds)
qed

lemma boot_leaves_nothing:
  assumes "boot_fresh calls os" "boot calls cfg cm0 os = Failed handler os'"
  shows "open_fds os' = open_fds os"
proof -
  let ?sig = "signalfd_ret calls" and ?srv = "socket_ret (socket_calls calls)" and ?ep = "epoll_create_ret calls"
  obtain fd listening os1 where create: "create_server (socket_calls calls) (port cfg) (maxConnections cfg) (open_fd ?sig os) = (fd, listening, os1)"
    by (rule prod_cases3)
  have fresh: "?sig \<notin> open_fds os" "?srv \<notin> open_fds os" "?ep \<notin> open_fds os" "?srv \<noteq> -1 \<Longrightarrow> ?srv \<noteq> ?sig"
    using assms(1) by (auto simp: boot_fresh_def split: if_splits)
  consider "?sig = -1 \<or> sigprocmask_ret calls = -1" | "?sig \<noteq> -1" "sigprocmask_ret calls \<noteq> -1" "fd = -1"
    | "?sig \<noteq> -1" "sigprocmask_ret calls \<noteq> -1" "fd \<noteq> -1" by auto
  then show ?thesis
  proof cases
    case 1
    with assms(2) show ?thesis by (auto simp: boot_def Let_def split: if_splits)
  next
    case 2
    with create have "open_fds os1 = insert ?sig (open_fds os)"
      using fresh by (auto simp: create_server_def Let_def split: if_splits)
    with 2 create assms(2) fresh show ?thesis by (auto simp: boot_def Let_def)
  next
    case 3
    with create have "fd = ?srv" "open_fds os1 = insert ?srv (insert ?sig (open_fds os))"
      by (auto simp: create_server_def Let_def split: if_splits)
    with late_failure [OF create 3(3,1,2) assms(2)] fresh show ?thesis by auto
  qed
qed

lemma boot_accounts:
  assumes "boot_fresh calls os" "boot calls cfg cm0 os = Ready serverfd sigfd prt c os'" "watched os = {}"
  shows "fds_ok (open_fds os) serverfd sigfd \<lparr>cm = c, store = st, keepRunning = True\<rparr> os'" "prt = of_int (port cfg)"
proof -
  from assms(2) have ready: "serverfd = socket_ret (socket_calls calls)" "sigfd = signalfd_ret calls"
    "serverfd \<noteq> -1" "sigfd \<noteq> -1" "epoll_create_ret calls \<noteq> -1" "0 < maxConnections cfg"
    "c = snd (init_connection_manager (epoll_create_ret calls) (maxConnections cfg) cm0)"
    "open_fds os' = insert (epoll_create_ret calls) (insert serverfd (insert sigfd (open_fds os)))"
    "watched os' = insert sigfd (insert serverfd (watched os))" "prt = of_int (port cfg)"
    by (auto simp: boot_def create_server_def watch_fd_def init_connection_manager_def Let_def split: if_splits)
  moreover have "epollfd c = epoll_create_ret calls"
    using ready by (simp add: init_connection_manager_def)
  ultimately show "fds_ok (open_fds os) serverfd sigfd \<lparr>cm = c, store = st, keepRunning = True\<rparr> os'" "prt = of_int (port cfg)"
    using assms(1,3) init_connection_manager_ok [of "maxConnections cfg" "epoll_create_ret calls" cm0]
    by (auto simp: fds_ok_def boot_fresh_def)
qed

subsection \<open>Properties\<close>

text \<open>
  C11. No descriptor leaks: from a set-up that succeeded and through any number of rounds, with clients coming,
  being refused, logging in and leaving, the open descriptors are those of before, the listening socket, the
  signal descriptor, the epoll descriptor and one for each session; and both exits of the loop close exactly
  what the process opened.
\<close>

theorem no_descriptor_leaks:
  assumes "boot_fresh calls os0" "watched os0 = {}" "boot calls cfg cm0 os0 = Ready serverfd sigfd prt c os1"
    "os_run serverfd sigfd (\<lparr>cm = c, store = st, keepRunning = True\<rparr>, os1) (sv, os)"
  shows "open_fds os = open_fds os0 \<union> {serverfd, sigfd, epollfd (cm sv)} \<union> dom (sessions (cm sv)) \<and>
    watched os = {serverfd, sigfd} \<union> dom (sessions (cm sv)) \<and>
    open_fds (leave_os serverfd sigfd (cm sv) os) = open_fds os0 \<and>
    open_fds (finish_os serverfd sigfd (cm sv) os) = open_fds os0"
proof -
  have fds: "fds_ok (open_fds os0) serverfd sigfd sv os"
    by (rule run_keeps_accounts [OF assms(4) boot_accounts(1) [OF assms(1,3,2)]])
  then have "cm_wf (cm sv)" "epollfd (cm sv) \<noteq> -1" by (auto simp: fds_ok_def)
  with fds show ?thesis by (auto simp: fds_ok_def leave_os_fds finish_os_fds simp del: domIff)
qed

definition demo_calls :: BootCalls where
  "demo_calls = \<lparr>sigprocmask_ret = 0, signalfd_ret = 4, socket_calls = \<lparr>socket_ret = 5, setsockopt_ret = 0, bind_ret = 0, listen_ret = 0\<rparr>,
     epoll_create_ret = 6, watch_server_ret = 0, watch_signal_ret = 0\<rparr>"

definition demo_os :: Os where
  "demo_os = \<lparr>open_fds = {0, 1, 2, 3}, watched = {}\<rparr>"

definition demo_table :: ConnectionManager where
  "demo_table = snd (init_connection_manager 6 (maxConnections default_config) demo_cm)"

definition demo_boot_os :: Os where
  "demo_boot_os = \<lparr>open_fds = {0, 1, 2, 3, 4, 5, 6}, watched = {4, 5}\<rparr>"

lemma demo_boot:
  "boot_fresh demo_calls demo_os" "watched demo_os = {}"
  "boot demo_calls default_config demo_cm demo_os = Ready 5 4 (of_int (port default_config)) demo_table demo_boot_os"
  by (auto simp: boot_fresh_def demo_calls_def demo_os_def demo_table_def demo_boot_os_def boot_def create_server_def watch_fd_def
      init_connection_manager_def default_config_def config_limits open_fd_def Let_def)

text \<open>A client arrives as descriptor 7 in the first round.\<close>

definition listening_server :: Server where
  "listening_server = \<lparr>cm = demo_table, store = demo_store, keepRunning = True\<rparr>"

definition listening_server2 :: Server where
  "listening_server2 = listening_server\<lparr>cm := snd (add_client True demo_table 7)\<rparr>"

lemma demo_arrival:
  "handle_event env listening_server (Incoming 7 True) = Some (listening_server2, None)"
  "event_os listening_server (Incoming 7 True) demo_boot_os = \<lparr>open_fds = {0, 1, 2, 3, 4, 5, 6, 7}, watched = {4, 5, 7}\<rparr>"
  "dom (sessions (cm listening_server2)) = {7}" "epollfd (cm listening_server2) = 6"
proof -
  have wf: "cm_wf demo_table" "sessions demo_table = Map.empty"
    by (simp_all add: demo_table_def init_connection_manager_ok default_config_def config_limits)
  have "client_count demo_table < max_clients demo_table"
    by (simp add: demo_table_def init_connection_manager_def default_config_def config_limits)
  then have "fst (add_client True demo_table 7) = 0" "sessions (snd (add_client True demo_table 7)) = [7 \<mapsto> (AUTH_NONE, [])]"
    using wf add_client_ok [of demo_table 7] by auto
  then show "event_os listening_server (Incoming 7 True) demo_boot_os = \<lparr>open_fds = {0, 1, 2, 3, 4, 5, 6, 7}, watched = {4, 5, 7}\<rparr>"
    "dom (sessions (cm listening_server2)) = {7}"
    by (auto simp: listening_server_def listening_server2_def event_os_def accept_connection_def demo_boot_os_def open_fd_def)
  show "epollfd (cm listening_server2) = 6"
    by (simp add: listening_server2_def demo_table_def init_connection_manager_def default_config_def config_limits)
qed (simp add: handle_event_def listening_server_def listening_server2_def)

lemma demo_batch:
  "os_batch 5 4 (listening_server, demo_boot_os) [5] [] (listening_server2, event_os listening_server (Incoming 7 True) demo_boot_os)"
  using os_batch.more [OF os_batch.none, of "Incoming 7 True" 5 4 5 "(7, True, Waiting)" demo_boot_os undefined listening_server listening_server2 None]
  by (simp add: event_of_def accept_fresh_def demo_boot_os_def demo_arrival(1) unknown_event_def)

lemma demo_os_run:
  "os_run 5 4 (listening_server, demo_boot_os) (listening_server2, event_os listening_server (Incoming 7 True) demo_boot_os)"
  by (rule os_run.batch [OF os_run.idle _ _ demo_batch, where ready = "Some [5]"])
    (simp_all add: ready_ok_def wait_for_events_def demo_boot_os_def)

theorem no_descriptor_leaks_witness:
  "\<exists>sv os. os_run 5 4 (listening_server, demo_boot_os) (sv, os) \<and> open_fds os = {0, 1, 2, 3, 4, 5, 6, 7} \<and>
     open_fds (finish_os 5 4 (cm sv) os) = {0, 1, 2, 3}"
proof (intro exI conjI)
  note leak = no_descriptor_leaks [OF demo_boot, of demo_store listening_server2 "event_os listening_server (Incoming 7 True) demo_boot_os",
      folded listening_server_def, OF demo_os_run]
  show "open_fds (event_os listening_server (Incoming 7 True) demo_boot_os) = {0, 1, 2, 3, 4, 5, 6, 7}" by (simp add: demo_arrival)
  show "open_fds (finish_os 5 4 (cm listening_server2) (event_os listening_server (Incoming 7 True) demo_boot_os)) = {0, 1, 2, 3}"
    using leak by (simp add: demo_os_def)
qed (rule demo_os_run)

text \<open>
  C26. A set-up that fails at any call closes what it had opened until then; one that succeeds listens on the
  configured port, which loses no bits on its way into the 16 bits of the address.
\<close>

theorem failed_setup_leaves_no_descriptor:
  assumes "boot_fresh calls os0" "config_ok cfg"
  shows "case boot calls cfg cm0 os0 of
      Failed handler os \<Rightarrow> open_fds os = open_fds os0
    | Ready serverfd sigfd prt c os \<Rightarrow> uint prt = port cfg \<and> cm_wf c \<and> sessions c = Map.empty"
proof (cases "boot calls cfg cm0 os0")
  case (Failed handler os)
  with boot_leaves_nothing [OF assms(1) Failed] show ?thesis by simp
next
  case (Ready serverfd sigfd prt c os)
  then have "prt = of_int (port cfg)" "epoll_create_ret calls \<noteq> -1"
      "c = snd (init_connection_manager (epoll_create_ret calls) (maxConnections cfg) cm0)"
    by (auto simp: boot_def create_server_def watch_fd_def init_connection_manager_def Let_def split: if_splits)
  with Ready assms(2) show ?thesis
    by (simp add: config_ok_def init_connection_manager_ok uint_word_of_int_eq take_bit_int_eq_self)
qed

theorem failed_setup_leaves_no_descriptor_witness:
  "boot (demo_calls\<lparr>watch_signal_ret := -1\<rparr>) default_config demo_cm demo_os = Failed True \<lparr>open_fds = {0, 1, 2, 3}, watched = {}\<rparr> \<and>
   (case boot demo_calls default_config demo_cm demo_os of Failed h os \<Rightarrow> False | Ready s g prt c os \<Rightarrow> uint prt = port default_config)"
proof
  show "boot (demo_calls\<lparr>watch_signal_ret := -1\<rparr>) default_config demo_cm demo_os = Failed True \<lparr>open_fds = {0, 1, 2, 3}, watched = {}\<rparr>"
    by (auto simp: demo_calls_def demo_os_def boot_def create_server_def watch_fd_def init_connection_manager_def
        default_config_def config_limits open_fd_def close_fd_def leave_os_def destroy_os_def Let_def)
qed (use failed_setup_leaves_no_descriptor [OF demo_boot(1) default_config_ok, of demo_cm] in \<open>simp add: demo_boot(3)\<close>)

text \<open>
  C20. The last branch of the loop is never taken: \<open>epoll_wait\<close> reports each descriptor at most once, and a
  client that was reported is still a client when its turn comes, whatever the events before it did. So every
  event of a round is the signal, the listening socket or a client.
\<close>

theorem every_event_is_known:
  assumes "boot_fresh calls os0" "watched os0 = {}" "boot calls cfg cm0 os0 = Ready serverfd sigfd prt c os1"
    "os_run serverfd sigfd (\<lparr>cm = c, store = st, keepRunning = True\<rparr>, os1) (sv, os)"
    "ready_ok os (Some fds)" "os_batch serverfd sigfd (sv, os) fds unknown (sv', os')"
  shows "unknown = []"
proof -
  have "fds_ok (open_fds os0) serverfd sigfd sv os"
    by (rule run_keeps_accounts [OF assms(4) boot_accounts(1) [OF assms(1,3,2)]])
  from batch_knows_its_events [OF assms(6) this] assms(5) show ?thesis by (simp add: ready_ok_def)
qed

theorem every_event_is_known_witness:
  "\<exists>sv os. os_batch 5 4 (listening_server, demo_boot_os) [5] [] (sv, os) \<and> ready_ok demo_boot_os (Some [5]) \<and>
     (\<forall>unknown sv' os'. os_batch 5 4 (listening_server, demo_boot_os) [5] unknown (sv', os') \<longrightarrow> unknown = [])"
proof -
  have "ready_ok demo_boot_os (Some [5])" by (simp add: ready_ok_def demo_boot_os_def)
  with every_event_is_known [OF demo_boot os_run.idle this] demo_batch show ?thesis
    unfolding listening_server_def by blast
qed

end
