(* ===== verification/Command_Text.thy ===== *)
theory Command_Text
  imports Parser_Facts
begin

text \<open>
  Requests as a client writes them: a printer for commands, and the proof that the parser reads every
  printed command back. Strings with quotes or backslashes are left out, since the scans for parentheses
  and commas do not treat these as the reader of strings does, and so are doubles.
\<close>

subsection \<open>The printer\<close>








definition print_key :: "cint \<Rightarrow> string" where
  "print_key k = int_str (sint k)"


subsection \<open>What can be printed\<close>







subsection \<open>Words\<close>



lemma isspace_blank [simp]: "isspace CHR '' ''" "isspace CHR 0x09" "\<not> isspace CHR '',''"
  by (simp_all add: isspace_def)








lemma skip_blank [simp]: "skip_whitespace (CHR '' '' # s) = skip_whitespace s"
  by (simp add: skip_whitespace_def)





subsection \<open>The name of the operation\<close>







subsection \<open>Arguments without parentheses\<close>




lemma with_key_printed [simp]: "with_key (print_key k) msg f = f k"
  using int_round_trip [of "[]" k] by (simp add: with_key_def print_key_def not_digit_next_def)

lemma with_name_valid [simp]: "is_valid_identifier s \<Longrightarrow> length s < n \<Longrightarrow> with_name n s f = f s"
  by (simp add: with_name_def)









lemma skip_nil [simp]: "skip_whitespace [] = []"
  by (simp add: skip_whitespace_def)





subsection \<open>Values\<close>

definition stop_next :: "string \<Rightarrow> bool" where
  "stop_next r \<longleftrightarrow> value_end (peek 0 r)"

lemma stop_next_simps [simp]:
  "stop_next []" "stop_next (CHR '','' # r)" "stop_next (CHR '')'' # r)" "stop_next (CHR '']'' # r)" "stop_next (CHR '' '' # r)"
  by (simp_all add: stop_next_def value_end_def ends_with_def peek_def)












subsection \<open>Arrays\<close>











subsection \<open>Lists of values and of fields\<close>















subsection \<open>Counting\<close>

















subsection \<open>Parentheses\<close>
















subsection \<open>Commands with parentheses\<close>

lemma tokenize_blank [simp]: "tokenize_args (CHR '' '' # s) = tokenize_args s" "tokenize_single_arg (CHR '' '' # s) = tokenize_single_arg s"
  by (simp_all add: tokenize_args_def tokenize_single_arg_def)













subsection \<open>Properties\<close>









text \<open>
  The restriction on strings is needed: of a string that ends in a backslash the closing quote is taken for
  an escaped one, and of a search for a string with a parenthesis only the part before it is read.
\<close>

lemma backslash_string_is_refused:
  "parse_command (''ADD t 1 ('' @ quote [CHR ''a'', CHR 0x5C] @ '')'') =
     Some (parse_error ER_SYNTAX_ERROR (Some ''unmatched parenthesis'')) \<and>
   parse_command (''SEARCH t name '' @ quote ''a(b)'') = Some (parse_error ER_SYNTAX_ERROR (Some ''invalid search value''))"
  by code_simp

end
