(* ===== verification/Durability.thy ===== *)
theory Durability
  imports Process
begin

text \<open>
  Durability over whole runs: every store that requests can lead to is one that a snapshot can hold. The
  strings a client can send have no NUL byte, because a line ends there; the parser adds none; and the
  handlers store what was parsed. Together with the round trip of snapshots this gives that stopping and
  starting the server loses nothing, whatever was asked of it before.
\<close>

subsection \<open>Clean text\<close>

definition clean_scalar :: "Data \<Rightarrow> bool" where
  "clean_scalar v = (case dvalue v of U_s s \<Rightarrow> string_fits s | _ \<Rightarrow> True)"

definition clean :: "Data \<Rightarrow> bool" where
  "clean v \<longleftrightarrow> clean_scalar v \<and>
    (case dvalue v of
       U_a (Some (Elements es)) \<Rightarrow> list_all clean_scalar es
     | U_a (Some (AppendValue e)) \<Rightarrow> clean_scalar e
     | _ \<Rightarrow> True)"

lemma nul_free_simps [simp]:
  "nul_free []" "nul_free (c # s) \<longleftrightarrow> c \<noteq> CHR 0x00 \<and> nul_free s" "nul_free (s @ t) \<longleftrightarrow> nul_free s \<and> nul_free t"
  by (auto simp: nul_free_def)

lemma nul_free_span: "nul_free s \<Longrightarrow> nul_free (takeWhile P s)" "nul_free s \<Longrightarrow> nul_free (dropWhile P s)"
  by (auto simp: nul_free_def dest: set_takeWhileD set_dropWhileD)

lemma nul_free_cut: "nul_free s \<Longrightarrow> nul_free (take n s)" "nul_free s \<Longrightarrow> nul_free (drop n s)" "nul_free s \<Longrightarrow> nul_free (tl s)"
  by (auto simp: nul_free_def dest: in_set_takeD in_set_dropD) (cases s; auto)

lemma nul_free_tokens:
  "nul_free s \<Longrightarrow> nul_free (skip_whitespace s)" "nul_free s \<Longrightarrow> nul_free (token s)" "nul_free s \<Longrightarrow> nul_free (after_token s)"
  by (simp_all add: skip_whitespace_def token_def after_token_def nul_free_span)

lemmas nul_free_parts = nul_free_span nul_free_cut nul_free_tokens

lemma unescape_nul: "unescape c = CHR 0x00 \<longleftrightarrow> c = CHR 0x00"
  by (auto simp: unescape_def)

lemma string_body_clean: "string_body p = Some (s, q) \<Longrightarrow> nul_free p \<Longrightarrow> nul_free s \<and> nul_free q"
  by (induction p arbitrary: s q rule: string_body.induct) (auto simp: unescape_nul split: if_splits)

lemma parse_number_clean: "parse_number p = Inr (v, q) \<Longrightarrow> nul_free p \<Longrightarrow> clean v \<and> nul_free q"
proof -
  assume p: "nul_free p"
  have int: "parse_int p = Some (i, r) \<Longrightarrow> nul_free r" for i r
    using p by (auto simp: parse_int_def Let_def nul_free_parts split: if_splits)
  have exp: "scan_exponent s = (x, r) \<Longrightarrow> nul_free s \<Longrightarrow> nul_free r" for s x r
    by (auto simp: scan_exponent_def Let_def nul_free_parts split: list.splits if_splits)
  have dbl: "parse_double p = Some (d, r) \<Longrightarrow> nul_free r" for d r
    using p by (auto simp: parse_double_def strtod_def Let_def nul_free_parts split: if_splits prod.splits intro: exp)
  assume "parse_number p = Inr (v, q)"
  then show ?thesis using int dbl by (auto simp: parse_number_def clean_def clean_scalar_def split: if_splits option.splits)
qed

lemma parse_quoted_clean: "parse_quoted p = Inr (v, q) \<Longrightarrow> nul_free p \<Longrightarrow> clean v \<and> nul_free q"
  using string_body_clean [of "tl p"]
  by (auto simp: parse_quoted_def parse_string_def clean_def clean_scalar_def string_fits_def limits split: if_splits option.splits list.splits)

lemma cleanD: "clean v \<Longrightarrow> clean_scalar v"
  by (simp add: clean_def)

lemma parse_array_clean:
  assumes "parse_array pv pe t = Some (Inr (v, q))" "nul_free t"
    and pv: "\<And>s v q. pv s = Some (Inr (v, q)) \<Longrightarrow> nul_free s \<Longrightarrow> clean v \<and> nul_free q"
    and pe: "\<And>s es t es' t' q. pe s es t = Some (Inr (es', t', q)) \<Longrightarrow> nul_free s \<Longrightarrow> list_all clean es \<Longrightarrow> list_all clean es' \<and> nul_free q"
  shows "clean v \<and> nul_free q"
proof -
  have t: "nul_free (skip_whitespace t)" using assms(2) by (simp add: nul_free_parts)
  consider (append) w r r' where "pv (drop 4 (skip_whitespace t)) = Some (Inr (w, r))" "skip_whitespace r = CHR '']'' # r'" "q = r'"
      "dvalue v = U_a (Some (AppendValue w))"
    | (empty) "q = tl (skip_whitespace t)" "dvalue v = U_a (Some (Elements []))"
    | (elems) es tag where "pe (skip_whitespace t) [] (-100) = Some (Inr (es, tag, q))" "dvalue v = U_a (Some (Elements es))"
    using assms(1) by (auto simp: parse_array_def Let_def split: if_splits option.splits sum.splits list.splits)
  then show ?thesis
  proof cases
    case append
    from pv [OF append(1)] t have "clean w" "nul_free r" by (simp_all add: nul_free_parts)
    from nul_free_parts(6) [OF this(2)] append(2,3) have "nul_free q" by simp
    with \<open>clean w\<close> append(4) show ?thesis by (simp add: clean_def clean_scalar_def cleanD)
  next
    case elems
    from pe [OF elems(1) t] have "list_all clean es" "nul_free q" by simp_all
    with elems(2) show ?thesis by (simp add: clean_def clean_scalar_def list_all_iff)
  qed (use t in \<open>simp add: nul_free_parts clean_def clean_scalar_def\<close>)
qed

lemma value_step_clean:
  assumes "value_step pv pe s = Some (Inr (v, q))" "nul_free s"
    and pv: "\<And>s v q. pv s = Some (Inr (v, q)) \<Longrightarrow> nul_free s \<Longrightarrow> clean v \<and> nul_free q"
    and pe: "\<And>s es t es' t' q. pe s es t = Some (Inr (es', t', q)) \<Longrightarrow> nul_free s \<Longrightarrow> list_all clean es \<Longrightarrow> list_all clean es' \<and> nul_free q"
  shows "clean v \<and> nul_free q"
proof -
  obtain c t where ct: "skip_whitespace s = c # t" using assms(1) by (auto simp: value_step_def split: list.splits)
  then have free: "nul_free (c # t)" "nul_free t" using nul_free_parts(6) [OF assms(2)] by simp_all
  have bool: "clean (Data i (U_b b))" for i b by (simp add: clean_def clean_scalar_def)
  have "parse_array pv pe t = Some (Inr (v, q)) \<Longrightarrow> clean v \<and> nul_free q"
    by (rule parse_array_clean [OF _ free(2) pv pe])
  then show ?thesis
    using assms(1) ct parse_quoted_clean [of "c # t" v q] parse_number_clean [of "c # t" v q] free(1) bool
    by (auto simp: value_step_def nul_free_cut split: if_splits)
qed

lemma elems_step_clean:
  assumes "elems_step pv pe s es t = Some (Inr (es', t', q))" "nul_free s" "list_all clean es"
    and pv: "\<And>s v q. pv s = Some (Inr (v, q)) \<Longrightarrow> nul_free s \<Longrightarrow> clean v \<and> nul_free q"
    and pe: "\<And>s es t es' t' q. pe s es t = Some (Inr (es', t', q)) \<Longrightarrow> nul_free s \<Longrightarrow> list_all clean es \<Longrightarrow> list_all clean es' \<and> nul_free q"
  shows "list_all clean es' \<and> nul_free q"
proof -
  obtain v q' c r where v: "pv (skip_whitespace s) = Some (Inr (v, q'))" "skip_whitespace q' = c # r"
    and rest: "(\<exists>t0. pe r (es @ [v]) t0 = Some (Inr (es', t', q))) \<or> es' = es @ [v] \<and> q = r"
    using assms(1)
    by (fastforce simp: elems_step_def Let_def split: if_splits option.splits sum.splits list.splits)
  from pv [OF v(1)] assms(2) have "clean v" "nul_free q'" by (simp_all add: nul_free_parts)
  moreover from nul_free_parts(6) [OF this(2)] v(2) have "nul_free r" by simp
  ultimately show ?thesis using rest assms(3) pe by auto
qed

lemma parse_value_clean:
  "parse_value n s = Some (Inr (v, q)) \<Longrightarrow> nul_free s \<Longrightarrow> clean v \<and> nul_free q"
  "parse_elems n s es t = Some (Inr (es', t', q)) \<Longrightarrow> nul_free s \<Longrightarrow> list_all clean es \<Longrightarrow> list_all clean es' \<and> nul_free q"
proof (induction n arbitrary: s v q es t es' t')
  case (Suc n)
  { case 1 from 1(1) show ?case unfolding parse_value.simps by (rule value_step_clean [OF _ 1(2) Suc.IH]) }
  { case 2 from 2(1) show ?case unfolding parse_elems.simps by (rule elems_step_clean [OF _ 2(2,3) Suc.IH]) }
qed simp_all

lemma parse_single_value_clean: "parse_single_value s = Inr (v, q) \<Longrightarrow> nul_free s \<Longrightarrow> clean v \<and> nul_free q"
  using parse_single_value_fuel [of s] parse_value_clean(1) [of "value_fuel s" s v q] by simp

lemma values_loop_clean: "values_loop n p = Inr vs \<Longrightarrow> nul_free p \<Longrightarrow> list_all clean vs"
proof (induction n p arbitrary: vs rule: values_loop.induct)
  case (2 n p)
  from 2(2) obtain v q where v: "parse_single_value (skip_whitespace p) = Inr (v, q)" by (auto split: sum.splits)
  from parse_single_value_clean [OF this] 2(3) have c: "clean v" "nul_free q" by (simp_all add: nul_free_parts)
  have r: "nul_free r" if "skip_whitespace q = c # r" for c r using nul_free_parts(6) [OF c(2)] that by simp
  from 2 v c r show ?case by (auto split: list.splits if_splits sum.splits)
qed simp

lemma update_values_loop_clean: "update_values_loop n p = Inr vs \<Longrightarrow> nul_free p \<Longrightarrow> list_all clean (map fst vs)"
proof (induction n p arbitrary: vs rule: update_values_loop.induct)
  case (2 n p)
  from 2(2) obtain v g q where v: "parse_update_value (skip_whitespace p) = Inr ((v, g), q)" by (auto split: sum.splits)
  then have c: "clean v" "nul_free q"
    using parse_single_value_clean [of "skip_whitespace p"] 2(3)
    by (auto simp: parse_update_value_def Let_def nul_free_parts clean_def clean_scalar_def split: if_splits sum.splits)
  have r: "nul_free r" if "skip_whitespace q = c # r" for c r using nul_free_parts(6) [OF c(2)] that by simp
  from 2 v c r show ?case by (auto split: list.splits if_splits sum.splits)
qed simp

lemma close_paren_clean: "close_paren prev d b p = Some s \<Longrightarrow> nul_free p \<Longrightarrow> nul_free s"
  by (induction prev d b p arbitrary: s rule: close_paren.induct) (auto split: if_splits)

lemma split_clean: "split_at_paren s = Inr (a, b) \<Longrightarrow> nul_free s \<Longrightarrow> nul_free b"
proof -
  assume split: "split_at_paren s = Inr (a, b)" and s: "nul_free s"
  then obtain c p where p: "dropWhile (\<lambda>c. c \<noteq> CHR ''('') (skip_whitespace s) = c # p" "close_paren None 1 False p = Some b"
    by (auto simp: split_at_paren_def Let_def split: list.splits option.splits)
  from nul_free_span(2) [OF nul_free_parts(6) [OF s], of "\<lambda>c. c \<noteq> CHR ''(''"] p(1) have "nul_free p" by simp
  from close_paren_clean [OF p(2) this] show ?thesis .
qed

fun clean_command :: "Command \<Rightarrow> bool" where
  "clean_command (OP_ADD d) = list_all clean (add_values d)"
| "clean_command (OP_UP d) = list_all clean (up_values d)"
| "clean_command (OP_ADD_KEY d) = nul_free (add_key_name d)"
| "clean_command _ = True"

lemma clean_errors [simp]:
  "clean_command (parse_error e d)" "clean_command (fields_error c)" "clean_command (values_error c)"
  "clean_command (args_error m ae)" "clean_command (split_error pe se)" "clean_command (names_error m i ne)"
  by (simp_all add: parse_error_def fields_error_def values_error_def args_error_def split_error_def names_error_def
      split: SplitError.splits NameError.splits ArgError.splits)

lemma clean_with [intro!]:
  "(\<And>m. clean_command (k m)) \<Longrightarrow> clean_command (with_name n s k)" "(\<And>i. clean_command (k' i)) \<Longrightarrow> clean_command (with_key s msg k')"
  by (auto simp: with_name_def with_key_def split: option.splits list.splits)

lemma tokenize_values_clean: "tokenize_values s = Inr vs \<Longrightarrow> nul_free s \<Longrightarrow> list_all clean vs"
  using values_loop_clean [of "count_values False 0 False 0 s" s]
  by (auto simp: tokenize_values_def Let_def pad_to_def list_all_iff clean_def clean_scalar_def split: if_splits sum.splits)

lemma tokenize_update_values_clean: "tokenize_update_values s = Inr vs \<Longrightarrow> nul_free s \<Longrightarrow> list_all clean (map fst vs)"
  using update_values_loop_clean [of "count_values False 0 False 0 s" s]
  by (auto simp: tokenize_update_values_def Let_def pad_to_def list_all_iff clean_def clean_scalar_def split: if_splits sum.splits)

lemma parse_add_clean: "nul_free s \<Longrightarrow> clean_command (parse_add s)"
  by (auto simp: parse_add_def Let_def split: sum.splits) (blast intro: tokenize_values_clean split_clean)+

lemma parse_up_clean: "nul_free s \<Longrightarrow> clean_command (parse_up s)"
  by (auto simp: parse_up_def split: sum.splits) (blast intro: tokenize_update_values_clean split_clean)

lemma parse_add_key_clean: "nul_free s \<Longrightarrow> clean_command (parse_add_key s)"
  by (auto simp: parse_add_key_def Let_def key_name_def nul_free_parts split: option.splits)

lemma parse_other_clean:
  "parse_create s = Some cmd \<Longrightarrow> clean_command cmd" "clean_command (parse_get s)" "clean_command (parse_del s)"
  "clean_command (parse_get_all s)" "clean_command (parse_search s)" "clean_command (parse_count s)"
  "clean_command (parse_create_index s)" "clean_command (parse_auth s)" "clean_command (parse_del_key s)"
  "clean_command (parse_del_table s)" "clean_command parse_list_keys" "clean_command parse_whoami"
  by (auto simp: parse_create_def parse_get_def parse_get_fields_def parse_get_row_def parse_del_def parse_get_all_def
      parse_get_all_fields_def parse_get_all_rows_def parse_search_def finish_search_def parse_count_def parse_create_index_def
      parse_auth_def parse_del_key_def parse_del_table_def parse_list_keys_def parse_whoami_def Let_def
      split: sum.splits option.splits if_splits SplitError.splits bind_splits prod.splits)

lemma parse_command_clean: "parse_command s = Some cmd \<Longrightarrow> nul_free s \<Longrightarrow> clean_command cmd"
  using parse_add_clean parse_up_clean parse_add_key_clean parse_other_clean
  by (auto simp: parse_command_def parse_args_def Let_def nul_free_parts split: if_splits option.splits)

lemma received_clean: "receive_data chunks = Line l \<Longrightarrow> nul_free l"
  using receive_loop_line by (auto simp: receive_data_def nul_free_def)

subsection \<open>Stores that fit a snapshot\<close>

text \<open>What a snapshot asks of a table, in terms of the abstract table, and what keeps its keys in range.\<close>

fun aval_fits :: "AbsVal \<Rightarrow> bool" where
  "aval_fits (A_string s) = string_fits s"
| "aval_fits (A_array vs) = list_all aval_fits vs"
| "aval_fits _ = True"

definition table_fits :: "Table \<Rightarrow> bool" where
  "table_fits t \<longleftrightarrow> name_fits MAX_DB_NAME_LENGTH (t_name t) \<and> list_all field_fits (t_fields t) \<and> length (t_fields t) + 1 < 2 ^ 31 \<and>
     0 < sint (t_next t) \<and>
     (\<forall>k r. t_rows t k = Some r \<longrightarrow> 0 \<le> sint k \<and> sint k < sint (t_next t) \<and> list_all aval_fits (a_vals r))"

definition store_fits :: "nat \<Rightarrow> Store \<Rightarrow> bool" where
  "store_fits strbytes st \<longleftrightarrow> store_safe st \<and> (\<forall>n t. tables st n = Some t \<longrightarrow> table_fits t) \<and>
     list_all (key_fits strbytes) (keys (g_auth_store st))"

lemma aval_fits_scalar: "scalar_ok t v \<Longrightarrow> aval_fits (abs_scalar t v) \<longleftrightarrow> (t = TYPE_STRING \<longrightarrow> string_fits (the (read_s (dvalue v))))"
  by (cases t) (simp_all add: abs_scalar_def scalar_ok_def)

lemma scalar_fits_abs: "scalar_ok t v \<Longrightarrow> scalar_fits t v \<longleftrightarrow> aval_fits (abs_scalar t v)"
  by (simp add: scalar_fits_def aval_fits_scalar)

lemma value_fits_abs:
  assumes "data_ok t v"
  shows "value_fits t v \<longleftrightarrow> aval_fits (abs_val t v)"
proof (cases "is_array_type t")
  case True
  from array_ok_list [OF assms this] obtain a where
    a: "read_a (dvalue v) = Some a" "list_all (scalar_ok (array_elem_type t)) (arr_list a)"
      "abs_val t v = A_array (map (abs_scalar (array_elem_type t)) (arr_list a))" .
  with True assms show ?thesis by (auto simp: value_fits_def list_all_iff scalar_fits_abs)
next
  case False
  with assms show ?thesis by (simp add: value_fits_def abs_val_def data_ok_def scalar_fits_abs)
qed

lemma row_fits_abs: "row_ok fs vs \<Longrightarrow> row_fits fs vs \<longleftrightarrow> list_all aval_fits (abs_vals fs vs)"
  unfolding row_ok_def row_fits_def
  by (induction rule: list_all2_induct) (simp_all add: value_fits_abs, simp add: abs_vals_def)

lemma table_fits_saved:
  assumes safe: "db_safe db" and fits: "table_fits (abs_db db)"
  shows "db_saved db"
proof -
  have "row_saved db r" if "r \<in> set (db_rows db)" for r
  proof -
    from that obtain k where node: "(k, r) \<in> set (hm_nodes (rowMap db))" using db_safeD(5) [OF safe] by auto
    then have row: "find_row db k = Some r" using find_row_node [OF safe] by blast
    have r: "row_ok (dbFields db) (rvalues r)" "keyed k r" using safe node by (auto simp: db_safe_def)
    then have key: "row_key r = k" by (simp add: keyed_row_key)
    have "row_ok (tl (dbFields db)) (tl (rvalues r))"
      using r(1) db_safeD(3) [OF safe] by (cases "dbFields db"; cases "rvalues r") (auto simp: row_ok_def)
    then have "row_fits (tl (dbFields db)) (tl (rvalues r)) \<longleftrightarrow> list_all aval_fits (a_vals (abs_row (dbFields db) r))"
      by (simp add: row_fits_abs abs_row_def)
    moreover have "t_rows (abs_db db) k = Some (abs_row (dbFields db) r)" using row by (simp add: abs_db_def)
    ultimately show ?thesis using fits r key unfolding table_fits_def row_saved_def by blast
  qed
  moreover have "length (dbFields db) < 2 ^ 31" using fits db_safeD(3) [OF safe] by (simp add: table_fits_def abs_db_def)
  ultimately show ?thesis using safe fits by (simp add: db_saved_def table_fits_def abs_db_def list_all_iff)
qed

lemma find_db_member: "distinct (map dbName dbs) \<Longrightarrow> db \<in> set dbs \<Longrightarrow> find_db dbs (dbName db) = Some db"
  by (induction dbs) (auto simp: rev_image_eqI)

lemma tables_member: "store_safe st \<Longrightarrow> db \<in> set (storage st) \<Longrightarrow> tables st (dbName db) = Some (abs_db db)"
  by (simp add: tables_def find_db_member store_ok_def)

lemma store_fits_saved: "store_fits strbytes st \<Longrightarrow> store_saved strbytes st"
  using tables_member table_fits_saved
  by (fastforce simp: store_fits_def store_saved_def list_all_iff store_ok_def auth_wf_def)

subsection \<open>The operations on a table\<close>

lemma clean_abs_scalar: "scalar_ok t v \<Longrightarrow> clean_scalar v \<Longrightarrow> aval_fits (abs_scalar t v)"
  by (auto simp: aval_fits_scalar clean_scalar_def scalar_ok_def string_fits_def split: UnionVal.splits)

lemma clean_abs:
  assumes "data_ok t v" "clean v"
  shows "aval_fits (abs_val t v)"
proof (cases "is_array_type t")
  case True
  from array_ok_list [OF assms(1) this] obtain a where
    a: "read_a (dvalue v) = Some a" "list_all (scalar_ok (array_elem_type t)) (arr_list a)"
      "abs_val t v = A_array (map (abs_scalar (array_elem_type t)) (arr_list a))" .
  then have "list_all clean_scalar (arr_list a)"
    using assms(2) by (cases "dvalue v") (auto simp: clean_def arr_list_def split: option.splits ArrayData.splits)
  with a show ?thesis by (simp add: list_all_iff clean_abs_scalar)
next
  case False
  with assms show ?thesis by (simp add: abs_val_def data_ok_def clean_abs_scalar cleanD)
qed

lemma clean_abs_vals: "row_ok fs vs \<Longrightarrow> list_all clean vs \<Longrightarrow> list_all aval_fits (abs_vals fs vs)"
  unfolding row_ok_def by (induction rule: list_all2_induct) (simp_all add: clean_abs, simp add: abs_vals_def)

lemma spec_add_fits:
  assumes "table_fits t" "list_all aval_fits vs" "sint (t_next t) < 2 ^ 31 - 1" "sint key < 2 ^ 31 - 1" "spec_add now t key vs = (rc, t')"
  shows "table_fits t'"
proof -
  have "0 < sint (t_next t)" using assms(1) by (simp add: table_fits_def)
  note ck = choose_key_below [OF this assms(3,4)]
  show ?thesis
    using assms(1,2,5) ck by (fastforce simp: table_fits_def spec_add_eq split: if_splits prod.splits)
qed

lemma spec_delete_fits: "table_fits t \<Longrightarrow> spec_delete t key = (rc, t') \<Longrightarrow> table_fits t'"
  by (auto simp: table_fits_def spec_delete_def split: if_splits)

definition upd_fits :: "Upd \<Rightarrow> bool" where
  "upd_fits u = (case u of Keep \<Rightarrow> True | Replace a \<Rightarrow> aval_fits a | Append e \<Rightarrow> aval_fits e)"

lemma spec_field_fits: "aval_fits a \<Longrightarrow> upd_fits u \<Longrightarrow> aval_fits (snd (spec_field a u))"
  by (auto simp: spec_field_def upd_fits_def split: Upd.splits AbsVal.splits)

lemma spec_fields_fits: "list_all aval_fits as \<Longrightarrow> list_all upd_fits us \<Longrightarrow> list_all aval_fits (snd (spec_fields as us))"
proof (induction as us rule: spec_fields.induct)
  case (1 a as u us)
  with spec_field_fits [of a u] show ?case by (auto split: prod.splits)
qed simp_all

lemma spec_update_fits:
  assumes "table_fits t" "list_all upd_fits us" "spec_update now t key us = (rc, t')"
  shows "table_fits t'"
proof (cases "t_rows t key")
  case None
  with assms show ?thesis by (simp add: spec_update_def)
next
  case (Some r)
  with assms(1) have "list_all aval_fits (a_vals r)" by (auto simp: table_fits_def)
  from spec_fields_fits [OF this assms(2)] obtain rc' vs where
    "spec_fields (a_vals r) us = (rc', vs)" "list_all aval_fits vs" by (metis prod.collapse)
  with assms(1,3) Some show ?thesis by (auto simp: table_fits_def spec_update_def split: if_splits)
qed

lemma abs_upd_fits:
  assumes "g \<or> data_ok t v" "clean v"
  shows "upd_fits (abs_upd t g v)"
proof (cases g)
  case False
  with assms have ok: "data_ok t v" by simp
  from append_request_ok [OF ok] obtain req where
    req: "append_request t v = Some req" "case req of None \<Rightarrow> True | Some e \<Rightarrow> is_array_type t \<and> scalar_ok (array_elem_type t) e" by blast
  show ?thesis
  proof (cases req)
    case None
    with False req clean_abs [OF ok assms(2)] show ?thesis by (simp add: abs_upd_def upd_fits_def)
  next
    case (Some e)
    with req have "clean_scalar e"
      using assms(2) by (cases "dvalue v") (auto simp: append_request_def clean_def split: if_splits option.splits ArrayData.splits)
    with Some False req show ?thesis by (simp add: abs_upd_def upd_fits_def clean_abs_scalar)
  qed
qed (simp add: abs_upd_def upd_fits_def)

lemma abs_upds_fits: "upd_ok fs gs vs \<Longrightarrow> list_all clean vs \<Longrightarrow> list_all upd_fits (abs_upds fs gs vs)"
  by (induction fs gs vs rule: upd_ok.induct) (simp_all add: abs_upd_fits)

subsection \<open>Requests\<close>

text \<open>The key counter of the table does not run past the largest \<open>int\<close>.\<close>

definition room_left :: "Store \<Rightarrow> Command \<Rightarrow> bool" where
  "room_left st cmd =
    (case cmd of
       OP_ADD d \<Rightarrow> (\<forall>t. tables st (add_dbName d) = Some t \<longrightarrow> sint (t_next t) < 2 ^ 31 - 1 \<and> sint (add_key d) < 2 ^ 31 - 1)
     | _ \<Rightarrow> True)"

lemma fits_step:
  assumes "store_fits strbytes st" "store_safe st'" "tables st' = (tables st)(n \<mapsto> t')" "table_fits t'" "g_auth_store st' = g_auth_store st"
  shows "store_fits strbytes st'"
  using assms by (auto simp: store_fits_def)

lemma fits_table: "store_fits strbytes st \<Longrightarrow> find_db (storage st) n = Some db \<Longrightarrow> store_safe st \<and> table_fits (abs_db db)"
  by (auto simp: store_fits_def tables_def)

lemma execute_add_fits:
  assumes fits: "store_fits strbytes st" and m: "add_meant st d" and c: "list_all clean (add_values d)"
    and room: "room_left st (OP_ADD d)" and ex: "execute_add now st d = Some (r, st')"
  shows "store_fits strbytes st'"
proof (cases "find_db (storage st) (add_dbName d)")
  case None
  with fits ex show ?thesis by (simp add: execute_add_def)
next
  case db: (Some db)
  have safe: "store_safe st" and t: "table_fits (abs_db db)" using fits_table [OF fits db] by simp_all
  consider (count) "length (add_values d) \<noteq> length (tl (dbFields db))"
    | (check) rc where "length (add_values d) = length (tl (dbFields db))" "validate_value_types db (add_values d) = Some rc" "rc \<noteq> 0"
    | (valid) "validate_value_types db (add_values d) = Some 0" "row_ok (tl (dbFields db)) (add_values d)"
    using m db validate_values_ok [of "tl (dbFields db)" "add_values d"] unfolding add_meant_def validate_value_types_def by metis
  then show ?thesis
  proof cases
    case valid
    from execute_add_refines [OF safe db valid(2,1), of now] ex obtain rc t' where
      s: "spec_add now (abs_db db) (if add_autoKey d then -1 else add_key d) (abs_vals (tl (dbFields db)) (add_values d)) = (rc, t')"
      "tables st' = (tables st)(add_dbName d \<mapsto> t')" "g_auth_store st' = g_auth_store st" "store_safe st'" by auto
    have "sint (t_next (abs_db db)) < 2 ^ 31 - 1" "sint (if add_autoKey d then -1 else add_key d) < 2 ^ 31 - 1"
      using room db by (auto simp: room_left_def tables_def)
    from spec_add_fits [OF t clean_abs_vals [OF valid(2) c] this s(1)] show ?thesis by (rule fits_step [OF fits s(4,2) _ s(3)])
  qed (use fits ex db find_db_cases_add [OF safe db] in \<open>auto simp: execute_add_def\<close>)
qed

lemma execute_up_fits:
  assumes fits: "store_fits strbytes st" and m: "up_meant st d" and c: "list_all clean (up_values d)"
    and ex: "execute_up now st d = Some (r, st')"
  shows "store_fits strbytes st'"
proof (cases "find_db (storage st) (up_dbName d)")
  case None
  with fits ex show ?thesis by (simp add: execute_up_def)
next
  case db: (Some db)
  let ?fs = "tl (dbFields db)" and ?gs = "flags_of (up_ignoreFlags d) (up_values d)"
  have safe: "store_safe st" and t: "table_fits (abs_db db)" using fits_table [OF fits db] by simp_all
  consider (count) "length (up_values d) \<noteq> length ?fs"
    | (check) e where "length (up_values d) = length ?fs" "up_check ?fs ?gs (up_values d) = Some (Some e)"
    | (valid) "up_check ?fs ?gs (up_values d) = Some None" "upd_ok ?fs ?gs (up_values d)"
    using m db up_check_ok [of ?fs ?gs "up_values d"] unfolding up_meant_def by (metis option.exhaust)
  then show ?thesis
  proof cases
    case valid
    from execute_up_refines [OF safe db valid(2,1), of now] ex obtain rc t' where
      s: "spec_update now (abs_db db) (up_key d) (abs_upds ?fs ?gs (up_values d)) = (rc, t')"
      "tables st' = (tables st)(up_dbName d \<mapsto> t')" "g_auth_store st' = g_auth_store st" "store_safe st'" by auto
    from spec_update_fits [OF t abs_upds_fits [OF valid(2) c] s(1)] show ?thesis by (rule fits_step [OF fits s(4,2) _ s(3)])
  qed (use fits ex db find_db_cases_add [OF safe db] in \<open>auto simp: execute_up_def\<close>)
qed

lemma execute_del_fits:
  assumes fits: "store_fits strbytes st" and ex: "execute_del st d = Some (r, st')"
  shows "store_fits strbytes st'"
proof (cases "find_db (storage st) (del_dbName d)")
  case None
  with fits ex show ?thesis by (simp add: execute_del_def)
next
  case db: (Some db)
  have safe: "store_safe st" and t: "table_fits (abs_db db)" using fits_table [OF fits db] by simp_all
  from execute_del_refines [OF safe db] ex obtain rc t' where
    s: "spec_delete (abs_db db) (del_key d) = (rc, t')" "tables st' = (tables st)(del_dbName d \<mapsto> t')"
      "g_auth_store st' = g_auth_store st" "store_safe st'" by auto
  from spec_delete_fits [OF t s(1)] show ?thesis by (rule fits_step [OF fits s(4,2) _ s(3)])
qed

lemma identifier_nul_free: "is_valid_identifier s \<Longrightarrow> nul_free s"
proof -
  have "isalnum c \<or> c = CHR ''_'' \<Longrightarrow> c \<noteq> CHR 0x00" for c
    by (auto simp: isalnum_def isalpha_def isupper_def isdigit_def)
  moreover assume "is_valid_identifier s"
  ultimately show ?thesis by (cases s) (auto simp: nul_free_def list_all_iff isalnum_def)
qed

lemma execute_create_fits:
  assumes fits: "store_fits strbytes st" and ok: "command_ok (OP_CREATE d)" and ex: "execute_create st d = Some (r, st')"
  shows "store_fits strbytes st'"
proof -
  have safe: "store_safe st" using fits by (simp add: store_fits_def)
  let ?t = "\<lparr>t_name = create_dbName d, t_fields = create_fields d, t_rows = (\<lambda>_. None), t_count = 0, t_next = 1\<rparr>"
  have "table_fits ?t"
    using ok identifier_nul_free
    by (auto simp: table_fits_def name_fits_def field_fits_def db_named_def field_named_ok_def list_all_iff limits)
  moreover have "st' = st \<or> tables st' = (tables st)(create_dbName d \<mapsto> ?t)" "g_auth_store st' = g_auth_store st" "store_safe st'"
    using execute_create_ok [OF safe, of d] ok ex by (auto simp: db_wf_def db_named_def split: if_splits)
  ultimately show ?thesis using fits fits_step [OF fits] by blast
qed

lemma execute_del_table_fits:
  assumes fits: "store_fits strbytes st" and ex: "execute_del_table st d = Some (r, st')"
  shows "store_fits strbytes st'"
proof -
  have safe: "store_safe st" using fits by (simp add: store_fits_def)
  from execute_del_table_ok [OF safe, of d] ex
  have "store_safe st'" "tables st' = (tables st)(del_table_dbName d := None)" "g_auth_store st' = g_auth_store st" by auto
  with fits show ?thesis by (auto simp: store_fits_def)
qed

lemma execute_create_index_fits:
  assumes fits: "store_fits strbytes st" and ex: "execute_create_index st d = Some (r, st')"
  shows "store_fits strbytes st'"
proof (cases "find_db (storage st) (create_index_dbName d)")
  case None
  with fits ex show ?thesis by (simp add: execute_create_index_def)
next
  case (Some db)
  have safe: "store_safe st" using fits by (simp add: store_fits_def)
  from execute_create_index_ok [OF safe Some] ex
  have "store_safe st'" "tables st' = tables st" "g_auth_store st' = g_auth_store st" by auto
  with fits show ?thesis by (simp add: store_fits_def)
qed


lemma execute_add_key_fits:
  assumes fits: "store_fits strbytes st" and ok: "command_ok (OP_ADD_KEY d)" and c: "nul_free (add_key_name d)"
    and hash: "\<And>tok h. pwhash_str sod tok = Some h \<Longrightarrow> length h = strbytes"
  shows "store_fits strbytes (snd (execute_add_key sod st d))"
proof -
  have "store_safe (snd (execute_add_key sod st d))" "tables (snd (execute_add_key sod st d)) = tables st"
    using execute_add_key_ok [of db_safe st d sod] fits ok by (simp_all add: store_fits_def tables_def fun_eq_iff)
  moreover have "list_all (key_fits strbytes) (keys (g_auth_store (snd (execute_add_key sod st d))))"
    using fits ok c hash
    by (auto simp: store_fits_def execute_add_key_def auth_generate_token_def auth_add_key_def key_fits_def name_fits_def
        split: option.splits prod.splits if_splits)
  ultimately show ?thesis using fits by (simp add: store_fits_def)
qed

lemma execute_del_key_fits:
  assumes fits: "store_fits strbytes st"
  shows "store_fits strbytes (snd (execute_del_key st d))"
proof -
  have "store_safe (snd (execute_del_key st d))" "tables (snd (execute_del_key st d)) = tables st"
    using execute_del_key_ok [of db_safe st d] fits by (simp_all add: store_fits_def tables_def fun_eq_iff)
  moreover have "list_all (key_fits strbytes) (keys (g_auth_store (snd (execute_del_key st d))))"
    using fits
    by (auto simp: store_fits_def execute_del_key_def auth_del_key_def split: option.splits prod.splits if_splits dest!: del_first_Some)
  ultimately show ?thesis using fits by (simp add: store_fits_def)
qed

lemma execute_command_fits:
  assumes fits: "store_fits strbytes st" and ok: "command_ok cmd" "clean_command cmd" "command_meant st cmd" "room_left st cmd"
    and hash: "\<And>tok h. pwhash_str (sodium env) tok = Some h \<Longrightarrow> length h = strbytes"
    and ex: "execute_command env st cmd = Some (r, st')"
  shows "store_fits strbytes st'"
proof (cases cmd)
  case (OP_CREATE d)
  with ok(1) ex execute_create_fits [OF fits] show ?thesis by (simp add: execute_command_def)
next
  case (OP_ADD d)
  with ok ex execute_add_fits [OF fits] show ?thesis by (simp add: execute_command_def command_meant_def)
next
  case (OP_UP d)
  with ok ex execute_up_fits [OF fits] show ?thesis by (simp add: execute_command_def command_meant_def)
next
  case (OP_DEL d)
  with ex execute_del_fits [OF fits] show ?thesis by (simp add: execute_command_def)
next
  case (OP_CREATE_INDEX d)
  with ex execute_create_index_fits [OF fits] show ?thesis by (simp add: execute_command_def)
next
  case (OP_DEL_TABLE d)
  with ex execute_del_table_fits [OF fits] show ?thesis by (simp add: execute_command_def)
next
  case (OP_ADD_KEY d)
  with ok ex execute_add_key_fits [OF fits, of d "sodium env"] hash show ?thesis by (simp add: execute_command_def)
next
  case (OP_DEL_KEY d)
  with ex execute_del_key_fits [OF fits, of d] show ?thesis by (simp add: execute_command_def)
qed (use fits ex in \<open>auto simp: execute_command_def split: bind_splits\<close>)

subsection \<open>Events and rounds\<close>

text \<open>
  What is asked of an event: a request is a line that \<open>receive_data\<close> took from the connection, it fits the
  tables as they are when it arrives, and the key counter has room; and the hashes that libsodium returns
  have the length it documents, \<open>crypto_pwhash_STRBYTES\<close>.
\<close>

definition event_fits :: "nat \<Rightarrow> Env \<Rightarrow> Server \<Rightarrow> Event \<Rightarrow> bool" where
  "event_fits strbytes env sv ev \<longleftrightarrow> (\<forall>tok h. pwhash_str (sodium env) tok = Some h \<longrightarrow> length h = strbytes) \<and>
    event_meant sv ev \<and>
    (\<forall>fd line. ev = Readable fd (Line line) \<longrightarrow> (\<exists>chunks. receive_data chunks = Line line) \<and>
       (\<forall>cmd. parse_command line = Some cmd \<longrightarrow> room_left (store sv) cmd))"

lemma handle_event_fits:
  assumes fits: "store_fits strbytes (store sv)" and ev: "event_fits strbytes env sv ev"
    and h: "handle_event env sv ev = Some (sv', out)"
  shows "store_fits strbytes (store sv')"
proof (cases "store sv' = store sv")
  case False
  from handle_event_store [OF h False] obtain fd line cmd where
    e: "ev = Readable fd (Line line)" "parse_command line = Some cmd" "\<not> readonly_op cmd" by blast
  from e h False obtain rep where hc: "handle_command env sv fd cmd = Some (sv', rep)"
    by (auto simp: handle_event_def split: if_splits bind_splits)
  then have "run_command env sv fd cmd = Some (sv', rep)"
    using False by (cases rule: handle_command_cases [where cmd = cmd and env = env and sv = sv and fd = fd]) auto
  then obtain r where "execute_command env (store sv) (fill_whoami (cm sv) fd cmd) = Some (r, store sv')"
    by (auto simp: run_command_def split: bind_splits)
  moreover have "fill_whoami (cm sv) fd cmd = cmd" using e(3) by (cases cmd) (simp_all add: fill_whoami_def readonly_op_def)
  moreover have "command_ok cmd" using parse_command_ok [of line] e(2) by auto
  moreover have "clean_command cmd" using ev e received_clean parse_command_clean [OF e(2)] unfolding event_fits_def by blast
  moreover have "command_meant (store sv) cmd" "room_left (store sv) cmd"
      "\<And>tok h. pwhash_str (sodium env) tok = Some h \<Longrightarrow> length h = strbytes"
    using ev e by (auto simp: event_fits_def event_meant_def)
  ultimately show ?thesis using execute_command_fits [OF fits] by metis
qed (use fits in simp)

fun events_fit :: "nat \<Rightarrow> (Env \<times> Event) list \<Rightarrow> Server \<Rightarrow> bool" where
  "events_fit strbytes [] sv = True"
| "events_fit strbytes ((env, ev) # evs) sv \<longleftrightarrow> event_fits strbytes env sv ev \<and>
     (case handle_event env sv ev of None \<Rightarrow> True | Some (sv', out) \<Rightarrow> events_fit strbytes evs sv')"

lemma handle_events_fit:
  "store_fits strbytes (store sv) \<Longrightarrow> events_fit strbytes evs sv \<Longrightarrow> handle_events evs sv = Some sv' \<Longrightarrow>
     store_fits strbytes (store sv')"
proof (induction evs arbitrary: sv)
  case (Cons e evs)
  obtain env ev where e: "e = (env, ev)" by force
  with Cons.prems(3) obtain sv1 out where h: "handle_event env sv ev = Some (sv1, out)" "handle_events evs sv1 = Some sv'"
    by (auto split: bind_splits)
  with Cons.prems(2) e handle_event_fits [OF Cons.prems(1) _ h(1)] show ?case by (auto intro: Cons.IH [OF _ _ h(2)])
qed simp

subsection \<open>Start-up\<close>

lemma restored_fits:
  assumes safe: "db_safe db" and fits: "table_fits (abs_db db)"
  shows "table_fits (restored_db db)"
proof -
  let ?ks = "map row_key (db_rows db)" and ?m = "restored_next (map row_key (db_rows db))"
  have node: "k \<in> set ?ks \<longleftrightarrow> t_rows (abs_db db) k \<noteq> None" for k
    using find_row_node [OF safe, of k] unfolding row_keys [OF safe] by (force simp: abs_db_def)
  have "sint k < sint (t_next (abs_db db))" "0 \<le> sint k" if "k \<in> set ?ks" for k
    using that fits unfolding node table_fits_def by blast+
  moreover have "sint (t_next (abs_db db)) < 2 ^ 31" using sint_lt [of "t_next (abs_db db)"] by simp
  ultimately have "\<forall>k \<in> set ?ks. 0 \<le> sint k \<and> sint k < 2 ^ 31 - 1" by fastforce
  from restored_next_aux [of 1, OF _ _ this] have "0 < sint ?m" "\<forall>k \<in> set ?ks. sint k < sint ?m"
    by (simp_all add: restored_next_def Let_def)
  then have "sint k < sint ?m" if "t_rows (abs_db db) k = Some r" for k r using that node [of k] by blast
  with \<open>0 < sint ?m\<close> fits show ?thesis unfolding table_fits_def restored_db_def by auto
qed

lemma restored_store_fits:
  assumes fits: "store_fits strbytes st" and r: "restored_store st st'"
  shows "store_fits strbytes st'"
proof -
  note ok = restored_store_ok [OF store_fits_saved [OF fits] r]
  have "table_fits t" if t: "tables st' n = Some t" for n t
  proof -
    from t ok(2) [of n] obtain db where db: "find_db (storage st) n = Some db" "t = restored_db db" by auto
    with fits_table [OF fits db(1)] find_db_ok [OF _ db(1)] restored_fits show ?thesis by blast
  qed
  with ok(1) store_wf_safe r fits show ?thesis by (auto simp: store_fits_def restored_store_def)
qed

text \<open>What is under a path: no file, or a complete snapshot of a store that fits.\<close>

definition file_fits :: "nat \<Rightarrow> string option \<Rightarrow> bool" where
  "file_fits strbytes f = (case f of None \<Rightarrow> True | Some bs \<Rightarrow> \<exists>st. store_fits strbytes st \<and> snapshot_of strbytes st bs)"

lemma snapshot_bytes: "writes (write_snapshot strbytes st) bs \<Longrightarrow> snapshot_of strbytes st bs' \<Longrightarrow> bs' = bs"
proof -
  assume w: "writes (write_snapshot strbytes st) bs" and "snapshot_of strbytes st bs'"
  then obtain n f where f: "write_snapshot strbytes st \<lparr>written = [], space_left = n\<rparr> = Some (0, f)" "written f = bs'"
    by (auto simp: snapshot_of_def)
  from w have "write_snapshot strbytes st \<lparr>written = [], space_left = n\<rparr> = Some (0, \<lparr>written = bs, space_left = n - length bs\<rparr>) \<or>
      (\<exists>f'. write_snapshot strbytes st \<lparr>written = [], space_left = n\<rparr> = Some (-1, f'))"
    unfolding writes_def by (drule_tac x = "\<lparr>written = [], space_left = n\<rparr>" in spec) (auto split: if_splits)
  with f show "bs' = bs" by auto
qed

lemma load_fits:
  assumes f: "file_fits strbytes (fs (effective_path p))"
    and load: "persistence_load_all strbytes now readable p fs empty_store = Some (rc, st)"
  shows "store_fits strbytes st"
proof -
  have empty: "store_fits strbytes empty_store"
    by (simp add: empty_store_def store_fits_def store_ok_def tables_def auth_wf_def auth_store_init_def)
  show ?thesis
  proof (cases "fs (effective_path p)")
    case (Some bs)
    with f obtain st0 where st0: "store_fits strbytes st0" "snapshot_of strbytes st0 bs" by (auto simp: file_fits_def)
    from snapshot_round_trip [OF store_fits_saved [OF st0(1)]] snapshot_bytes [OF _ st0(2)] empty_store_ok(1)
    obtain st' where "load_snapshot strbytes now empty_store bs = Some (0, st')" "restored_store st0 st'" by metis
    with restored_store_fits [OF st0(1)] load Some empty show ?thesis by (auto simp: persistence_load_all_def split: if_splits)
  qed (use load empty in \<open>simp add: persistence_load_all_def\<close>)
qed

lemma bootstrap_fits:
  assumes fits: "store_fits strbytes st" and hash: "\<And>tok h. pwhash_str sod tok = Some h \<Longrightarrow> length h = strbytes"
  shows "store_fits strbytes (bootstrap sod st)"
proof (cases "keys (g_auth_store st) = []")
  case True
  let ?d = "\<lparr>add_key_name = ''admin'', add_key_role = ROLE_ADMIN\<rparr>"
  have "bootstrap sod st = snd (execute_add_key sod st ?d)"
    using True by (simp add: bootstrap_def execute_add_key_def split: prod.splits)
  moreover
  have "command_ok (OP_ADD_KEY ?d)" "nul_free (add_key_name ?d)" by (simp_all add: auth_limits)
  with execute_add_key_fits [OF fits, of ?d sod] hash have "store_fits strbytes (snd (execute_add_key sod st ?d))" by blast
  ultimately show ?thesis by simp
qed (use fits in simp)

lemma save_file_fits:
  assumes "persistence_save_all strbytes disk p st fs = Some (rc, fs')" "store_fits strbytes st" "file_fits strbytes (fs (effective_path p))"
  shows "file_fits strbytes (fs' (effective_path p))"
  using save_file [OF assms(1)] assms(2,3) by (auto simp: file_fits_def)

lemma start_store_fits:
  assumes f: "file_fits strbytes (fs (effective_path (Some path)))"
    and hash: "\<And>tok h. pwhash_str (start_sodium se) tok = Some h \<Longrightarrow> length h = strbytes"
    and start: "start_store strbytes se path fs = Some (st, fs')"
  shows "store_fits strbytes st \<and> file_fits strbytes (fs' (effective_path (Some path)))"
proof -
  obtain rc st0 where load: "persistence_load_all strbytes (start_time se) (start_readable se) (Some path) fs empty_store = Some (rc, st0)"
    "st = bootstrap (start_sodium se) st0"
    "fs' = fs \<or> (\<exists>rc'. persistence_save_all strbytes (start_disk se) (Some path) st fs = Some (rc', fs'))"
    using start by (auto simp: start_store_def Let_def split: bind_splits if_splits)
  have "store_fits strbytes st" unfolding load(2) by (rule bootstrap_fits [OF load_fits [OF f load(1)] hash])
  with load(3) f save_file_fits show ?thesis by blast
qed

subsection \<open>The life of a server\<close>

text \<open>
  A server and its files from the first start, where there is no snapshot yet, on: the rounds of the loop,
  and starts after a stop, with or without the handler that runs at exit, and whatever the disk did.
\<close>

inductive life :: "nat \<Rightarrow> RuntimeConfig \<Rightarrow> Process \<Rightarrow> bool" for strbytes cfg where
  first: "fs (snapshotPath cfg) = None \<Longrightarrow> start_process strbytes se cfg c fs = Some p \<Longrightarrow>
     \<forall>tok h. pwhash_str (start_sodium se) tok = Some h \<longrightarrow> length h = strbytes \<Longrightarrow> life strbytes cfg p"
| round: "life strbytes cfg p \<Longrightarrow> events_fit strbytes evs (server p) \<Longrightarrow>
     serve_round strbytes cfg evs ts disk p = Some p' \<Longrightarrow> life strbytes cfg p'"
| again: "life strbytes cfg p \<Longrightarrow> fs = disk_files p \<or> cleanup_handler strbytes disk cfg p = Some fs \<Longrightarrow>
     start_process strbytes se cfg c fs = Some p' \<Longrightarrow>
     \<forall>tok h. pwhash_str (start_sodium se) tok = Some h \<longrightarrow> length h = strbytes \<Longrightarrow> life strbytes cfg p'"

lemma config_path:
  "config_ok cfg \<Longrightarrow> effective_path (Some (snapshotPath cfg)) = snapshotPath cfg"
  "config_ok cfg \<Longrightarrow> copy_name RUNTIME_CONFIG_PATH_MAX (snapshotPath cfg) = snapshotPath cfg"
  "config_ok cfg \<Longrightarrow> snapshotPath cfg \<noteq> []"
  by (simp_all add: effective_path_def config_ok_def)

lemma start_process_fits:
  assumes cfg: "config_ok cfg" and f: "file_fits strbytes (fs (snapshotPath cfg))"
    and hash: "\<forall>tok h. pwhash_str (start_sodium se) tok = Some h \<longrightarrow> length h = strbytes"
    and start: "start_process strbytes se cfg c fs = Some p"
  shows "store_fits strbytes (store (server p)) \<and> file_fits strbytes (disk_files p (snapshotPath cfg))"
proof -
  from start obtain st fs' where s: "start_store strbytes se (snapshotPath cfg) fs = Some (st, fs')" "store (server p) = st" "disk_files p = fs'"
    by (auto simp: start_process_def split: bind_splits)
  from start_store_fits [OF _ _ s(1)] f hash s(2,3) show ?thesis by (simp add: config_path(1) [OF cfg])
qed

lemma life_fits:
  assumes cfg: "config_ok cfg" and run: "life strbytes cfg p"
  shows "store_fits strbytes (store (server p)) \<and> file_fits strbytes (disk_files p (snapshotPath cfg))"
  using run
proof (induction rule: life.induct)
  case (first fs se c p)
  then show ?case by (intro start_process_fits [OF cfg]) (simp_all add: file_fits_def)
next
  case (round p evs ts disk p')
  from round.hyps(3) have "handle_events evs (server p) = Some (server p')" by (auto simp: serve_round_def split: bind_splits)
  with round.IH round.hyps(2) handle_events_fit have "store_fits strbytes (store (server p'))" by blast
  with round_file [OF round.hyps(3)] round.IH show ?case by (auto simp: config_path(1) [OF cfg] file_fits_def)
next
  case (again p fs disk se c p')
  have "fs = disk_files p \<or> (\<exists>rc. persistence_save_all strbytes disk (Some (snapshotPath cfg)) (store (server p)) (disk_files p) = Some (rc, fs))"
    using again.hyps(2) config_path [OF cfg] by (auto simp: cleanup_handler_def split: bind_splits)
  then have "file_fits strbytes (fs (snapshotPath cfg))"
    using again.IH save_file_fits by (metis config_path(1) [OF cfg])
  then show ?case by (rule start_process_fits [OF cfg _ again.hyps(4,3)])
qed

subsection \<open>Properties\<close>

text \<open>
  A life: the first start makes the key of the administrator, who logs in, makes a table and adds a row. The
  password hashes of this libsodium have six bytes.
\<close>

definition six_sodium :: Sodium where
  "six_sodium = demo_sodium\<lparr>pwhash_str := (\<lambda>tok. Some (take 6 (tok @ replicate 6 (CHR ''0''))))\<rparr>"

definition six_env :: Env where
  "six_env = \<lparr>time_now = 5, sodium = six_sodium\<rparr>"

definition six_start :: StartEnv where
  "six_start = \<lparr>start_time = 7, start_readable = True, start_disk = good_disk, start_clock = None, start_sodium = six_sodium\<rparr>"

definition first_requests :: "(Env \<times> Event) list" where
  "first_requests = [(six_env, Incoming 9 True), (six_env, Readable 9 (Line ''AUTH c0ffee'')),
     (six_env, Readable 9 (Line ''CREATE u (int n)''))]"

definition next_requests :: "(Env \<times> Event) list" where
  "next_requests = [(six_env, Readable 9 (Line ''ADD u * (5)''))]"

lemma six_bytes: "pwhash_str six_sodium tok = Some h \<Longrightarrow> length h = 6"
  by (auto simp: six_sodium_def)

lemma demo_life_runs:
  "case start_process 6 six_start default_config (snd (init_connection_manager 4 3 demo_cm)) Map.empty of
     None \<Rightarrow> False
   | Some p1 \<Rightarrow>
       (case serve_round 6 default_config first_requests None good_disk p1 of
          None \<Rightarrow> False
        | Some p2 \<Rightarrow>
            map_option (\<lambda>db. (tl (dbFields db), nextKey db)) (find_db (storage (store (server p2))) ''u'') =
              Some ([\<lparr>fieldName = ''n'', fieldType = TYPE_INT\<rparr>], 1) \<and>
            (case serve_round 6 default_config next_requests None good_disk p2 of
               None \<Rightarrow> False
             | Some p3 \<Rightarrow> map_option rowsCount (find_db (storage (store (server p3))) ''u'') = Some 1 \<and>
                 keys (g_auth_store (store (server p3))) \<noteq> []))"
  by code_simp

lemma first_parsed:
  "parse_command ''AUTH c0ffee'' = Some (OP_AUTH \<lparr>auth_token = ''c0ffee''\<rparr>)"
  "parse_command ''CREATE u (int n)'' = Some (OP_CREATE \<lparr>create_dbName = ''u'', create_fields = [\<lparr>fieldName = ''n'', fieldType = TYPE_INT\<rparr>]\<rparr>)"
  "parse_command ''ADD u * (5)'' = Some (OP_ADD \<lparr>add_dbName = ''u'', add_key = 0, add_values = [Data (-2) (U_i 5)], add_autoKey = True\<rparr>)"
  by code_simp+

lemma first_received:
  "receive_data [''AUTH c0ffee'' @ [newline]] = Line ''AUTH c0ffee''"
  "receive_data [''CREATE u (int n)'' @ [newline]] = Line ''CREATE u (int n)''"
  "receive_data [''ADD u * (5)'' @ [newline]] = Line ''ADD u * (5)''"
  by code_simp+

lemma six_request_fits:
  assumes "receive_data chunks = Line line" "parse_command line = Some cmd" "command_meant (store sv) cmd" "room_left (store sv) cmd"
  shows "event_fits 6 six_env sv (Readable fd (Line line))"
  using assms six_bytes by (auto simp: event_fits_def event_meant_def six_env_def)

lemma first_requests_fit: "events_fit 6 first_requests sv"
  using six_request_fits [OF first_received(1) first_parsed(1)] six_request_fits [OF first_received(2) first_parsed(2)] six_bytes
  by (auto simp: first_requests_def event_fits_def event_meant_def six_env_def command_meant_def room_left_def limits split: option.splits)

lemma next_requests_fit:
  assumes "map_option (\<lambda>db. (tl (dbFields db), nextKey db)) (find_db (storage (store sv)) ''u'') =
    Some ([\<lparr>fieldName = ''n'', fieldType = TYPE_INT\<rparr>], 1)"
  shows "events_fit 6 next_requests sv"
proof -
  obtain db where "find_db (storage (store sv)) ''u'' = Some db" "tl (dbFields db) = [\<lparr>fieldName = ''n'', fieldType = TYPE_INT\<rparr>]" "nextKey db = 1"
    using assms by auto
  then have "event_fits 6 six_env sv (Readable 9 (Line ''ADD u * (5)''))"
    by (intro six_request_fits [OF first_received(3) first_parsed(3)])
      (simp_all add: command_meant_def add_meant_def tagged_def scalar_tagged_def array_tagged_def scalar_tag_def array_tag_def
        int_array_only_def room_left_def tables_def abs_db_def)
  then show ?thesis by (auto simp: next_requests_def split: option.splits)
qed

lemma demo_life:
  "\<exists>p db. life 6 default_config p \<and> keys (g_auth_store (store (server p))) \<noteq> [] \<and>
     find_db (storage (store (server p))) ''u'' = Some db \<and> rowsCount db = 1"
proof -
  obtain p1 p2 p3 db where
    p1: "start_process 6 six_start default_config (snd (init_connection_manager 4 3 demo_cm)) Map.empty = Some p1" and
    p2: "serve_round 6 default_config first_requests None good_disk p1 = Some p2"
      "map_option (\<lambda>db. (tl (dbFields db), nextKey db)) (find_db (storage (store (server p2))) ''u'') =
         Some ([\<lparr>fieldName = ''n'', fieldType = TYPE_INT\<rparr>], 1)" and
    p3: "serve_round 6 default_config next_requests None good_disk p2 = Some p3"
      "find_db (storage (store (server p3))) ''u'' = Some db" "rowsCount db = 1" "keys (g_auth_store (store (server p3))) \<noteq> []"
    using demo_life_runs by (auto split: option.splits)
  have "life 6 default_config p1" using six_bytes by (intro life.first [OF _ p1]) (simp_all add: six_start_def)
  from life.round [OF this first_requests_fit p2(1)] have "life 6 default_config p2" .
  from life.round [OF this next_requests_fit [OF p2(2)] p3(1)] p3(2-4) show ?thesis by blast
qed

text \<open>
  C8. Stopping and starting again loses nothing, whatever was asked of the server before: from the first start
  on, through any number of rounds, saves, crashes and restarts, as long as requests fit the tables and the
  key counters stay below the largest \<open>int\<close>, the handler that runs at exit saves the store if the disk has
  room, and the next start finds the same tables, rows, timestamps and keys, with the key counters recomputed.
  At least one key has to be left, and the path of the snapshot has fewer than 508 bytes.
\<close>

theorem nothing_is_lost:
  assumes "life strbytes cfg p" "keys (g_auth_store (store (server p))) \<noteq> []" "config_ok cfg" "length (snapshotPath cfg) < 508"
  shows "\<exists>n. \<forall>disk se. disk_ok n disk \<and> start_readable se \<longrightarrow>
    (\<exists>fs st'. cleanup_handler strbytes disk cfg p = Some fs \<and> start_store strbytes se (snapshotPath cfg) fs = Some (st', fs) \<and>
       store_wf st' \<and> g_auth_store st' = g_auth_store (store (server p)) \<and>
       (\<forall>t. tables st' t = map_option restored_db (find_db (storage (store (server p))) t)))"
  using life_fits [OF assms(3,1)] by (intro restart_ok [OF _ assms(2-4)]) (simp add: store_fits_saved)

theorem nothing_is_lost_witness:
  "\<exists>p disk fs st' t. life 6 default_config p \<and> cleanup_handler 6 disk default_config p = Some fs \<and>
     start_store 6 six_start (snapshotPath default_config) fs = Some (st', fs) \<and> tables st' ''u'' = Some t \<and> t_count t = 1"
proof -
  obtain p db where p: "life 6 default_config p" "keys (g_auth_store (store (server p))) \<noteq> []"
    "find_db (storage (store (server p))) ''u'' = Some db" "rowsCount db = 1"
    using demo_life by blast
  have "length (snapshotPath default_config) < 508" by (simp add: default_config_def config_limits)
  from nothing_is_lost [OF p(1,2) default_config_ok this] obtain n where
    n: "\<And>disk se. disk_ok n disk \<Longrightarrow> start_readable se \<Longrightarrow>
      \<exists>fs st'. cleanup_handler 6 disk default_config p = Some fs \<and> start_store 6 se (snapshotPath default_config) fs = Some (st', fs) \<and>
        (\<forall>t. tables st' t = map_option restored_db (find_db (storage (store (server p))) t))" by blast
  let ?disk = "\<lparr>open_ok = True, disk_room = n, flush_ok = True, close_ok = True, rename_ok = True, remove_ok = True, reached = 0\<rparr>"
  have "disk_ok n ?disk" "start_readable six_start" by (simp_all add: disk_ok_def six_start_def)
  from n [OF this] p show ?thesis by (fastforce simp: restored_db_def abs_db_def)
qed

end
