(* ===== verification/Spec2Isabelle.thy ===== *)
theory Spec2Isabelle
  imports Descriptors Command_Text Durability
begin

text \<open>
  Verification of the poudb server: an in-memory table store with typed fields, served over TCP to
  clients that log in with tokens, and saved to a snapshot file. This theory imports the whole
  development and holds the properties that span its parts.

  \<^bold>\<open>How the program is put together.\<close> \<open>src/main.c\<close> reads the configuration, loads the snapshot, makes a
  first administrator key when there is none, and then waits for events: a signal, a new connection, or
  data on a connection. A line of data is received (\<open>net.c\<close>), parsed (\<open>db/parser.c\<close>), checked against the
  level of the connection (\<open>connection_manager.c\<close>, \<open>auth.c\<close>) and executed (\<open>db/operations.c\<close>) on the
  tables (\<open>db/data_model.c\<close>), whose rows live in a hash map (\<open>utils/hashmap.c\<close>) with optional hash indexes
  per field; the result goes back as text. After each round of events a timer (\<open>utils/autosave.c\<close>) may
  save a snapshot (\<open>db/persistence.c\<close>), and so does the exit handler.

  \<^bold>\<open>Conventions.\<close> A function whose C counterpart can run into undefined behaviour (the wrong member of a
  union, a wild pointer, an access out of bounds) returns an option, with None for that case; the type is
  \<open>run\<close>. Status codes are kept as the C code has them. \<open>int\<close> is a 32-bit word where the code can overflow
  it (\<open>cint\<close>: keys and key counters) and \<open>int\<close> elsewhere, with \<open>wrap32\<close> written out where a sum may leave
  the range; doubles are their 64 bits. What the environment decides is an argument: the clock, libsodium
  (\<open>Sodium\<close>), the reads and writes of a socket, the disk (\<open>Disk\<close>), what inih makes of a file (\<open>IniFile\<close>).

  \<^bold>\<open>Theories, in the order of the code they model.\<close>
  \<^item> \<open>C_Prelude\<close>: words, C strings, the \<open>run\<close> combinators and the lemmas on lists and maps all parts share.
  \<^item> \<open>Hashmap\<close>: \<open>utils/hashmap.c\<close>, bucket lists with rehashing; the locale \<open>row_store\<close> states the map
    interface, and tables use it through its interpretation.
  \<^item> \<open>Float64\<close>, \<open>Values\<close>: doubles by their bits, printing with \<open>%g\<close> and reading; the tagged union \<open>Data\<close>
    with hashing, comparison, cloning and release, and the abstract value of a \<open>Data\<close>.
  \<^item> \<open>Field_Index\<close>, \<open>Data_Model\<close>: indexes, rows, tables and the list of tables of \<open>db/data_model.c\<close>. The
    locale \<open>value_index\<close> relates hashing to equality, for the 32 buckets an index has.
  \<^item> \<open>Table_Facts\<close>: the invariants \<open>db_safe\<close> and \<open>db_wf\<close>, the abstract table, and the refinement of
    adding, updating and deleting rows.
  \<^item> \<open>Table_Format\<close>: the printing of tables and arrays in \<open>db/operations.c\<close>, with buffer sizes and writes.
  \<^item> \<open>Auth\<close>, \<open>Command\<close>: the key store of \<open>auth.c\<close>; the commands of \<open>db/parser.h\<close>.
  \<^item> \<open>Operations\<close>, \<open>Operations_Facts\<close>: the command handlers of \<open>db/operations.c\<close>, that they are defined
    for requests that fit the tables, and what each does.
  \<^item> \<open>Parser\<close>, \<open>Parser_Facts\<close>: \<open>db/parser.c\<close>, that every line parses to a command within the bounds the
    handlers rely on, and round trips of numbers and strings. Nested values are read with fuel
    \<open>2 * length + 2\<close>, proved to be enough for every input.
  \<^item> \<open>Command_Text\<close>: a printer for commands, which the parser inverts; the locale \<open>list_reader\<close> carries the
    step from one item to a list of them for values, values of updates and field definitions.
  \<^item> \<open>Ownership\<close>: the release of commands, \<open>free_command\<close> and its helpers, with the number of blocks given
    back against the number allocated.
  \<^item> \<open>Connection_Manager\<close>, \<open>Net\<close>: the client table, with the locale \<open>session_table\<close> for what it promises the
    server; receiving a line and sending all bytes.
  \<^item> \<open>Persistence\<close>, \<open>Snapshot_Codec\<close>, \<open>Persistence_Facts\<close>: \<open>db/persistence.c\<close>. The locales \<open>codec\<close> and
    \<open>loader\<close> carry a round trip of one item over to sequences, and are interpreted for array elements,
    fields, rows, tables and keys. Saving is the sequence of its system calls (\<open>sys_fopen\<close> to \<open>sys_remove\<close>)
    over the files, each of which can fail and lose data; it is atomic, a saved store is restored, any file
    loads safely.
  \<^item> \<open>Log\<close>, \<open>Config\<close>: \<open>utils/log.c\<close> and \<open>utils/stdin.c\<close>; \<open>utils/parse.c\<close> and \<open>config/runtime_config.c\<close>.
  \<^item> \<open>Server\<close>: the handling of one event in \<open>main.c\<close>, the release of the request included, and the runs it
    makes; \<open>Process\<close>: autosave, start-up, the rounds of the loop and the exit handler.
  \<^item> \<open>Descriptors\<close>: the set-up of signals, socket and epoll (\<open>create_server\<close>, \<open>watch_fd\<close>, the start of \<open>main\<close>),
    accepting and closing, and the exits, over the sets of open and of watched descriptors. What the system
    calls return is given; that the kernel hands out only closed descriptors and that \<open>epoll_wait\<close> reports
    watched descriptors at most once are the hypotheses \<open>boot_fresh\<close>, \<open>accept_fresh\<close> and \<open>ready_ok\<close>.
  \<^item> \<open>Durability\<close>: the whole life of a server, from its first start through rounds, saves, crashes and
    restarts (\<open>life\<close>), and that every store and every snapshot file in it fits the format: a received line has
    no NUL byte, the parser makes none, and the handlers store what was parsed. Assumed are requests that fit
    the tables, key counters below the largest \<open>int\<close>, and libsodium's documented length of a hash.

  \<^bold>\<open>What is shown.\<close> Access: a level above none comes from a verified AUTH on the same connection, and
  only administrators change anything. Safety: requests that fit the tables never reach undefined
  behaviour and keep tables, counts and indexes consistent. Function: each handler does what the abstract
  table prescribes, SEARCH returns exactly the matching rows with or without an index, printed tables
  fill their buffers exactly; every command that can be written down without doubles, quotes and backslashes
  is read back. Resources: no descriptor leaks, neither from a set-up that fails nor in the loop, no event is
  unknown, and refused requests are released. Durability: snapshots on disk are never torn, and whatever
  was asked before, a clean stop and a start give tables and keys back. Where the code goes wrong the theorem says how: a stopped update that is not undone, an
  uninitialised pointer that is freed, also for a client that never logged in, arrays of the wrong element type that pass the check, and others.

  \<^bold>\<open>Not modelled.\<close> Failing allocations, and the guards for NULL arguments that no caller passes (that of
  \<open>execute_up\<close> for missing values included: the parser gives none without values); the wrap of the capacity
  of the text of one array, which lemma \<open>write_elems_cap\<close> bounds by three times the length of the text; the
  number of blocks that tables give back (that their release reads no wild pointer is modelled); the effect of
  log lines and of the usage text, which is output; signals other than those read from the signal
  descriptor; the JavaScript client and the scripts. Signed overflow wraps, as the compilers in use have it.

  \<^bold>\<open>Next.\<close> The blocks owned by tables and indexes, so that leaks can be stated for whole runs; doubles in
  the printer of commands; a bound on the growth of the receive buffer.
\<close>

subsection \<open>Who may do what\<close>

text \<open>
  C1. In every run of the server, from a start without clients, whenever a connection has a level above
  none, there was an earlier request on this very connection, an AUTH whose token the key store as it
  was then verified with just this level and name, and the connection has not been dropped since.
\<close>

theorem authenticated_sessions_logged_in:
  assumes "server_run sv0 evs sv" "cm_wf (cm sv0)" "sessions (cm sv0) = Map.empty"
    and "sessions (cm sv) fd = Some (l, n)" "l \<noteq> AUTH_NONE"
  shows "\<exists>later env ev earlier sv1. evs = later @ (env, ev) # earlier \<and> server_run sv0 earlier sv1 \<and>
    logs_in env sv1 ev fd (l, n) \<and> Readable fd Dropped \<notin> snd ` set later"
  using assms
proof (induction rule: server_run.induct)
  case (step evs sv ev env sv' out)
  have wf: "cm_wf (cm sv)" using server_run_cm_wf step.hyps(1) step.prems(1) by blast
  from handle_event_sessions(2) [OF wf step.hyps(2,3) step.prems(3,4)] show ?case
  proof
    assume "sessions (cm sv) fd = Some (l, n)"
    moreover have "ev \<noteq> Readable fd Dropped"
      using dropped_session_ends [OF wf] step.hyps(3) step.prems(3) by auto
    moreover obtain later env1 ev1 earlier sv1 where "evs = later @ (env1, ev1) # earlier" "server_run sv0 earlier sv1"
      "logs_in env1 sv1 ev1 fd (l, n)" "Readable fd Dropped \<notin> snd ` set later"
      using step.IH [OF step.prems(1,2) calculation(1) step.prems(4)] by blast
    ultimately show ?thesis by (intro exI [of _ "(env, ev) # later"]) auto
  next
    assume "logs_in env sv ev fd (l, n)"
    with step.hyps(1) show ?thesis by (intro exI [of _ "[]"]) auto
  qed
qed simp

text \<open>A server on which one client connects and logs in.\<close>

definition demo_env :: Env where
  "demo_env = \<lparr>time_now = 5, sodium = demo_sodium\<rparr>"

definition demo_server :: Server where
  "demo_server = \<lparr>cm = snd (init_connection_manager 4 3 demo_cm), store = demo_store, keepRunning = True\<rparr>"

definition after_event :: "Server \<Rightarrow> Event \<Rightarrow> Server" where
  "after_event sv ev = fst (the (handle_event demo_env sv ev))"

definition login_event :: Event where
  "login_event = Readable 9 (Line ''AUTH c0ffee'')"

definition demo_server1 :: Server where
  "demo_server1 = after_event demo_server (Incoming 9 True)"

definition demo_server2 :: Server where
  "demo_server2 = after_event demo_server1 login_event"

lemma demo_start: "cm_wf (cm demo_server)" "sessions (cm demo_server) = Map.empty" "store_safe (store demo_server)"
  using init_connection_manager_ok [of 3 4 demo_cm] demo_store_ok by (simp_all add: demo_server_def)

definition drop_event :: Event where
  "drop_event = Readable 9 (Line ''DEL_TABLE t'')"

lemma demo_drop_parsed: "parse_command ''DEL_TABLE t'' = Some (OP_DEL_TABLE \<lparr>del_table_dbName = ''t''\<rparr>)"
  by code_simp

lemma demo_login_parsed: "parse_command ''AUTH c0ffee'' = Some (OP_AUTH \<lparr>auth_token = ''c0ffee''\<rparr>)"
  by code_simp

lemma demo_count_parsed: "parse_command ''COUNT t'' = Some (OP_COUNT \<lparr>count_dbName = ''t''\<rparr>)"
  by code_simp

lemma demo_events:
  "handle_event demo_env demo_server (Incoming 9 True) \<noteq> None \<and> handle_event demo_env demo_server1 login_event \<noteq> None \<and>
   handle_event demo_env demo_server2 drop_event \<noteq> None \<and> keepRunning demo_server \<and> keepRunning demo_server1 \<and>
   event_ok demo_server (Incoming 9 True) \<and> event_ok demo_server1 login_event \<and>
   sessions (cm demo_server1) 9 = Some (AUTH_NONE, []) \<and> sessions (cm demo_server2) 9 = Some (AUTH_ADMIN, ''admin'') \<and>
   length (storage (store demo_server2)) = 1 \<and> length (storage (store (after_event demo_server2 drop_event))) = 0"
  by code_simp

lemma after_event: "handle_event demo_env sv ev \<noteq> None \<Longrightarrow> \<exists>out. handle_event demo_env sv ev = Some (after_event sv ev, out)"
  by (auto simp: after_event_def)

lemma demo_connected:
  "server_run demo_server [(demo_env, Incoming 9 True)] demo_server1 \<and> sessions (cm demo_server1) 9 = Some (AUTH_NONE, []) \<and>
   store demo_server1 = store demo_server"
proof -
  obtain out where h: "handle_event demo_env demo_server (Incoming 9 True) = Some (demo_server1, out)"
    using demo_events after_event unfolding demo_server1_def by blast
  then have "demo_server1 = demo_server\<lparr>cm := snd (add_client True (cm demo_server) 9)\<rparr>" by (simp add: handle_event_def)
  from arg_cong [OF this, of store] have "store demo_server1 = store demo_server" by simp
  with demo_events h show ?thesis by (blast intro: server_run.intros)
qed

lemma demo_login: "\<exists>out. handle_event demo_env demo_server1 login_event = Some (demo_server2, out)"
  using demo_events after_event unfolding demo_server2_def by blast

lemma demo_run: "server_run demo_server [(demo_env, login_event), (demo_env, Incoming 9 True)] demo_server2"
  using demo_events demo_connected demo_login by (blast intro: server_run.intros)

lemma demo_store_same: "store demo_server2 = store demo_server"
proof (rule ccontr)
  assume "store demo_server2 \<noteq> store demo_server"
  then have "store demo_server2 \<noteq> store demo_server1" using demo_connected by simp
  then obtain cmd where "parse_command ''AUTH c0ffee'' = Some cmd" "get_client_auth (cm demo_server1) 9 = AUTH_ADMIN"
    using demo_login handle_event_store unfolding login_event_def by blast
  moreover have "cm_wf (cm demo_server1)" using demo_connected server_run_cm_wf demo_start(1) by blast
  ultimately show False using demo_connected by (simp add: get_client_auth_sessions)
qed

lemma demo_session: "sessions (cm demo_server2) 9 = Some (AUTH_ADMIN, ''admin'')"
  using demo_events by blast

theorem authenticated_sessions_logged_in_witness:
  "\<exists>later env ev earlier sv1.
     [(demo_env, login_event), (demo_env, Incoming 9 True)] = later @ (env, ev) # earlier \<and>
     logs_in env sv1 ev 9 (AUTH_ADMIN, ''admin'')"
  using authenticated_sessions_logged_in [OF demo_run demo_start(1,2) demo_session] by blast

text \<open>
  C2. The tables and the access keys change only in answer to a request on a connection that is logged
  in as administrator at that moment, and only by a request other than GET, GET_ALL, SEARCH, COUNT and
  WHOAMI.
\<close>

theorem store_changes_only_for_administrators:
  assumes "handle_event env sv ev = Some (sv', out)" "store sv' \<noteq> store sv"
  shows "\<exists>fd line cmd. ev = Readable fd (Line line) \<and> parse_command line = Some cmd \<and> \<not> readonly_op cmd \<and>
    get_client_auth (cm sv) fd = AUTH_ADMIN"
  by (rule handle_event_store [OF assms])

theorem store_changes_only_for_administrators_witness:
  "handle_event demo_env demo_server2 drop_event \<noteq> None \<and> store (after_event demo_server2 drop_event) \<noteq> store demo_server2 \<and>
   (\<exists>fd line. drop_event = Readable fd (Line line) \<and> get_client_auth (cm demo_server2) fd = AUTH_ADMIN)"
proof -
  have ch: "store (after_event demo_server2 drop_event) \<noteq> store demo_server2" using demo_events by auto
  obtain out where "handle_event demo_env demo_server2 drop_event = Some (after_event demo_server2 drop_event, out)"
    using demo_events after_event by blast
  from store_changes_only_for_administrators [OF this ch] ch demo_events show ?thesis by blast
qed

text \<open>
  C17. What a connection that has not logged in can do, other than AUTH, for every line it can send: a line
  that is no command gets its error message, and any other request the answer that authentication is
  required, and the server is as before; only if a value of the request was counted but not filled, which
  \<open>ADD\<close> allows, its release is undefined.
\<close>

theorem unauthenticated_requests_are_refused:
  assumes "cm_wf (cm sv)" "sessions (cm sv) fd = Some (AUTH_NONE, n)" "parse_command line = Some cmd" "\<forall>d. cmd \<noteq> OP_AUTH d"
  shows "handle_event env sv (Readable fd (Line line)) =
    (case cmd of
       OP_ERROR e \<Rightarrow> Some (sv, Some (Buffer e MAX_ERROR_LENGTH))
     | _ \<Rightarrow> if releasable cmd then Some (sv, Some (Bytes ''ERR Authentication required'')) else None)"
proof -
  have level: "get_client_auth (cm sv) fd = AUTH_NONE" "is_client (cm sv) fd"
    using assms(1,2) by (simp_all add: get_client_auth_sessions is_client_sessions)
  have ok: "command_ok cmd" using parse_command_ok [of line] assms(3) by auto
  have free: "free_command cmd False = None \<longleftrightarrow> \<not> releasable cmd"
    using free_command_ok [OF ok] unfilled_only_by_add [OF ok] free_values_unfilled
    by (fastforce simp: releasable_def command_values_def free_command_def)
  show ?thesis
  proof (cases "releasable cmd")
    case True
    then obtain n where "free_command cmd False = Some n" using free by auto
    with True level assms(3,4) show ?thesis
      by (cases cmd) (simp_all add: handle_event_def handle_command_def answer_def Let_def)
  next
    case False
    then obtain d where "cmd = OP_ADD d" using unfilled_only_by_add [OF ok] by (auto simp: releasable_def)
    with False free level assms(3) show ?thesis
      by (simp add: handle_event_def handle_command_def answer_def Let_def)
  qed
qed

theorem unauthenticated_requests_are_refused_witness:
  "handle_event demo_env demo_server1 drop_event = Some (demo_server1, Some (Bytes ''ERR Authentication required''))"
proof -
  have "server_run demo_server [(demo_env, Incoming 9 True)] demo_server1 \<and> sessions (cm demo_server1) 9 = Some (AUTH_NONE, [])"
    using demo_connected by blast
  moreover from this have "cm_wf (cm demo_server1)" using server_run_cm_wf demo_start(1) by blast
  ultimately show ?thesis
    unfolding drop_event_def
    using unauthenticated_requests_are_refused [OF _ _ demo_drop_parsed, of demo_server1 9 "[]" demo_env]
    by (simp add: releasable_def command_values_def)
qed

text \<open>
  C16. A reading request of a read-only session (or of an administrator) on a store that is safe is answered,
  without undefined behaviour and without changing anything, if the table it prints fits an \<open>int\<close> and, for a
  SEARCH, the value has the type of the field and an index that is used is up to date.
\<close>

theorem read_requests_are_served:
  assumes "cm_wf (cm sv)" "sessions (cm sv) fd = Some (l, n)" "l \<noteq> AUTH_NONE" "store_safe (store sv)"
    "parse_command line = Some cmd" "readonly_op cmd" "command_meant (store sv) cmd"
  shows "\<exists>reply. handle_event env sv (Readable fd (Line line)) = Some (sv, Some reply)"
proof -
  have "command_ok cmd" using parse_command_ok [of line] assms(5) by auto
  then obtain reply where r: "run_command env sv fd cmd = Some (sv, reply)"
    using run_command_readonly_defined [OF assms(4,6,7)] by blast
  have "get_client_auth (cm sv) fd = l" "is_client (cm sv) fd"
    using assms(1,2) by (simp_all add: get_client_auth_sessions is_client_sessions)
  with assms(3,5,6) r show ?thesis
    by (cases cmd) (auto simp: handle_event_def handle_command_def Let_def readonly_op_def)
qed

theorem read_requests_are_served_witness:
  "\<exists>reply. handle_event demo_env demo_server2 (Readable 9 (Line ''COUNT t'')) = Some (demo_server2, Some reply)"
proof -
  have "cm_wf (cm demo_server2)" "store_safe (store demo_server2)"
    using server_run_cm_wf [OF demo_run demo_start(1)] demo_store_same demo_start(3) by simp_all
  then show ?thesis
    by (intro read_requests_are_served [OF _ demo_session _ _ demo_count_parsed])
      (simp_all add: readonly_op_def command_meant_def)
qed

text \<open>
  C4. Along every run whose requests the types of the tables allow, the table of clients stays
  well formed and the store stays safe.
\<close>

theorem server_invariant:
  assumes "meant_run sv0 evs sv" "cm_wf (cm sv0)" "store_safe (store sv0)"
  shows "cm_wf (cm sv) \<and> store_safe (store sv)"
  using assms
proof (induction rule: meant_run.induct)
  case (step evs sv ev env sv' out)
  then have ih: "cm_wf (cm sv)" "store_safe (store sv)" by simp_all
  from handle_event_sessions(1) [OF ih(1) step.hyps(2,4)] handle_event_safe [OF ih(2) step.hyps(3,4)]
  show ?case by simp
qed simp

text \<open>The client that has logged in adds a row.\<close>

definition add_line :: string where
  "add_line = ''ADD t 3 ('' @ quote ''ab'' @ '', [7])''"

definition demo_server3 :: Server where
  "demo_server3 = after_event demo_server2 (Readable 9 (Line add_line))"

lemma add_line_parses: "parse_command add_line = Some (OP_ADD demo_add)"
  by code_simp

lemma demo_added:
  "handle_event demo_env demo_server2 (Readable 9 (Line add_line)) \<noteq> None \<and>
   map_option rowsCount (find_db (storage (store demo_server3)) ''t'') = Some 2"
  by code_simp

lemma demo_meant_run:
  "meant_run demo_server [(demo_env, Readable 9 (Line add_line)), (demo_env, login_event), (demo_env, Incoming 9 True)] demo_server3"
proof -
  obtain out where h: "handle_event demo_env demo_server (Incoming 9 True) = Some (demo_server1, out)"
    using demo_events after_event unfolding demo_server1_def by blast
  obtain out' where h': "handle_event demo_env demo_server2 (Readable 9 (Line add_line)) = Some (demo_server3, out')"
    using demo_added after_event unfolding demo_server3_def by blast
  obtain out'' where h'': "handle_event demo_env demo_server1 login_event = Some (demo_server2, out'')"
    using demo_login by blast
  have "store demo_server2 = demo_store" by (simp add: demo_store_same demo_server_def)
  then have "event_meant demo_server2 (Readable 9 (Line add_line))"
    using demo_add_meant add_line_parses by (simp add: event_meant_def)
  moreover have "event_meant demo_server1 login_event"
    using demo_login_parsed by (simp add: event_meant_def login_event_def command_meant_def)
  moreover have "meant_run demo_server [(demo_env, Incoming 9 True)] demo_server1"
    using demo_events by (intro meant_run.step [OF meant_run.start _ _ h]) (auto simp: event_meant_def)
  ultimately show ?thesis
    using demo_events by (intro meant_run.step [OF meant_run.step [OF _ _ _ h''] _ _ h']) (simp_all add: event_ok_def)
qed

theorem server_invariant_witness:
  "cm_wf (cm demo_server3) \<and> store_safe (store demo_server3) \<and>
   map_option rowsCount (find_db (storage (store demo_server3)) ''t'') = Some 2"
  using server_invariant [OF demo_meant_run demo_start(1,3)] demo_added by simp

subsection \<open>Requests that go wrong\<close>

text \<open>
  C33. An administrator's ADD to a table that does not exist is not just refused: the answer is sent, and
  then the server releases the result's data pointer, which this path has never set.
\<close>

theorem add_to_missing_table_frees_garbage:
  assumes "find_db (storage (store sv)) (add_dbName d) = None" "get_client_auth (cm sv) fd = AUTH_ADMIN"
  shows "\<exists>r. execute_add (time_now env) (store sv) d = Some (r, store sv) \<and> message r \<noteq> None \<and> rdata r = Uninit \<and>
    handle_command env sv fd (OP_ADD d) = None"
proof -
  have "execute_add (time_now env) (store sv) d = Some (error_result (-1) EX_DB_NOT_FOUND Uninit, store sv)"
    using assms(1) by (simp add: execute_add_def)
  with assms(2) show ?thesis
    by (simp add: handle_command_def run_command_def fill_whoami_def execute_command_def free_command_result_def
        error_result_def respond_def)
qed

theorem add_to_missing_table_frees_garbage_witness:
  "handle_command demo_env demo_server2 9 (OP_ADD \<lparr>add_dbName = ''nope'', add_key = 1, add_values = [], add_autoKey = False\<rparr>) = None"
proof -
  have "find_db (storage (store demo_server2)) ''nope'' = None"
    by (simp add: demo_store_same demo_server_def demo_store_def demo_name)
  moreover have "get_client_auth (cm demo_server2) 9 = AUTH_ADMIN"
    using server_run_cm_wf [OF demo_run demo_start(1)] demo_session by (simp add: get_client_auth_sessions)
  ultimately show ?thesis
    using add_to_missing_table_frees_garbage [of demo_server2
      "\<lparr>add_dbName = ''nope'', add_key = 1, add_values = [], add_autoKey = False\<rparr>" 9 demo_env] by auto
qed

text \<open>
  C18. Nobody has to log in to make the server release a wild pointer: an ADD whose values were miscounted
  ends in a value with the tag of a string of which only four bytes were set, and refusing the request,
  to a stranger as to a read-only session, frees the pointer those bytes begin.
\<close>

theorem refused_add_frees_garbage:
  assumes "parse_command line = Some (OP_ADD d)" "unfilled \<in> set (add_values d)"
    "is_client (cm sv) fd" "get_client_auth (cm sv) fd \<noteq> AUTH_ADMIN"
  shows "handle_event env sv (Readable fd (Line line)) = None"
proof -
  have "free_command (OP_ADD d) False = None"
    using free_values_unfilled [OF assms(2)] by (simp add: free_command_def)
  with assms show ?thesis
    by (cases "get_client_auth (cm sv) fd") (simp_all add: handle_event_def handle_command_def answer_def readonly_op_def)
qed

definition quoted_comma :: string where
  "quoted_comma = ''ADD t 1 ('' @ quote [CHR ''a'', CHR 0x22, CHR '','', CHR ''b''] @ '')''"

definition quoted_comma_add :: AddData where
  "quoted_comma_add = \<lparr>add_dbName = ''t'', add_key = 1,
     add_values = [Data 4 (U_s (Some [CHR ''a'', CHR 0x22, CHR '','', CHR ''b''])), unfilled], add_autoKey = False\<rparr>"

lemma quoted_comma_parses: "parse_command quoted_comma = Some (OP_ADD quoted_comma_add)"
  by code_simp

theorem refused_add_frees_garbage_witness:
  "sessions (cm demo_server1) 9 = Some (AUTH_NONE, []) \<and>
   handle_event demo_env demo_server1 (Readable 9 (Line quoted_comma)) = None"
proof -
  have s: "sessions (cm demo_server1) 9 = Some (AUTH_NONE, [])" "cm_wf (cm demo_server1)"
    using demo_connected server_run_cm_wf demo_start(1) by blast+
  then have "is_client (cm demo_server1) 9" "get_client_auth (cm demo_server1) 9 \<noteq> AUTH_ADMIN"
    by (simp_all add: is_client_sessions get_client_auth_sessions)
  with refused_add_frees_garbage [OF quoted_comma_parses] s(1) show ?thesis by (simp add: quoted_comma_add_def)
qed

end
